(* ===== verification/Prelude.thy ===== *)
theory Prelude
  imports Main "HOL-Library.Word"
begin

text \<open>
  The shared base of the development: the result type every fallible operation of the
  model returns, the named collections the component proofs feed to the simplifier, and
  generic facts on lists, finite maps and machine words that several components use.
  Nothing here is specific to one part of the program.
\<close>

unbundle bit_operations_syntax

named_theorems go_defs \<open>definitions of the modelled part of the Go standard library\<close>
named_theorems proto_defs \<open>definitions of the wire-protocol validators\<close>
named_theorems route_defs \<open>definitions of the mesh route model\<close>
named_theorems stream_defs \<open>definitions of the typed-stream registry and flow control\<close>
named_theorems result_splits \<open>inversion rules for successful results\<close>

section \<open>Results\<close>

text \<open>
  A Go function returning \<open>(T, error)\<close> is modelled by a value of \<open>'e + 'a\<close>: \<open>Err e\<close> is
  the early return with a non-nil error, \<open>Ok v\<close> the return with a nil error.
\<close>

type_synonym ('e, 'a) result = "'e + 'a"

abbreviation Err :: "'e \<Rightarrow> ('e, 'a) result" where
  "Err \<equiv> Inl"

abbreviation Ok :: "'a \<Rightarrow> ('e, 'a) result" where
  "Ok \<equiv> Inr"

definition is_ok :: "('e, 'a) result \<Rightarrow> bool" where
  "is_ok r = (case r of Err _ \<Rightarrow> False | Ok _ \<Rightarrow> True)"

text \<open>\<open>if err := x; err != nil { return err }\<close>, then the continuation.\<close>

definition bind_res :: "('e, 'a) result \<Rightarrow> ('a \<Rightarrow> ('e, 'b) result) \<Rightarrow> ('e, 'b) result" where
  "bind_res x k = (case x of Err e \<Rightarrow> Err e | Ok v \<Rightarrow> k v)"

definition map_err :: "('e \<Rightarrow> 'f) \<Rightarrow> ('e, 'a) result \<Rightarrow> ('f, 'a) result" where
  "map_err f x = (case x of Err e \<Rightarrow> Err (f e) | Ok v \<Rightarrow> Ok v)"

lemma is_ok_simps [simp]: "is_ok (Ok v)" "\<not> is_ok (Err e)"
  by (simp_all add: is_ok_def)

lemma is_ok_iff: "is_ok r \<longleftrightarrow> (\<exists>v. r = Ok v)"
  by (cases r) simp_all

lemma is_ok_unit_iff [simp]: "is_ok (r :: ('e, unit) result) \<longleftrightarrow> r = Ok ()"
  by (cases r) simp_all

lemma bind_res_simps [simp]:
  "bind_res (Err e) k = Err e"
  "bind_res (Ok v) k = k v"
  by (simp_all add: bind_res_def)

lemma bind_res_Ok_iff [result_splits]:
  "bind_res x k = Ok y \<longleftrightarrow> (\<exists>v. x = Ok v \<and> k v = Ok y)"
  by (cases x) simp_all

lemma bind_res_Err_iff:
  "bind_res x k = Err e \<longleftrightarrow> x = Err e \<or> (\<exists>v. x = Ok v \<and> k v = Err e)"
  by (cases x) simp_all

lemma map_err_simps [simp]:
  "map_err f (Err e) = Err (f e)"
  "map_err f (Ok v) = Ok v"
  by (simp_all add: map_err_def)

lemma map_err_Ok_iff [simp]: "map_err f x = Ok v \<longleftrightarrow> x = Ok v"
  by (cases x) simp_all

lemma if_Err_Ok_iff [result_splits]:
  "(if c then Err e else x) = Ok v \<longleftrightarrow> \<not> c \<and> x = Ok v"
  by simp

section \<open>Lists\<close>

lemma append_eq_length_inject:
  assumes "length xs = length ys"
  shows "xs @ us = ys @ vs \<longleftrightarrow> xs = ys \<and> us = vs"
  using assms by simp

lemma length_4_cases:
  assumes "length xs = 4"
  obtains a b c d where "xs = [a, b, c, d]"
  using assms by (auto simp: length_Suc_conv numeral_eq_Suc)

lemma length_12_cases:
  assumes "length xs = 12"
  obtains a0 a1 a2 a3 a4 a5 a6 a7 a8 a9 a10 a11
    where "xs = [a0, a1, a2, a3, a4, a5, a6, a7, a8, a9, a10, a11]"
  using assms by (auto simp: length_Suc_conv numeral_eq_Suc)

lemma length_2_cases:
  assumes "length xs = 2"
  obtains a b where "xs = [a, b]"
  using assms by (auto simp: length_Suc_conv numeral_eq_Suc)

section \<open>Finite maps\<close>

lemma finite_dom_map_upd [simp]: "finite (dom (m(k \<mapsto> v))) \<longleftrightarrow> finite (dom m)"
  by simp

lemma card_dom_upd_fresh:
  assumes "finite (dom m)" and "m k = None"
  shows "card (dom (m(k \<mapsto> v))) = Suc (card (dom m))"
proof -
  have "k \<notin> dom m" using assms(2) by (simp add: domIff)
  then show ?thesis using assms(1) by simp
qed

lemma dom_upd_present: "m k = Some u \<Longrightarrow> dom (m(k \<mapsto> v)) = dom m"
  by (auto simp: insert_absorb)

text \<open>Keeping the entries of a map that satisfy a predicate: Go's delete-while-ranging.\<close>

definition map_keep :: "('k \<Rightarrow> 'v \<Rightarrow> bool) \<Rightarrow> ('k \<rightharpoonup> 'v) \<Rightarrow> ('k \<rightharpoonup> 'v)" where
  "map_keep P m = (\<lambda>k. case m k of None \<Rightarrow> None | Some v \<Rightarrow> if P k v then Some v else None)"

lemma map_keep_Some_iff [simp]: "map_keep P m k = Some v \<longleftrightarrow> m k = Some v \<and> P k v"
  by (auto simp: map_keep_def split: option.splits)

lemma map_keep_None_iff: "map_keep P m k = None \<longleftrightarrow> (\<forall>v. m k = Some v \<longrightarrow> \<not> P k v)"
  by (auto simp: map_keep_def split: option.splits)

lemma map_keep_empty [simp]: "map_keep P Map.empty = Map.empty"
  by (simp add: map_keep_def fun_eq_iff)

lemma map_keep_upd [simp]:
  "map_keep P (m(k \<mapsto> v)) = (if P k v then (map_keep P m)(k \<mapsto> v) else (map_keep P m)(k := None))"
  by (auto simp: map_keep_def fun_eq_iff)

lemma dom_map_keep_subset: "dom (map_keep P m) \<subseteq> dom m"
  by (auto simp: dom_def)

lemma finite_dom_map_keep [intro]: "finite (dom m) \<Longrightarrow> finite (dom (map_keep P m))"
  by (rule finite_subset [OF dom_map_keep_subset])

section \<open>Machine words\<close>

type_synonym byte = "8 word"
type_synonym u16 = "16 word"
type_synonym u32 = "32 word"
type_synonym u64 = "64 word"

lemma bit_byte_ge: "8 \<le> n \<Longrightarrow> \<not> bit (b :: byte) n"
  by (simp add: impossible_bit)

lemma unat_u32_less: "unat (w :: u32) < 4294967296"
  using unsigned_less [of w] by simp

lemma unat_u64_less: "unat (w :: u64) < 18446744073709551616"
  using unsigned_less [of w] by simp

lemma unat_of_nat_u32 [simp]: "n < 4294967296 \<Longrightarrow> unat (of_nat n :: u32) = n"
  by (simp add: unat_of_nat)

lemma of_nat_u32_inject:
  assumes "m < 4294967296" and "n < 4294967296"
  shows "(of_nat m :: u32) = of_nat n \<longleftrightarrow> m = n"
  by (metis assms unat_of_nat_u32)

lemma of_int_u64_inject:
  assumes "- 9223372036854775808 \<le> a" "a < 9223372036854775808"
    and "- 9223372036854775808 \<le> b" "b < 9223372036854775808"
  shows "(word_of_int a :: u64) = word_of_int b \<longleftrightarrow> a = b"
proof
  assume "(word_of_int a :: u64) = word_of_int b"
  then have "sint (word_of_int a :: u64) = sint (word_of_int b :: u64)" by simp
  then have "signed_take_bit 63 a = signed_take_bit 63 b"
    by (simp add: sint_sbintrunc')
  then show "a = b"
    using assms by (simp add: signed_take_bit_int_eq_self)
qed simp

end
