(* ===== verification/Go_Lib.thy ===== *)
theory Go_Lib
  imports Prelude "HOL-Library.Sublist"
begin

text \<open>
  The part of Go's standard library the program relies on, modelled as executable
  functions: byte strings and UTF-8 (\<open>strings\<close>, \<open>unicode/utf8\<close>), \<open>time.Time\<close>,
  \<open>encoding/binary\<close> big-endian integers, \<open>encoding/base64\<close> raw URL encoding,
  \<open>encoding/hex\<close>, and the readers and writers of package \<open>io\<close>.  A Go string is a
  sequence of bytes and is modelled by \<^typ>\<open>string\<close>, whose characters are bytes.
\<close>

section \<open>Strings\<close>

definition bytes_of :: "string \<Rightarrow> byte list" where
  "bytes_of s = map of_char s"

definition char_byte :: "byte \<Rightarrow> char" where
  "char_byte b = char_of (unat b)"

definition string_of :: "byte list \<Rightarrow> string" where
  "string_of bs = map char_byte bs"

lemma char_byte_of_char [simp]: "char_byte (of_char c) = c"
proof -
  have "unat (of_char c :: byte) = of_char c"
  proof -
    have "(of_char c :: byte) = of_nat (of_char c)" by (simp add: of_nat_of_char)
    then show ?thesis by (simp add: unat_of_nat)
  qed
  then show ?thesis by (simp add: char_byte_def)
qed

lemma string_of_bytes_of [simp]: "string_of (bytes_of s) = s"
  by (simp add: string_of_def bytes_of_def comp_def)

lemma length_bytes_of [simp]: "length (bytes_of s) = length s"
  by (simp add: bytes_of_def)

lemma bytes_of_inject [simp]: "bytes_of s = bytes_of t \<longleftrightarrow> s = t"
  by (metis string_of_bytes_of)

definition has_prefix :: "string \<Rightarrow> string \<Rightarrow> bool" where
  [go_defs]: "has_prefix s p \<longleftrightarrow> take (length p) s = p"

definition has_suffix :: "string \<Rightarrow> string \<Rightarrow> bool" where
  [go_defs]: "has_suffix s p \<longleftrightarrow> length p \<le> length s \<and> drop (length s - length p) s = p"

text \<open>\<open>strings.ContainsAny\<close> with a set of ASCII characters.\<close>

definition contains_any :: "string \<Rightarrow> string \<Rightarrow> bool" where
  [go_defs]: "contains_any s cs \<longleftrightarrow> list_ex (\<lambda>c. c \<in> set cs) s"

text \<open>\<open>strings.Split(s, sep)\<close> for a one-byte separator; \<open>Split("", sep)\<close> is \<open>[""]\<close>.\<close>

fun split_on :: "char \<Rightarrow> string \<Rightarrow> string list" where
  "split_on sep [] = [[]]"
| "split_on sep (c # s) =
     (if c = sep then [] # split_on sep s
      else (case split_on sep s of [] \<Rightarrow> [[c]] | p # ps \<Rightarrow> (c # p) # ps))"

lemma split_on_not_Nil [simp]: "split_on sep s \<noteq> []"
  by (induction s) (auto split: list.splits)

lemma split_on_no_sep: "p \<in> set (split_on sep s) \<Longrightarrow> sep \<notin> set p"
  by (induction s arbitrary: p) (auto split: list.splits if_splits)

text \<open>\<open>s[:i]\<close> for \<open>i = strings.IndexByte(s, c)\<close>, or all of \<open>s\<close> when \<open>c\<close> is absent.\<close>

definition before_byte :: "char \<Rightarrow> string \<Rightarrow> string" where
  [go_defs]: "before_byte c s = takeWhile (\<lambda>x. x \<noteq> c) s"

definition ascii_upper :: "char \<Rightarrow> char" where
  [go_defs]: "ascii_upper c =
     (let n = (of_char c :: nat) in if 97 \<le> n \<and> n \<le> 122 then char_of (n - 32) else c)"

text \<open>
  \<open>strings.TrimSpace\<close> removes leading and trailing Unicode white space.  The byte
  sequences below are the UTF-8 encodings of every rune for which \<open>unicode.IsSpace\<close>
  holds; none of them is a prefix or a suffix of another.
\<close>

definition space_seqs :: "string list" where
  "space_seqs =
     map (map char_of)
       ([[9], [10], [11], [12], [13], [32], [194, 133], [194, 160], [225, 154, 128]]
        @ map (\<lambda>b. [226, 128, b]) ([128..<139] @ [168, 169, 175])
        @ [[226, 129, 159], [227, 128, 128 :: nat]])"

function strip_seqs :: "string list \<Rightarrow> string \<Rightarrow> string" where
  "strip_seqs ps s =
     (case find (\<lambda>p. p \<noteq> [] \<and> prefix p s) ps of
        None \<Rightarrow> s
      | Some p \<Rightarrow> strip_seqs ps (drop (length p) s))"
  by pat_completeness auto
termination
proof (relation "measure (\<lambda>(ps, s). length s)", simp)
  fix ps :: "string list" and s p :: string
  assume "find (\<lambda>p. p \<noteq> [] \<and> prefix p s) ps = Some p"
  then have "p \<noteq> []" and "prefix p s" by (auto simp: find_Some_iff)
  then show "((ps, drop (length p) s), (ps, s)) \<in> measure (\<lambda>(ps, s). length s)"
    by (auto simp: prefix_def)
qed

declare strip_seqs.simps [simp del]

definition trim_space :: "string \<Rightarrow> string" where
  "trim_space s = rev (strip_seqs (map rev space_seqs) (rev (strip_seqs space_seqs s)))"

definition blank :: "string \<Rightarrow> bool" where
  "blank s \<longleftrightarrow> trim_space s = []"

lemma strip_seqs_Nil [simp]: "strip_seqs ps [] = []"
proof -
  have "find (\<lambda>p. p \<noteq> [] \<and> prefix p []) ps = None"
    by (auto simp: find_None_iff)
  then show ?thesis by (simp add: strip_seqs.simps)
qed

lemma blank_Nil [simp]: "blank []"
  by (simp add: blank_def trim_space_def)

lemma not_blank_not_Nil: "\<not> blank s \<Longrightarrow> s \<noteq> []"
  by auto

text \<open>
  White space consists of bytes outside the printable ASCII range, so a string that starts
  with a printable byte is not blank, and one that also ends with one is already trimmed.
\<close>

definition graph_char :: "char \<Rightarrow> bool" where
  "graph_char c \<longleftrightarrow> 33 \<le> (of_char c :: nat) \<and> (of_char c :: nat) \<le> 126"

lemma space_seqs_not_graph: "p \<in> set space_seqs \<Longrightarrow> c \<in> set p \<Longrightarrow> \<not> graph_char c"
proof -
  have "\<forall>bs \<in> set ([[9], [10], [11], [12], [13], [32], [194, 133], [194, 160], [225, 154, 128]]
        @ map (\<lambda>b. [226, 128, b]) ([128..<139] @ [168, 169, 175])
        @ [[226, 129, 159], [227, 128, 128 :: nat]]). \<forall>b \<in> set bs. b < 256 \<and> (b \<le> 32 \<or> 127 \<le> b)"
    by auto
  then show "p \<in> set space_seqs \<Longrightarrow> c \<in> set p \<Longrightarrow> \<not> graph_char c"
    unfolding space_seqs_def graph_char_def set_map by fastforce
qed

lemma strip_seqs_keeps:
  assumes "\<And>p. p \<in> set ps \<Longrightarrow> c \<notin> set p" and "c \<in> set s"
  shows "c \<in> set (strip_seqs ps s)"
  using assms
proof (induction ps s rule: strip_seqs.induct)
  case (1 ps s)
  show ?case
  proof (cases "find (\<lambda>p. p \<noteq> [] \<and> prefix p s) ps")
    case None
    with "1.prems" show ?thesis by (simp add: strip_seqs.simps)
  next
    case (Some p)
    then have p: "p \<in> set ps" "prefix p s" by (auto simp: find_Some_iff)
    then have "c \<in> set (drop (length p) s)" using "1.prems" by (auto simp: prefix_def)
    with "1.IH" [OF Some] "1.prems"(1) Some show ?thesis by (simp add: strip_seqs.simps [of ps s])
  qed
qed

lemma strip_seqs_stop:
  assumes "\<And>p. p \<in> set ps \<Longrightarrow> c \<notin> set p"
  shows "strip_seqs ps (c # s) = c # s"
proof -
  have "find (\<lambda>p. p \<noteq> [] \<and> prefix p (c # s)) ps = None"
    using assms by (fastforce simp: find_None_iff prefix_Cons)
  then show ?thesis by (simp add: strip_seqs.simps)
qed

lemma not_blank_Cons [simp]: "graph_char c \<Longrightarrow> \<not> blank (c # s)"
proof -
  assume c: "graph_char c"
  have "c \<in> set (strip_seqs space_seqs (c # s))"
    using c space_seqs_not_graph by (intro strip_seqs_keeps) auto
  then have "c \<in> set (strip_seqs (map rev space_seqs) (rev (strip_seqs space_seqs (c # s))))"
    using c space_seqs_not_graph by (intro strip_seqs_keeps) auto
  then show ?thesis by (auto simp: blank_def trim_space_def)
qed

lemma trim_space_graph:
  assumes "graph_char c" and "graph_char (last (c # s))"
  shows "trim_space (c # s) = c # s"
proof -
  have "strip_seqs space_seqs (c # s) = c # s"
    using assms(1) space_seqs_not_graph by (intro strip_seqs_stop) blast
  moreover define t where "t = tl (rev (c # s))"
  moreover have t: "rev (c # s) = last (c # s) # t"
    unfolding t_def by (metis hd_rev list.collapse list.distinct(1) rev_is_Nil_conv)
  moreover have "strip_seqs (map rev space_seqs) (last (c # s) # t) = last (c # s) # t"
    using assms(2) space_seqs_not_graph by (intro strip_seqs_stop) auto
  ultimately show ?thesis by (metis trim_space_def rev_rev_ident)
qed

section \<open>UTF-8\<close>

text \<open>
  \<open>utf8.DecodeRune\<close>: the first rune of a byte sequence and its width; an invalid or
  truncated sequence gives \<open>RuneError\<close> (65533) of width 1.
\<close>

definition rune_error :: nat where
  "rune_error = 65533"

definition cont_byte :: "nat \<Rightarrow> bool" where
  "cont_byte b \<longleftrightarrow> 128 \<le> b \<and> b \<le> 191"

definition second_lo :: "nat \<Rightarrow> nat" where
  "second_lo b = (if b = 224 then 160 else if b = 240 then 144 else 128)"

definition second_hi :: "nat \<Rightarrow> nat" where
  "second_hi b = (if b = 237 then 159 else if b = 244 then 143 else 191)"

fun decode_rune :: "nat list \<Rightarrow> nat \<times> nat" where
  "decode_rune [] = (rune_error, 0)"
| "decode_rune (b # bs) =
     (if b < 128 then (b, 1)
      else if 194 \<le> b \<and> b \<le> 223 then
        (case bs of
           c # _ \<Rightarrow> if cont_byte c then ((b - 192) * 64 + (c - 128), 2) else (rune_error, 1)
         | _ \<Rightarrow> (rune_error, 1))
      else if 224 \<le> b \<and> b \<le> 239 then
        (case bs of
           c # d # _ \<Rightarrow>
             if second_lo b \<le> c \<and> c \<le> second_hi b \<and> cont_byte d
             then ((b - 224) * 4096 + (c - 128) * 64 + (d - 128), 3) else (rune_error, 1)
         | _ \<Rightarrow> (rune_error, 1))
      else if 240 \<le> b \<and> b \<le> 244 then
        (case bs of
           c # d # e # _ \<Rightarrow>
             if second_lo b \<le> c \<and> c \<le> second_hi b \<and> cont_byte d \<and> cont_byte e
             then ((b - 240) * 262144 + (c - 128) * 4096 + (d - 128) * 64 + (e - 128), 4)
             else (rune_error, 1)
         | _ \<Rightarrow> (rune_error, 1))
      else (rune_error, 1))"

function rune_widths :: "nat list \<Rightarrow> (nat \<times> nat) list" where
  "rune_widths [] = []"
| "rune_widths (b # bs) =
     (let rw = decode_rune (b # bs) in rw # rune_widths (drop (snd rw - 1) bs))"
  by pat_completeness auto
termination
  by (relation "measure length") auto

definition valid_utf8 :: "string \<Rightarrow> bool" where
  "valid_utf8 s \<longleftrightarrow> list_all (\<lambda>rw. rw \<noteq> (rune_error, 1)) (rune_widths (map of_char s))"

text \<open>The runes a \<open>for _, r := range s\<close> loop visits.\<close>

definition runes :: "string \<Rightarrow> nat list" where
  "runes s = map fst (rune_widths (map of_char s))"

definition is_control :: "nat \<Rightarrow> bool" where
  "is_control r \<longleftrightarrow> r \<le> 31 \<or> (127 \<le> r \<and> r \<le> 159)"

section \<open>Time\<close>

text \<open>
  A \<open>time.Time\<close> is an instant, counted in nanoseconds from Go's zero time (January 1,
  year 1, UTC), together with a location.  \<open>Before\<close>, \<open>After\<close> and \<open>IsZero\<close> look at the
  instant only, while \<open>==\<close> on the struct also compares the location; location 0 is UTC.
  Durations are integers in nanoseconds.  The monotonic clock reading is not modelled.
\<close>

record gotime =
  t_ns :: int
  t_loc :: nat

definition unix_epoch_ns :: int where
  "unix_epoch_ns = 62135596800 * 1000000000"

definition time_is_zero :: "gotime \<Rightarrow> bool" where
  [go_defs]: "time_is_zero t \<longleftrightarrow> t_ns t = 0"

definition time_before :: "gotime \<Rightarrow> gotime \<Rightarrow> bool" where
  [go_defs]: "time_before a b \<longleftrightarrow> t_ns a < t_ns b"

definition time_after :: "gotime \<Rightarrow> gotime \<Rightarrow> bool" where
  [go_defs]: "time_after a b \<longleftrightarrow> t_ns b < t_ns a"

definition time_utc :: "gotime \<Rightarrow> gotime" where
  [go_defs]: "time_utc t = t\<lparr>t_loc := 0\<rparr>"

definition time_add :: "gotime \<Rightarrow> int \<Rightarrow> gotime" where
  [go_defs]: "time_add t d = t\<lparr>t_ns := t_ns t + d\<rparr>"

text \<open>\<open>t.UnixMilli()\<close>, and \<open>time.UnixMilli(ms)\<close>, which is in the local time zone (1).\<close>

definition unix_milli :: "gotime \<Rightarrow> int" where
  "unix_milli t = (t_ns t - unix_epoch_ns) div 1000000"

definition time_of_milli :: "int \<Rightarrow> gotime" where
  "time_of_milli ms = \<lparr>t_ns = unix_epoch_ns + ms * 1000000, t_loc = 1\<rparr>"

definition millisecond :: int where
  "millisecond = 1000000"

definition second :: int where
  "second = 1000000000"

definition minute :: int where
  "minute = 60 * second"

lemma unix_milli_of_milli [simp]: "unix_milli (time_of_milli ms) = ms"
  by (simp add: unix_milli_def time_of_milli_def)

lemma unix_milli_utc [simp]: "unix_milli (time_utc t) = unix_milli t"
  by (simp add: unix_milli_def time_utc_def)

lemma time_utc_simps [simp]: "t_ns (time_utc t) = t_ns t" "t_loc (time_utc t) = 0"
  by (simp_all add: time_utc_def)

text \<open>Whole milliseconds order instants the way the program's integer checks assume.\<close>

lemma unix_milli_less_iff:
  "unix_milli t < ms \<longleftrightarrow> time_before t (time_of_milli ms)"
proof -
  have "(t_ns t - unix_epoch_ns) div 1000000 < ms \<longleftrightarrow> t_ns t - unix_epoch_ns < ms * 1000000"
    by linarith
  then show ?thesis
    by (auto simp: unix_milli_def time_before_def time_of_milli_def)
qed

lemma le_unix_milli_iff: "ms \<le> unix_milli t \<longleftrightarrow> \<not> time_before t (time_of_milli ms)"
  using unix_milli_less_iff [of t ms] by auto

end
