(* ===== verification/Route.thy ===== *)
theory Route
  imports Go_Lib
begin

text \<open>
  Mesh routes (\<open>internal/mesh/mesh.go\<close>): structural validation of peers, routes and router
  policies, the saturating route cost and the lowest-cost planner.  Route validation is
  compared with its declarative meaning, a loop-free path from source to destination, and
  the planner with the minimum over the valid candidates.
\<close>

section \<open>Data\<close>

definition MaxRouteHops :: nat where
  "MaxRouteHops = 8"

type_synonym device_id = string
type_synonym transport_name = string

definition TransportLAN :: transport_name where "TransportLAN = ''lan''"
definition TransportInternet :: transport_name where "TransportInternet = ''internet''"
definition TransportBluetooth :: transport_name where "TransportBluetooth = ''bluetooth''"

record capabilities =
  cap_client :: bool
  cap_endpoint :: bool
  cap_router :: bool

record peer =
  peer_id :: device_id
  peer_capabilities :: capabilities
  peer_transports :: "transport_name list"

record route_hop =
  hop_from :: device_id
  hop_to :: device_id
  hop_transport :: transport_name
  hop_cost :: u64

record route =
  rt_id :: string
  rt_source :: device_id
  rt_destination :: device_id
  rt_hops :: "route_hop list"
  rt_expires :: gotime

datatype mesh_error =
    MeshPeerID
  | MeshPeerTransport
  | MeshPeerDuplicateTransport transport_name
  | MeshRouteID
  | MeshRouteSource
  | MeshRouteDestination
  | MeshRouteEndpoints
  | MeshRouteNoHops
  | MeshRouteTooLong
  | MeshRouteNoExpiry
  | MeshRouteExpired
  | MeshHopDevice nat
  | MeshHopTransport nat
  | MeshHopDiscontinuous nat
  | MeshHopSelfLoop nat
  | MeshHopLoop nat
  | MeshRouteEnd
  | MeshPolicySessions
  | MeshPolicyBandwidth
  | MeshPolicyPublic
  | MeshPlanCancelled
  | MeshPlanSource
  | MeshPlanDestination
  | MeshPlanTime
  | ErrNoRoute

section \<open>Operations\<close>

fun peer_transports_check :: "transport_name set \<Rightarrow> transport_name list \<Rightarrow> (mesh_error, unit) result" where
  "peer_transports_check seen [] = Ok ()"
| "peer_transports_check seen (t # ts) =
     (if blank t then Err MeshPeerTransport
      else if t \<in> seen then Err (MeshPeerDuplicateTransport t)
      else peer_transports_check (insert t seen) ts)"

definition Peer_Validate :: "peer \<Rightarrow> (mesh_error, unit) result" where
  "Peer_Validate p =
     (if blank (peer_id p) then Err MeshPeerID else peer_transports_check {} (peer_transports p))"

text \<open>The loop of \<open>Route.Validate\<close>: the hop index, the expected sender and the visited devices.\<close>

fun route_hops_check ::
  "nat \<Rightarrow> device_id \<Rightarrow> device_id set \<Rightarrow> route_hop list \<Rightarrow> (mesh_error, device_id) result" where
  "route_hops_check i expectedFrom visited [] = Ok expectedFrom"
| "route_hops_check i expectedFrom visited (hop # hops) =
     (if blank (hop_from hop) \<or> blank (hop_to hop) then Err (MeshHopDevice i)
      else if blank (hop_transport hop) then Err (MeshHopTransport i)
      else if hop_from hop \<noteq> expectedFrom then Err (MeshHopDiscontinuous i)
      else if hop_from hop = hop_to hop then Err (MeshHopSelfLoop i)
      else if hop_to hop \<in> visited then Err (MeshHopLoop i)
      else route_hops_check (Suc i) (hop_to hop) (insert (hop_to hop) visited) hops)"

definition Route_Validate :: "route \<Rightarrow> gotime \<Rightarrow> (mesh_error, unit) result" where
  "Route_Validate r now =
     (if blank (rt_id r) then Err MeshRouteID
      else if blank (rt_source r) then Err MeshRouteSource
      else if blank (rt_destination r) then Err MeshRouteDestination
      else if rt_source r = rt_destination r then Err MeshRouteEndpoints
      else if rt_hops r = [] then Err MeshRouteNoHops
      else if MaxRouteHops < length (rt_hops r) then Err MeshRouteTooLong
      else if time_is_zero (rt_expires r) then Err MeshRouteNoExpiry
      else if \<not> time_before now (rt_expires r) then Err MeshRouteExpired
      else bind_res (route_hops_check 0 (rt_source r) {rt_source r} (rt_hops r))
        (\<lambda>expectedFrom. if expectedFrom \<noteq> rt_destination r then Err MeshRouteEnd else Ok ()))"

fun cost_loop :: "u64 \<Rightarrow> route_hop list \<Rightarrow> u64" where
  "cost_loop acc [] = acc"
| "cost_loop acc (hop # hops) =
     (let nxt = acc + hop_cost hop in
      if nxt < acc then - 1 else cost_loop nxt hops)"

definition Route_Cost :: "route \<Rightarrow> u64" where
  "Route_Cost r = cost_loop 0 (rt_hops r)"

record router_policy =
  rp_enabled :: bool
  rp_trusted_only :: bool
  rp_organization_only :: bool
  rp_public :: bool
  rp_max_sessions :: int
  rp_max_bandwidth :: int
  rp_allow_battery :: bool
  rp_allow_metered :: bool
  rp_lan_only :: bool

definition DisabledRouterPolicy :: router_policy where
  "DisabledRouterPolicy =
     \<lparr>rp_enabled = False, rp_trusted_only = True, rp_organization_only = False, rp_public = False,
      rp_max_sessions = 0, rp_max_bandwidth = 0, rp_allow_battery = False, rp_allow_metered = False,
      rp_lan_only = False\<rparr>"

definition RouterPolicy_Validate :: "router_policy \<Rightarrow> (mesh_error, unit) result" where
  "RouterPolicy_Validate p =
     (if rp_max_sessions p < 0 then Err MeshPolicySessions
      else if rp_max_bandwidth p < 0 then Err MeshPolicyBandwidth
      else if rp_public p \<and> \<not> rp_enabled p then Err MeshPolicyPublic
      else Ok ())"

record plan_request =
  pl_source :: device_id
  pl_destination :: device_id
  pl_candidates :: "route list"
  pl_now :: gotime

text \<open>
  The planner polls the context before every candidate; \<open>ctx k\<close> says whether the \<open>k\<close>-th
  poll finds it cancelled.  \<open>best\<close> is the best candidate so far with its cost.
\<close>

definition plan_better :: "route \<Rightarrow> (route \<times> u64) option \<Rightarrow> bool" where
  "plan_better candidate best =
     (case best of
        None \<Rightarrow> True
      | Some (b, bestCost) \<Rightarrow>
          Route_Cost candidate < bestCost \<or>
          Route_Cost candidate = bestCost \<and> length (rt_hops candidate) < length (rt_hops b))"

fun plan_loop ::
  "(nat \<Rightarrow> bool) \<Rightarrow> nat \<Rightarrow> plan_request \<Rightarrow> (route \<times> u64) option \<Rightarrow> route list \<Rightarrow>
     (mesh_error, (route \<times> u64) option) result" where
  "plan_loop ctx k req best [] = Ok best"
| "plan_loop ctx k req best (candidate # cs) =
     (if ctx k then Err MeshPlanCancelled
      else if rt_source candidate \<noteq> pl_source req \<or> rt_destination candidate \<noteq> pl_destination req
      then plan_loop ctx (Suc k) req best cs
      else if \<not> is_ok (Route_Validate candidate (pl_now req))
      then plan_loop ctx (Suc k) req best cs
      else plan_loop ctx (Suc k) req
        (if plan_better candidate best then Some (candidate, Route_Cost candidate) else best) cs)"

definition LowestCostPlanner_Plan :: "(nat \<Rightarrow> bool) \<Rightarrow> plan_request \<Rightarrow> (mesh_error, route) result" where
  "LowestCostPlanner_Plan ctx req =
     (if ctx 0 then Err MeshPlanCancelled
      else if blank (pl_source req) then Err MeshPlanSource
      else if blank (pl_destination req) then Err MeshPlanDestination
      else if time_is_zero (pl_now req) then Err MeshPlanTime
      else bind_res (plan_loop ctx 1 req None (pl_candidates req))
        (\<lambda>best. case best of None \<Rightarrow> Err ErrNoRoute | Some (r, _) \<Rightarrow> Ok r))"

section \<open>Validation means a loop-free path\<close>

text \<open>The devices a route visits, in order.\<close>

definition route_path :: "route \<Rightarrow> device_id list" where
  "route_path r = rt_source r # map hop_to (rt_hops r)"

definition hops_from :: "device_id \<Rightarrow> route_hop list \<Rightarrow> bool" where
  "hops_from d hops \<longleftrightarrow> map hop_from hops = butlast (d # map hop_to hops)"

lemma hops_from_simps [simp]:
  "hops_from d []"
  "hops_from d (h # hs) \<longleftrightarrow> hop_from h = d \<and> hops_from (hop_to h) hs"
  by (auto simp: hops_from_def)

lemma route_hops_check_Ok:
  assumes "d \<in> visited"
  shows "route_hops_check i d visited hops = Ok e \<longleftrightarrow>
     hops_from d hops \<and> e = last (d # map hop_to hops) \<and>
     distinct (map hop_to hops) \<and> set (map hop_to hops) \<inter> visited = {} \<and>
     (\<forall>h \<in> set hops. \<not> blank (hop_from h) \<and> \<not> blank (hop_to h) \<and> \<not> blank (hop_transport h))"
  using assms by (induction i d visited hops arbitrary: e rule: route_hops_check.induct) auto

lemma Route_Validate_Ok:
  "Route_Validate r now = Ok () \<longleftrightarrow>
     \<not> blank (rt_id r) \<and> \<not> blank (rt_source r) \<and> \<not> blank (rt_destination r) \<and>
     rt_source r \<noteq> rt_destination r \<and> rt_hops r \<noteq> [] \<and> length (rt_hops r) \<le> MaxRouteHops \<and>
     \<not> time_is_zero (rt_expires r) \<and> time_before now (rt_expires r) \<and>
     distinct (route_path r) \<and> hops_from (rt_source r) (rt_hops r) \<and>
     last (route_path r) = rt_destination r \<and>
     (\<forall>h \<in> set (rt_hops r). \<not> blank (hop_from h) \<and> \<not> blank (hop_to h) \<and> \<not> blank (hop_transport h))"
proof -
  have "route_hops_check 0 (rt_source r) {rt_source r} (rt_hops r) = Ok (rt_destination r) \<longleftrightarrow>
      distinct (route_path r) \<and> hops_from (rt_source r) (rt_hops r) \<and>
      last (route_path r) = rt_destination r \<and>
      (\<forall>h \<in> set (rt_hops r). \<not> blank (hop_from h) \<and> \<not> blank (hop_to h) \<and> \<not> blank (hop_transport h))"
    by (subst route_hops_check_Ok) (auto simp: route_path_def)
  then show ?thesis
    by (auto simp: Route_Validate_def result_splits)
qed

lemma peer_transports_check_Ok:
  "peer_transports_check seen ts = Ok () \<longleftrightarrow>
     distinct ts \<and> set ts \<inter> seen = {} \<and> (\<forall>t \<in> set ts. \<not> blank t)"
  by (induction seen ts rule: peer_transports_check.induct) auto

lemma Peer_Validate_Ok:
  "Peer_Validate p = Ok () \<longleftrightarrow>
     \<not> blank (peer_id p) \<and> distinct (peer_transports p) \<and> (\<forall>t \<in> set (peer_transports p). \<not> blank t)"
  by (simp add: Peer_Validate_def peer_transports_check_Ok)

section \<open>The cost saturates\<close>

lemma unat_add_u64:
  "unat (a + b :: u64) =
     (if unat a + unat b < 18446744073709551616 then unat a + unat b
      else unat a + unat b - 18446744073709551616)"
proof -
  have "unat (a + b) = (unat a + unat b) mod 18446744073709551616"
    by (simp add: unat_word_ariths)
  then show ?thesis
    using unat_u64_less [of a] unat_u64_less [of b] by (simp add: mod_if)
qed

lemma cost_loop_saturates:
  "unat (cost_loop t hops) =
     min (unat t + sum_list (map (\<lambda>h. unat (hop_cost h)) hops)) (2 ^ 64 - 1)"
proof (induction t hops rule: cost_loop.induct)
  case (1 t)
  then show ?case using unat_u64_less [of t] by simp
next
  case (2 t hop hops)
  show ?case
  proof (cases "t + hop_cost hop < t")
    case True
    then have "2 ^ 64 \<le> unat t + unat (hop_cost hop)"
      by (simp add: word_less_nat_alt unat_add_u64 split: if_splits)
    moreover have "unat (- 1 :: u64) = 2 ^ 64 - 1" by (simp add: unsigned_minus_1_eq_mask mask_eq_exp_minus_1)
    ultimately show ?thesis using True by (simp add: Let_def)
  next
    case False
    then have "unat (t + hop_cost hop) = unat t + unat (hop_cost hop)"
      using unat_u64_less [of "hop_cost hop"]
      by (auto simp: word_less_nat_alt unat_add_u64 split: if_splits)
    with 2 False show ?thesis by (simp add: Let_def add.assoc)
  qed
qed


section \<open>The planner returns the best valid candidate\<close>

definition usable :: "plan_request \<Rightarrow> route \<Rightarrow> bool" where
  "usable req r \<longleftrightarrow>
     rt_source r = pl_source req \<and> rt_destination r = pl_destination req \<and>
     is_ok (Route_Validate r (pl_now req))"

definition route_less :: "route \<Rightarrow> route \<Rightarrow> bool" where
  "route_less a b \<longleftrightarrow>
     Route_Cost a < Route_Cost b \<or> Route_Cost a = Route_Cost b \<and> length (rt_hops a) < length (rt_hops b)"

lemma route_less_irrefl [simp]: "\<not> route_less a a"
  by (simp add: route_less_def)

lemma route_less_asym: "route_less a b \<Longrightarrow> \<not> route_less b a"
  by (auto simp: route_less_def)

lemma route_less_trans1: "route_less a b \<Longrightarrow> \<not> route_less c b \<Longrightarrow> route_less a c"
  by (auto simp: route_less_def)

definition plan_pick :: "route \<Rightarrow> (route \<times> u64) option \<Rightarrow> (route \<times> u64) option" where
  "plan_pick c best = (if plan_better c best then Some (c, Route_Cost c) else best)"

lemma plan_loop_fold:
  assumes "\<And>k. \<not> ctx k"
  shows "plan_loop ctx k req best cs = Ok (fold plan_pick (filter (usable req) cs) best)"
  using assms
  by (induction ctx k req best cs rule: plan_loop.induct) (auto simp: usable_def plan_pick_def)

text \<open>The first of the least elements of a list.\<close>

definition first_best :: "route list \<Rightarrow> route \<Rightarrow> bool" where
  "first_best rs r \<longleftrightarrow>
     (\<exists>i < length rs. r = rs ! i \<and> (\<forall>j < length rs. \<not> route_less (rs ! j) r) \<and>
        (\<forall>j < i. route_less r (rs ! j)))"

lemma first_best_snoc:
  assumes "first_best rs r"
  shows "first_best (rs @ [c]) (if route_less c r then c else r)"
proof -
  from assms obtain i where i: "i < length rs" "r = rs ! i" "\<forall>j < length rs. \<not> route_less (rs ! j) r"
    "\<forall>j < i. route_less r (rs ! j)" by (auto simp: first_best_def)
  show ?thesis
  proof (cases "route_less c r")
    case True
    have less: "route_less c (rs ! j)" if "j < length rs" for j
      using route_less_trans1 [OF True] i(3) that by blast
    then have "\<not> route_less (rs ! j) c" if "j < length rs" for j
      using that route_less_asym by blast
    with less True show ?thesis
      unfolding first_best_def
      by (intro exI [of _ "length rs"]) (simp add: nth_append less_Suc_eq)
  next
    case False
    with i show ?thesis
      unfolding first_best_def
      by (intro exI [of _ i]) (auto simp: nth_append less_Suc_eq)
  qed
qed

lemma fold_plan_pick:
  "(rs = [] \<and> fold plan_pick rs None = None) \<or>
   (\<exists>r. fold plan_pick rs None = Some (r, Route_Cost r) \<and> first_best rs r)"
proof (induction rs rule: rev_induct)
  case (snoc c rs)
  show ?case
  proof (cases "rs = []")
    case True
    then show ?thesis by (auto simp: plan_pick_def plan_better_def first_best_def)
  next
    case False
    with snoc.IH obtain r where r: "fold plan_pick rs None = Some (r, Route_Cost r)" "first_best rs r" by blast
    have "fold plan_pick (rs @ [c]) None =
        Some (if route_less c r then c else r, Route_Cost (if route_less c r then c else r))"
      using r(1) by (simp add: plan_pick_def plan_better_def route_less_def)
    with first_best_snoc [OF r(2), of c] show ?thesis by blast
  qed
qed simp

section \<open>Properties\<close>

text \<open>
  Claim C34.  A route is accepted exactly when it is identified, unexpired and a loop-free
  path: its one to eight hops follow one another from the source to a different destination,
  visit no device twice and name every device and transport.
\<close>

theorem route_validation_exact:
  "Route_Validate r now = Ok () \<longleftrightarrow>
     \<not> blank (rt_id r) \<and> \<not> blank (rt_source r) \<and> \<not> blank (rt_destination r) \<and>
     rt_source r \<noteq> rt_destination r \<and> length (rt_hops r) \<in> {1..8} \<and>
     \<not> time_is_zero (rt_expires r) \<and> time_before now (rt_expires r) \<and>
     distinct (route_path r) \<and> last (route_path r) = rt_destination r \<and>
     map hop_from (rt_hops r) = butlast (route_path r) \<and>
     list_all (\<lambda>h. \<not> blank (hop_from h) \<and> \<not> blank (hop_to h) \<and> \<not> blank (hop_transport h)) (rt_hops r)"
  by (cases "rt_hops r")
    (auto simp: Route_Validate_Ok MaxRouteHops_def hops_from_def route_path_def list_all_iff)

text \<open>
  Claim C35.  The cost of a route is the sum of its hop costs, capped at the largest 64-bit
  value: wrap-around never makes an expensive route cheap.
\<close>

theorem route_cost_saturates:
  "unat (Route_Cost r) = min (sum_list (map (\<lambda>h. unat (hop_cost h)) (rt_hops r))) (2 ^ 64 - 1)"
  unfolding Route_Cost_def cost_loop_saturates by simp

text \<open>
  Claim C24.  Without cancellation the planner returns the first of the best candidates: it
  is valid for the request, no valid candidate is cheaper or equally cheap with fewer hops,
  and every earlier valid candidate is strictly worse; it fails with \<open>ErrNoRoute\<close> exactly
  when no candidate is valid.
\<close>

theorem planner_optimal:
  assumes "\<forall>k. \<not> ctx k" and "\<not> blank (pl_source req)" and "\<not> blank (pl_destination req)"
    and "\<not> time_is_zero (pl_now req)"
  shows "case LowestCostPlanner_Plan ctx req of
      Err e \<Rightarrow> e = ErrNoRoute \<and> filter (usable req) (pl_candidates req) = []
    | Ok r \<Rightarrow> first_best (filter (usable req) (pl_candidates req)) r \<and>
        Route_Validate r (pl_now req) = Ok () \<and>
        rt_source r = pl_source req \<and> rt_destination r = pl_destination req"
proof -
  let ?rs = "filter (usable req) (pl_candidates req)"
  have plan: "LowestCostPlanner_Plan ctx req =
      (case fold plan_pick ?rs None of None \<Rightarrow> Err ErrNoRoute | Some (r, _) \<Rightarrow> Ok r)"
    using assms by (simp add: LowestCostPlanner_Plan_def plan_loop_fold)
  from fold_plan_pick [of ?rs] show ?thesis
  proof
    assume "?rs = [] \<and> fold plan_pick ?rs None = None"
    then show ?thesis unfolding plan by simp
  next
    assume "\<exists>r. fold plan_pick ?rs None = Some (r, Route_Cost r) \<and> first_best ?rs r"
    then obtain r where r: "fold plan_pick ?rs None = Some (r, Route_Cost r)" "first_best ?rs r" by blast
    then have "r \<in> set ?rs" by (metis first_best_def nth_mem)
    then have "usable req r" by simp
    with r show ?thesis unfolding plan by (simp add: usable_def)
  qed
qed

definition sample_route :: route where
  "sample_route = \<lparr>rt_id = ''r1'', rt_source = ''a'', rt_destination = ''c'',
     rt_hops = [\<lparr>hop_from = ''a'', hop_to = ''b'', hop_transport = ''lan'', hop_cost = 1\<rparr>,
                \<lparr>hop_from = ''b'', hop_to = ''c'', hop_transport = ''lan'', hop_cost = 2\<rparr>],
     rt_expires = \<lparr>t_ns = 2000, t_loc = 0\<rparr>\<rparr>"

definition sample_request :: plan_request where
  "sample_request = \<lparr>pl_source = ''a'', pl_destination = ''c'', pl_candidates = [sample_route],
     pl_now = \<lparr>t_ns = 1000, t_loc = 0\<rparr>\<rparr>"

lemma sample_route_usable: "usable sample_request sample_route"
  by (simp add: usable_def is_ok_iff sample_request_def sample_route_def Route_Validate_Ok route_path_def
      MaxRouteHops_def graph_char_def time_is_zero_def time_before_def)

theorem planner_optimal_witness:
  "LowestCostPlanner_Plan (\<lambda>_. False) sample_request = Ok sample_route \<and>
   (case LowestCostPlanner_Plan (\<lambda>_. False) sample_request of
      Err e \<Rightarrow> e = ErrNoRoute \<and> filter (usable sample_request) (pl_candidates sample_request) = []
    | Ok r \<Rightarrow> first_best (filter (usable sample_request) (pl_candidates sample_request)) r \<and>
        Route_Validate r (pl_now sample_request) = Ok () \<and>
        rt_source r = pl_source sample_request \<and> rt_destination r = pl_destination sample_request)"
proof -
  have "\<not> blank (pl_source sample_request)" "\<not> blank (pl_destination sample_request)"
    "\<not> time_is_zero (pl_now sample_request)"
    by (simp_all add: sample_request_def graph_char_def time_is_zero_def)
  from planner_optimal [OF _ this, of "\<lambda>_. False"] show ?thesis
    using sample_route_usable
    by (auto simp: sample_request_def first_best_def split: sum.splits)
qed

end
