(* ===== verification/Go_Bytes.thy ===== *)
theory Go_Bytes
  imports Go_Lib
begin

text \<open>
  Byte-level encodings and streams of the Go standard library: big-endian integers
  (\<open>encoding/binary\<close>), hexadecimal and raw URL base64 text, and the \<open>io.Reader\<close> and
  \<open>io.Writer\<close> contracts that every wire format of the program is written against.
\<close>

section \<open>Big-endian integers\<close>

definition put_uint32 :: "u32 \<Rightarrow> byte list" where
  "put_uint32 v = [ucast (drop_bit 24 v), ucast (drop_bit 16 v), ucast (drop_bit 8 v), ucast v]"

fun get_uint32 :: "byte list \<Rightarrow> u32" where
  "get_uint32 (a # b # c # d # _) =
     ucast d OR push_bit 8 (ucast c) OR push_bit 16 (ucast b) OR push_bit 24 (ucast a)"
| "get_uint32 _ = 0"

definition put_uint64 :: "u64 \<Rightarrow> byte list" where
  "put_uint64 v =
     [ucast (drop_bit 56 v), ucast (drop_bit 48 v), ucast (drop_bit 40 v), ucast (drop_bit 32 v),
      ucast (drop_bit 24 v), ucast (drop_bit 16 v), ucast (drop_bit 8 v), ucast v]"

lemma length_put_uint32 [simp]: "length (put_uint32 v) = 4"
  by (simp add: put_uint32_def)

lemma length_put_uint64 [simp]: "length (put_uint64 v) = 8"
  by (simp add: put_uint64_def)

lemma get_put_uint32 [simp]: "get_uint32 (put_uint32 v @ r) = v"
proof -
  have "bit (get_uint32 (put_uint32 v @ r)) n = bit v n" if "n < 32" for n
  proof -
    consider "n < 8" | "8 \<le> n" "n < 16" | "16 \<le> n" "n < 24" | "24 \<le> n"
      using that by linarith
    then show ?thesis
      using that by cases (auto simp: put_uint32_def bit_simps)
  qed
  then show ?thesis by (intro bit_word_eqI) simp
qed

lemma get_put_uint32_exact [simp]: "get_uint32 (put_uint32 v) = v"
  using get_put_uint32 [of v "[]"] by simp

lemma put_get_uint32: "put_uint32 (get_uint32 (a # b # c # d # r)) = [a, b, c, d]"
  by (auto simp: put_uint32_def intro!: bit_word_eqI simp: bit_simps bit_byte_ge)

lemma put_get_uint32_length: "length bs = 4 \<Longrightarrow> put_uint32 (get_uint32 bs) = bs"
  by (erule length_4_cases) (simp add: put_get_uint32 del: get_uint32.simps)

lemma put_uint32_inject [simp]: "put_uint32 v = put_uint32 w \<longleftrightarrow> v = w"
  by (metis get_put_uint32_exact)

lemma byte_slice_eq:
  assumes "(ucast (drop_bit k v) :: byte) = ucast (drop_bit k w)" and "n < 8" and "k + n < 64"
  shows "bit (v :: u64) (k + n) = bit w (k + n)"
proof -
  have "bit (ucast (drop_bit k v) :: byte) n = bit (ucast (drop_bit k w) :: byte) n"
    using assms(1) by (rule arg_cong)
  then show ?thesis by (simp add: bit_simps assms(2,3))
qed

lemma put_uint64_inject [simp]: "put_uint64 v = put_uint64 w \<longleftrightarrow> v = w"
proof
  assume h: "put_uint64 v = put_uint64 w"
  show "v = w"
  proof (rule bit_word_eqI)
    fix n assume "n < LENGTH(64)"
    then have n: "n < 64" by simp
    define k where "k = n div 8 * 8"
    have kn: "n = k + n mod 8" "n mod 8 < 8" by (auto simp: k_def)
    have "n div 8 \<in> {0, 1, 2, 3, 4, 5, 6, 7}" using n by auto
    then have "(ucast (drop_bit k v) :: byte) = ucast (drop_bit k w)"
      using h by (auto simp: k_def put_uint64_def)
    from byte_slice_eq [OF this kn(2)] n kn show "bit v n = bit w n" by simp
  qed
qed simp

section \<open>Hexadecimal\<close>

definition hex_digit :: "char \<Rightarrow> nat option" where
  "hex_digit c =
     (let n = (of_char c :: nat) in
      if 48 \<le> n \<and> n \<le> 57 then Some (n - 48)
      else if 97 \<le> n \<and> n \<le> 102 then Some (n - 87)
      else if 65 \<le> n \<and> n \<le> 70 then Some (n - 55)
      else None)"

fun hex_decode :: "string \<Rightarrow> byte list option" where
  "hex_decode [] = Some []"
| "hex_decode [c] = None"
| "hex_decode (c # d # s) =
     (case (hex_digit c, hex_digit d, hex_decode s) of
        (Some h, Some l, Some bs) \<Rightarrow> Some (of_nat (h * 16 + l) # bs)
      | _ \<Rightarrow> None)"

definition hex_char :: "nat \<Rightarrow> char" where
  "hex_char n = char_of (if n < 10 then n + 48 else n + 87)"

definition hex_encode :: "byte list \<Rightarrow> string" where
  "hex_encode bs = concat (map (\<lambda>b. [hex_char (unat b div 16), hex_char (unat b mod 16)]) bs)"

lemma hex_digit_char: "n < 16 \<Longrightarrow> hex_digit (hex_char n) = Some n"
  by (simp add: hex_digit_def hex_char_def)

lemma unat_byte_less: "unat (b :: byte) < 256"
  using unsigned_less [of b] by simp

lemma hex_decode_encode [simp]: "hex_decode (hex_encode bs) = Some bs"
proof (induction bs)
  case Nil
  then show ?case by (simp add: hex_encode_def)
next
  case (Cons b bs)
  have "unat b div 16 < 16" "unat b mod 16 < 16" using unat_byte_less [of b] by auto
  moreover have "unat b div 16 * 16 + unat b mod 16 = unat b" by simp
  ultimately show ?case
    using Cons.IH by (simp add: hex_encode_def hex_digit_char del: of_nat_add of_nat_mult)
qed

lemma hex_decode_length: "hex_decode s = Some bs \<Longrightarrow> length s = 2 * length bs"
  by (induction s arbitrary: bs rule: hex_decode.induct) (auto split: option.splits)

lemma length_hex_encode [simp]: "length (hex_encode bs) = 2 * length bs"
  by (induction bs) (simp_all add: hex_encode_def)

section \<open>Raw URL base64\<close>

text \<open>
  \<open>base64.RawURLEncoding\<close>: no padding, the URL alphabet.  The decoder skips carriage
  returns and line feeds and does not insist that unused trailing bits are zero.
\<close>

text \<open>The alphabet: upper-case letters, lower-case letters, digits, hyphen and underscore.\<close>

definition b64_char :: "nat \<Rightarrow> char" where
  "b64_char n =
     char_of (if n < 26 then n + 65 else if n < 52 then n + 71 else if n < 62 then n - 4
              else if n = 62 then 45 else 95)"

definition b64_val :: "char \<Rightarrow> nat option" where
  "b64_val c =
     (let n = (of_char c :: nat) in
      if 65 \<le> n \<and> n \<le> 90 then Some (n - 65)
      else if 97 \<le> n \<and> n \<le> 122 then Some (n - 71)
      else if 48 \<le> n \<and> n \<le> 57 then Some (n + 4)
      else if n = 45 then Some 62
      else if n = 95 then Some 63
      else None)"

fun b64_digits :: "nat list \<Rightarrow> nat list" where
  "b64_digits [] = []"
| "b64_digits [a] = [a div 4, a mod 4 * 16]"
| "b64_digits [a, b] = [a div 4, a mod 4 * 16 + b div 16, b mod 16 * 4]"
| "b64_digits (a # b # c # r) =
     [a div 4, a mod 4 * 16 + b div 16, b mod 16 * 4 + c div 64, c mod 64] @ b64_digits r"

fun b64_undigits :: "nat list \<Rightarrow> nat list option" where
  "b64_undigits [] = Some []"
| "b64_undigits [p] = None"
| "b64_undigits [p, q] = Some [p * 4 + q div 16]"
| "b64_undigits [p, q, r] = Some [p * 4 + q div 16, q mod 16 * 16 + r div 4]"
| "b64_undigits (p # q # r # s # t) =
     (case b64_undigits t of
        None \<Rightarrow> None
      | Some bs \<Rightarrow> Some ([p * 4 + q div 16, q mod 16 * 16 + r div 4, r mod 4 * 64 + s] @ bs))"

definition base64url_encode :: "byte list \<Rightarrow> string" where
  "base64url_encode bs = map b64_char (b64_digits (map unat bs))"

definition base64url_decode :: "string \<Rightarrow> byte list option" where
  "base64url_decode s =
     (case those (map b64_val (filter (\<lambda>c. c \<noteq> CHR 0x0D \<and> c \<noteq> CHR 0x0A) s)) of
        None \<Rightarrow> None
      | Some ds \<Rightarrow> map_option (map of_nat) (b64_undigits ds))"

lemma b64_val_char: "n < 64 \<Longrightarrow> b64_val (b64_char n) = Some n"
  by (auto simp: b64_val_def b64_char_def Let_def)

lemma b64_char_no_newline: "n < 64 \<Longrightarrow> b64_char n \<noteq> CHR 0x0D \<and> b64_char n \<noteq> CHR 0x0A"
proof -
  have "b64_val (CHR 0x0D) = None" "b64_val (CHR 0x0A) = None" by (simp_all add: b64_val_def)
  then show "n < 64 \<Longrightarrow> b64_char n \<noteq> CHR 0x0D \<and> b64_char n \<noteq> CHR 0x0A"
    using b64_val_char [of n] by auto
qed

lemma b64_digits_less: "list_all (\<lambda>b. b < 256) bs \<Longrightarrow> list_all (\<lambda>d. d < 64) (b64_digits bs)"
  by (induction bs rule: b64_digits.induct) auto

lemma b64_undigits_digits: "list_all (\<lambda>b. b < 256) bs \<Longrightarrow> b64_undigits (b64_digits bs) = Some bs"
  by (induction bs rule: b64_digits.induct) auto

lemma those_map_Some: "list_all (\<lambda>d. f (g d) = Some d) ds \<Longrightarrow> those (map f (map g ds)) = Some ds"
  by (induction ds) auto

lemma base64url_decode_encode [simp]: "base64url_decode (base64url_encode bs) = Some bs"
proof -
  let ?ds = "b64_digits (map unat bs)"
  have small: "list_all (\<lambda>b. b < 256) (map unat bs)"
    by (simp add: list_all_iff unat_byte_less)
  then have ds: "list_all (\<lambda>d. d < 64) ?ds" by (rule b64_digits_less)
  then have "filter (\<lambda>c. c \<noteq> CHR 0x0D \<and> c \<noteq> CHR 0x0A) (map b64_char ?ds) = map b64_char ?ds"
    by (intro filter_True) (auto simp: list_all_iff b64_char_no_newline)
  moreover have "those (map b64_val (map b64_char ?ds)) = Some ?ds"
    using ds by (intro those_map_Some) (auto simp: list_all_iff b64_val_char)
  ultimately show ?thesis
    using small
    by (simp add: base64url_decode_def base64url_encode_def b64_undigits_digits comp_def)
qed

text \<open>
  \<open>base64.RawURLEncoding.Strict()\<close> also insists that the unused bits of the last digit are zero,
  so a text without line breaks has one value and a value has one text.
\<close>

fun b64_clean :: "nat list \<Rightarrow> bool" where
  "b64_clean [] = True"
| "b64_clean [p] = False"
| "b64_clean [p, q] = (q mod 16 = 0)"
| "b64_clean [p, q, r] = (r mod 4 = 0)"
| "b64_clean (p # q # r # s # t) = b64_clean t"

definition base64url_strict_decode :: "string \<Rightarrow> byte list option" where
  "base64url_strict_decode s =
     (case those (map b64_val (filter (\<lambda>c. c \<noteq> CHR 0x0D \<and> c \<noteq> CHR 0x0A) s)) of
        None \<Rightarrow> None
      | Some ds \<Rightarrow> if b64_clean ds then map_option (map of_nat) (b64_undigits ds) else None)"

lemma b64_clean_digits: "b64_clean (b64_digits bs)"
  by (induction bs rule: b64_digits.induct) auto

lemma b64_digits_undigits:
  "b64_clean ds \<Longrightarrow> list_all (\<lambda>d. d < 64) ds \<Longrightarrow> b64_undigits ds = Some bs \<Longrightarrow>
   b64_digits bs = ds \<and> list_all (\<lambda>b. b < 256) bs"
proof (induction ds arbitrary: bs rule: b64_undigits.induct)
  case (3 p q)
  then have "q = q div 16 * 16" "q div 16 < 4" by auto
  moreover have "(p * 4 + q div 16) mod 4 = q div 16" "(p * 4 + q div 16) div 4 = p"
    using calculation(2) by simp_all
  moreover have "p * 4 + q div 16 < 256" using calculation(2) "3.prems"(2) by simp
  ultimately show ?case using "3.prems" by auto
next
  case (4 p q r)
  then have r: "r = r div 4 * 4" "r div 4 < 16" "q div 16 < 4" "q mod 16 < 16" by auto
  moreover have "(p * 4 + q div 16) mod 4 = q div 16" "(p * 4 + q div 16) div 4 = p"
    using r(3) by simp_all
  moreover have "(q mod 16 * 16 + r div 4) div 16 = q mod 16" "(q mod 16 * 16 + r div 4) mod 16 = r div 4"
    using r(2) by simp_all
  moreover have "q div 16 * 16 + q mod 16 = q" by simp
  moreover have "p * 4 + q div 16 < 256" "q mod 16 * 16 + r div 4 < 256"
    using r(2,3,4) "4.prems"(2) by simp_all
  ultimately show ?case using "4.prems" by auto
next
  case (5 p q r s t)
  then obtain cs where cs: "b64_undigits t = Some cs"
    and bs: "bs = [p * 4 + q div 16, q mod 16 * 16 + r div 4, r mod 4 * 64 + s] @ cs"
    by (auto split: option.splits)
  have IH: "b64_digits cs = t \<and> list_all (\<lambda>b. b < 256) cs" using "5.IH" [OF _ _ cs] "5.prems" by simp
  have small: "p < 64" "q < 64" "r < 64" "s < 64" using "5.prems"(2) by simp_all
  have "q div 16 < 4" "r div 4 < 16" "q mod 16 < 16" "r mod 4 < 4" using small by auto
  moreover have "(p * 4 + q div 16) mod 4 = q div 16" "(p * 4 + q div 16) div 4 = p"
    using calculation(1) by simp_all
  moreover have "(q mod 16 * 16 + r div 4) div 16 = q mod 16" "(q mod 16 * 16 + r div 4) mod 16 = r div 4"
    using calculation(2) by simp_all
  moreover have "(r mod 4 * 64 + s) div 64 = r mod 4" "(r mod 4 * 64 + s) mod 64 = s"
    using small(4) by simp_all
  moreover have "p * 4 + q div 16 < 256" "q mod 16 * 16 + r div 4 < 256" "r mod 4 * 64 + s < 256"
    using calculation(1-4) small by simp_all
  ultimately show ?case using IH bs by simp
qed auto

lemma char_of_iff: "n < 256 \<Longrightarrow> char_of n = c \<longleftrightarrow> (of_char c :: nat) = n"
  by (auto simp: of_char_of)

lemma b64_char_val: "b64_val c = Some d \<Longrightarrow> b64_char d = c \<and> d < 64"
  unfolding b64_val_def Let_def by (auto simp: b64_char_def char_of_iff split: if_splits)

lemma those_map_inv: "those (map f s) = Some ds \<Longrightarrow> (\<And>c d. f c = Some d \<Longrightarrow> g d = c \<and> P d) \<Longrightarrow>
   map g ds = s \<and> list_all P ds"
  by (induction s arbitrary: ds) (auto split: option.splits)

lemma base64url_encode_digits:
  "those (map b64_val (filter (\<lambda>c. c \<noteq> CHR 0x0D \<and> c \<noteq> CHR 0x0A) (base64url_encode bs)))
     = Some (b64_digits (map unat bs))"
proof -
  let ?ds = "b64_digits (map unat bs)"
  have ds: "list_all (\<lambda>d. d < 64) ?ds"
    by (rule b64_digits_less) (simp add: list_all_iff unat_byte_less)
  then have "filter (\<lambda>c. c \<noteq> CHR 0x0D \<and> c \<noteq> CHR 0x0A) (map b64_char ?ds) = map b64_char ?ds"
    by (intro filter_True) (auto simp: list_all_iff b64_char_no_newline)
  moreover have "those (map b64_val (map b64_char ?ds)) = Some ?ds"
    using ds by (intro those_map_Some) (auto simp: list_all_iff b64_val_char)
  ultimately show ?thesis by (simp add: base64url_encode_def)
qed

lemma base64url_strict_decode_encode [simp]: "base64url_strict_decode (base64url_encode bs) = Some bs"
  using base64url_decode_encode [of bs]
  by (simp add: base64url_strict_decode_def base64url_decode_def base64url_encode_digits b64_clean_digits)

lemma base64url_encode_strict_decode:
  assumes "base64url_strict_decode s = Some bs" and "\<not> contains_any s [CHR 0x0D, CHR 0x0A]"
  shows "base64url_encode bs = s"
proof -
  have "filter (\<lambda>c. c \<noteq> CHR 0x0D \<and> c \<noteq> CHR 0x0A) s = s"
    using assms(2) by (intro filter_True) (auto simp: contains_any_def list_ex_iff)
  then obtain ds ns where ds: "those (map b64_val s) = Some ds" "b64_clean ds"
    and ns: "b64_undigits ds = Some ns" "bs = map of_nat ns"
    using assms(1) by (auto simp: base64url_strict_decode_def split: option.splits if_splits)
  have s: "map b64_char ds = s" "list_all (\<lambda>d. d < 64) ds"
    using those_map_inv [OF ds(1) b64_char_val] by auto
  have n: "b64_digits ns = ds" "list_all (\<lambda>b. b < 256) ns"
    using b64_digits_undigits [OF ds(2) s(2) ns(1)] by auto
  have "map unat bs = ns"
    using n(2) by (simp add: ns(2) comp_def list_all_iff unat_of_nat map_idI)
  then show ?thesis by (simp add: base64url_encode_def n(1) s(1))
qed

end
