(* ===== verification/Go_IO.thy ===== *)
theory Go_IO
  imports Go_Bytes
begin

text \<open>
  Readers and writers.  A reader is the byte sequence still to arrive together with the
  error the stream ends with; a writer is an arbitrary state \<open>'w\<close> with a write operation.
  The locale \<open>io_writer\<close> is the contract of \<open>io.Writer\<close>, and \<open>framed_codec\<close> the contract
  shared by every framed wire format of the program: its lemmas (prefix-freeness, unique
  reading of a sequence of frames) are proved once and used through interpretations.
\<close>

section \<open>Readers\<close>

datatype io_error = IoEOF | IoUnexpectedEOF | IoShortWrite | IoOther nat | IoSliceBounds

record reader =
  rd_data :: "byte list"
  rd_end :: io_error

text \<open>\<open>io.ReadFull\<close> into a buffer of \<open>n\<close> bytes.\<close>

definition read_full :: "nat \<Rightarrow> reader \<Rightarrow> (io_error, byte list \<times> reader) result" where
  "read_full n r =
     (if n \<le> length (rd_data r) then Ok (take n (rd_data r), r\<lparr>rd_data := drop n (rd_data r)\<rparr>)
      else if rd_data r \<noteq> [] \<and> rd_end r = IoEOF then Err IoUnexpectedEOF
      else Err (rd_end r))"

lemma read_full_Ok_iff:
  "read_full n r = Ok (bs, r') \<longleftrightarrow>
     length bs = n \<and> rd_data r = bs @ rd_data r' \<and> rd_end r' = rd_end r"
proof
  assume "read_full n r = Ok (bs, r')"
  then show "length bs = n \<and> rd_data r = bs @ rd_data r' \<and> rd_end r' = rd_end r"
    by (auto simp: read_full_def split: if_splits)
next
  assume "length bs = n \<and> rd_data r = bs @ rd_data r' \<and> rd_end r' = rd_end r"
  then show "read_full n r = Ok (bs, r')"
    by (cases r; cases r') (auto simp: read_full_def)
qed

lemma read_full_append [simp]:
  "rd_data r = bs @ rest \<Longrightarrow> length bs = n \<Longrightarrow> read_full n r = Ok (bs, r\<lparr>rd_data := rest\<rparr>)"
  by (simp add: read_full_Ok_iff)

lemma read_full_short: "length (rd_data r) < n \<Longrightarrow> \<exists>e. read_full n r = Err e"
  by (simp add: read_full_def)

section \<open>Writers\<close>

type_synonym 'w writer = "'w \<Rightarrow> byte list \<Rightarrow> (nat \<times> io_error option) \<times> 'w"

text \<open>
  The contract of \<open>io.Writer\<close>: a call reports how many bytes of its argument it wrote,
  and those are the bytes that went out.
\<close>

locale io_writer =
  fixes wr :: "'w writer" and out :: "'w \<Rightarrow> byte list"
  assumes wr_bound: "wr s b = ((n, e), s') \<Longrightarrow> n \<le> length b"
    and wr_out: "wr s b = ((n, e), s') \<Longrightarrow> out s' = out s @ take n b"

text \<open>
  \<open>bytes.Buffer\<close>, whose writes never fail, and a connection whose write calls accept
  limited amounts and fail as a script prescribes (once the script is used up every write
  is accepted in full).
\<close>

definition buffer_write :: "byte list writer" where
  "buffer_write s b = ((length b, None), s @ b)"

record script_conn =
  sc_out :: "byte list"
  sc_script :: "(nat \<times> io_error option) list"

definition script_write :: "script_conn writer" where
  "script_write s b =
     (case sc_script s of
        [] \<Rightarrow> ((length b, None), s\<lparr>sc_out := sc_out s @ b\<rparr>)
      | (n, e) # rest \<Rightarrow>
          ((min n (length b), e), s\<lparr>sc_out := sc_out s @ take (min n (length b)) b, sc_script := rest\<rparr>))"

interpretation buffer: io_writer buffer_write "\<lambda>s. s"
  by unfold_locales (auto simp: buffer_write_def)

interpretation script: io_writer script_write sc_out
  by unfold_locales (auto simp: script_write_def split: list.splits)

section \<open>Framed formats\<close>

text \<open>
  A framed format: an encoder and a reader of one frame.  Reading inverts encoding
  whatever follows the frame, and a successful read consumes exactly the encoding of
  the frame it returns.
\<close>

locale framed_codec =
  fixes enc :: "'a \<Rightarrow> byte list"
    and dec :: "reader \<Rightarrow> ('e, 'a \<times> reader) result"
    and frame_ok :: "'a \<Rightarrow> bool"
  assumes dec_enc: "frame_ok x \<Longrightarrow> rd_data r = enc x @ rest \<Longrightarrow> dec r = Ok (x, r\<lparr>rd_data := rest\<rparr>)"
    and enc_dec: "dec r = Ok (x, r') \<Longrightarrow>
      frame_ok x \<and> rd_data r = enc x @ rd_data r' \<and> rd_end r' = rd_end r"
    and enc_nonempty: "frame_ok x \<Longrightarrow> enc x \<noteq> []"

primrec read_frames ::
  "(reader \<Rightarrow> ('e, 'a \<times> reader) result) \<Rightarrow> nat \<Rightarrow> reader \<Rightarrow> ('e, 'a list \<times> reader) result" where
  "read_frames dec 0 r = Ok ([], r)"
| "read_frames dec (Suc n) r =
     bind_res (dec r) (\<lambda>(x, r'). bind_res (read_frames dec n r') (\<lambda>(xs, r''). Ok (x # xs, r'')))"

context framed_codec
begin

lemma prefix_free:
  assumes "frame_ok x" and "frame_ok y" and "enc x @ a = enc y @ b"
  shows "x = y \<and> a = b"
proof -
  let ?r = "\<lparr>rd_data = enc x @ a, rd_end = IoEOF\<rparr>"
  have "dec ?r = Ok (x, ?r\<lparr>rd_data := a\<rparr>)" using assms(1) by (rule dec_enc) simp
  moreover have "dec ?r = Ok (y, ?r\<lparr>rd_data := b\<rparr>)" using assms(2) by (rule dec_enc) (simp add: assms(3))
  ultimately show ?thesis by simp
qed

lemma enc_inject: "frame_ok x \<Longrightarrow> frame_ok y \<Longrightarrow> enc x = enc y \<longleftrightarrow> x = y"
  using prefix_free [of x y "[]" "[]"] by auto

lemma read_frames_concat:
  "list_all frame_ok xs \<Longrightarrow> rd_data r = concat (map enc xs) @ rest \<Longrightarrow>
     read_frames dec (length xs) r = Ok (xs, r\<lparr>rd_data := rest\<rparr>)"
proof (induction xs arbitrary: r)
  case Nil
  then show ?case by simp
next
  case (Cons x xs)
  then have "dec r = Ok (x, r\<lparr>rd_data := concat (map enc xs) @ rest\<rparr>)"
    by (intro dec_enc) auto
  moreover have "read_frames dec (length xs) (r\<lparr>rd_data := concat (map enc xs) @ rest\<rparr>)
      = Ok (xs, r\<lparr>rd_data := rest\<rparr>)"
    using Cons.IH [of "r\<lparr>rd_data := concat (map enc xs) @ rest\<rparr>"] Cons.prems(1) by simp
  ultimately show ?case by simp
qed

lemma stream_inject:
  assumes "list_all frame_ok xs" and "list_all frame_ok ys"
    and "concat (map enc xs) = concat (map enc ys)"
  shows "xs = ys"
  using assms
proof (induction xs arbitrary: ys)
  case Nil
  then show ?case by (cases ys) (auto simp: enc_nonempty)
next
  case (Cons x xs)
  then obtain y ys' where ys: "ys = y # ys'"
    by (cases ys) (auto simp: enc_nonempty)
  with Cons.prems have "x = y \<and> concat (map enc xs) = concat (map enc ys')"
    by (intro prefix_free) auto
  with Cons.IH [of ys'] Cons.prems ys show ?case by auto
qed

lemma dec_progress: "dec r = Ok (x, r') \<Longrightarrow> length (rd_data r') < length (rd_data r)"
  using enc_dec [of r x r'] enc_nonempty [of x] by auto

end

end
