(* ===== verification/Frame.thy ===== *)
theory Frame
  imports Go_IO
begin

text \<open>
  The application wire frame (\<open>internal/protocol/frame.go\<close>): a 12-byte header with magic,
  version, type, stream identifier and payload length, followed by the payload, capped at
  one mebibyte.  The codec is shown to be an exact inverse pair and to satisfy the
  \<open>framed_codec\<close> contract; the session's frame-reading loop is shown to terminate and to
  return exactly the frames that were written.
\<close>

section \<open>Constants and types\<close>

definition Version :: byte where
  "Version = 1"

definition HeaderSize :: nat where
  "HeaderSize = 12"

definition MaxPayloadSize :: nat where
  "MaxPayloadSize = 1048576"

definition magic :: "byte list" where
  "magic = [87, 68]"

type_synonym ftype = byte

definition TypePairRequest :: ftype where "TypePairRequest = 1"
definition TypePairResponse :: ftype where "TypePairResponse = 2"
definition TypeOpenSession :: ftype where "TypeOpenSession = 3"
definition TypeSessionAccepted :: ftype where "TypeSessionAccepted = 4"
definition TypeData :: ftype where "TypeData = 5"
definition TypeResize :: ftype where "TypeResize = 6"
definition TypeClose :: ftype where "TypeClose = 7"
definition TypeError :: ftype where "TypeError = 8"
definition TypePing :: ftype where "TypePing = 9"
definition TypePong :: ftype where "TypePong = 10"
definition TypeOpenAuthorizedSession :: ftype where "TypeOpenAuthorizedSession = 11"
definition TypeStreamOpen :: ftype where "TypeStreamOpen = 12"
definition TypeStreamAccepted :: ftype where "TypeStreamAccepted = 13"
definition TypeStreamData :: ftype where "TypeStreamData = 14"
definition TypeStreamWindowUpdate :: ftype where "TypeStreamWindowUpdate = 15"
definition TypeStreamResize :: ftype where "TypeStreamResize = 16"
definition TypeStreamClose :: ftype where "TypeStreamClose = 17"
definition TypeStreamError :: ftype where "TypeStreamError = 18"

lemmas frame_type_defs =
  TypePairRequest_def TypePairResponse_def TypeOpenSession_def TypeSessionAccepted_def
  TypeData_def TypeResize_def TypeClose_def TypeError_def TypePing_def TypePong_def
  TypeOpenAuthorizedSession_def TypeStreamOpen_def TypeStreamAccepted_def TypeStreamData_def
  TypeStreamWindowUpdate_def TypeStreamResize_def TypeStreamClose_def TypeStreamError_def

record frame =
  f_type :: ftype
  f_stream :: u32
  f_payload :: "byte list"

datatype frame_error =
    FrameIO io_error
  | PayloadTooLarge nat
  | InvalidMagic
  | UnsupportedVersion byte
  | PayloadExceedsLimit u32

section \<open>Writing\<close>

text \<open>
  \<open>writeAll\<close> loops until every byte is accepted.  A write that claims more bytes than it
  was given would make the slice expression \<open>b[n:]\<close> panic.
\<close>

function writeAll :: "'w writer \<Rightarrow> 'w \<Rightarrow> byte list \<Rightarrow> io_error option \<times> 'w" where
  "writeAll wr s b =
     (if b = [] then (None, s)
      else (case wr s b of
          ((n, Some e), s') \<Rightarrow> (Some e, s')
        | ((n, None), s') \<Rightarrow>
            if n = 0 then (Some IoShortWrite, s')
            else if length b < n then (Some IoSliceBounds, s')
            else writeAll wr s' (drop n b)))"
  by pat_completeness auto
termination
  by (relation "measure (\<lambda>(wr, s, b). length b)") auto

declare writeAll.simps [simp del]

definition frame_header :: "frame \<Rightarrow> byte list" where
  "frame_header f =
     magic @ [Version, f_type f] @ put_uint32 (f_stream f)
       @ put_uint32 (of_nat (length (f_payload f)))"

definition WriteFrame :: "'w writer \<Rightarrow> 'w \<Rightarrow> frame \<Rightarrow> frame_error option \<times> 'w" where
  "WriteFrame wr s f =
     (if MaxPayloadSize < length (f_payload f)
      then (Some (PayloadTooLarge (length (f_payload f))), s)
      else (case writeAll wr s (frame_header f) of
          (Some e, s') \<Rightarrow> (Some (FrameIO e), s')
        | (None, s') \<Rightarrow>
            (case writeAll wr s' (f_payload f) of
               (Some e, s'') \<Rightarrow> (Some (FrameIO e), s'')
             | (None, s'') \<Rightarrow> (None, s''))))"

section \<open>Reading\<close>

definition ReadFrame :: "reader \<Rightarrow> (frame_error, frame \<times> reader) result" where
  "ReadFrame r =
     (case read_full HeaderSize r of
        Err e \<Rightarrow> Err (FrameIO e)
      | Ok (header, r1) \<Rightarrow>
          if header ! 0 \<noteq> magic ! 0 \<or> header ! 1 \<noteq> magic ! 1 then Err InvalidMagic
          else if header ! 2 \<noteq> Version then Err (UnsupportedVersion (header ! 2))
          else
            let len = get_uint32 (drop 8 header) in
            if MaxPayloadSize < unat len then Err (PayloadExceedsLimit len)
            else
              (case read_full (unat len) r1 of
                 Err e \<Rightarrow> Err (FrameIO e)
               | Ok (payload, r2) \<Rightarrow>
                   Ok (\<lparr>f_type = header ! 3, f_stream = get_uint32 (take 4 (drop 4 header)),
                        f_payload = payload\<rparr>, r2)))"

text \<open>
  The reading goroutine of a session (\<open>typed_stream_session.go\<close>): it delivers frames until
  the first error, which ends it.
\<close>

function read_loop :: "reader \<Rightarrow> frame list \<times> frame_error" where
  "read_loop r =
     (case ReadFrame r of
        Err e \<Rightarrow> ([], e)
      | Ok (f, r') \<Rightarrow> (case read_loop r' of (fs, e) \<Rightarrow> (f # fs, e)))"
  by pat_completeness auto
termination
proof (relation "measure (\<lambda>r. length (rd_data r))", simp)
  fix r r' f and p :: "frame \<times> reader"
  assume "ReadFrame r = Ok p" and "(f, r') = p"
  then show "(r', r) \<in> measure (\<lambda>r. length (rd_data r))"
    by (auto simp: ReadFrame_def HeaderSize_def read_full_Ok_iff Let_def
        split: sum.splits if_splits)
qed

declare read_loop.simps [simp del]

section \<open>The writer side\<close>

context io_writer
begin

lemma writeAll_out: "writeAll wr s b = (None, s') \<Longrightarrow> out s' = out s @ b"
proof (induction b arbitrary: s rule: length_induct)
  case (1 b)
  show ?case
  proof (cases "b = []")
    case True
    with "1.prems" show ?thesis by (simp add: writeAll.simps)
  next
    case False
    obtain n e s1 where w: "wr s b = ((n, e), s1)" by (metis prod.exhaust)
    with "1.prems" False have n: "e = None" "n \<noteq> 0" "n \<le> length b"
      and rec: "writeAll wr s1 (drop n b) = (None, s')"
      by (auto simp: writeAll.simps [of wr s b] split: option.splits if_splits)
    from n False have "length (drop n b) < length b" by simp
    with "1.IH" rec have "out s' = out s1 @ drop n b" by blast
    also have "out s1 = out s @ take n b" using w by (rule wr_out)
    finally show ?thesis by simp
  qed
qed

lemma writeAll_prefix: "writeAll wr s b = (e, s') \<Longrightarrow> \<exists>k \<le> length b. out s' = out s @ take k b"
proof (induction b arbitrary: s rule: length_induct)
  case (1 b)
  show ?case
  proof (cases "b = []")
    case True
    with "1.prems" show ?thesis by (auto simp: writeAll.simps)
  next
    case False
    obtain n e1 s1 where w: "wr s b = ((n, e1), s1)" by (metis prod.exhaust)
    have o1: "out s1 = out s @ take n b" "n \<le> length b"
      using wr_out [OF w] wr_bound [OF w] by auto
    show ?thesis
    proof (cases "e1 = None \<and> n \<noteq> 0")
      case True
      with w False o1 "1.prems" have rec: "writeAll wr s1 (drop n b) = (e, s')"
        by (auto simp: writeAll.simps [of wr s b])
      moreover have "length (drop n b) < length b" using True False by simp
      ultimately obtain k where "k \<le> length (drop n b)" "out s' = out s1 @ take k (drop n b)"
        using "1.IH" by blast
      with o1 have "n + k \<le> length b" "out s' = out s @ take (n + k) b"
        by (auto simp: take_add)
      then show ?thesis by blast
    next
      case stop: False
      with w False "1.prems" have "s' = s1"
        by (auto simp: writeAll.simps [of wr s b] split: option.splits if_splits)
      with o1 show ?thesis by blast
    qed
  qed
qed

lemma WriteFrame_out:
  assumes "WriteFrame wr s f = (None, s')"
  shows "out s' = out s @ frame_header f @ f_payload f \<and> length (f_payload f) \<le> MaxPayloadSize"
  using assms
  by (auto simp: WriteFrame_def dest!: writeAll_out split: if_splits prod.splits option.splits)

lemma WriteFrame_prefix:
  assumes "WriteFrame wr s f = (e, s')"
  shows "\<exists>k. out s' = out s @ take k (frame_header f @ f_payload f)"
proof -
  have all: "frame_header f @ f_payload f = take (length (frame_header f @ f_payload f)) (frame_header f @ f_payload f)"
    by simp
  obtain e1 s1 where w1: "writeAll wr s (frame_header f) = (e1, s1)" by (metis prod.exhaust)
  obtain e2 s2 where w2: "writeAll wr s1 (f_payload f) = (e2, s2)" by (metis prod.exhaust)
  consider (large) "s' = s" | (header) "s' = s1" | (payload) "e1 = None" "s' = s2"
    using assms w1 w2 by (auto simp: WriteFrame_def split: if_splits option.splits)
  then show ?thesis
  proof cases
    case large
    then show ?thesis by (intro exI [of _ 0]) simp
  next
    case header
    from writeAll_prefix [OF w1] obtain k where "k \<le> length (frame_header f)"
      "out s1 = out s @ take k (frame_header f)" by blast
    with header show ?thesis by (intro exI [of _ k]) simp
  next
    case payload
    from writeAll_prefix [OF w2] obtain k where "out s2 = out s1 @ take k (f_payload f)" by blast
    with payload w1 writeAll_out [of s "frame_header f" s1] show ?thesis
      by (intro exI [of _ "length (frame_header f) + k"]) simp
  qed
qed

end

section \<open>The codec\<close>

definition encode_frame :: "frame \<Rightarrow> byte list" where
  "encode_frame f = frame_header f @ f_payload f"

definition valid_frame :: "frame \<Rightarrow> bool" where
  "valid_frame f \<longleftrightarrow> length (f_payload f) \<le> MaxPayloadSize"

lemma length_frame_header [simp]: "length (frame_header f) = HeaderSize"
  by (simp add: frame_header_def magic_def HeaderSize_def)

lemma ReadFrame_encode:
  assumes "valid_frame f" and "rd_data r = encode_frame f @ rest"
  shows "ReadFrame r = Ok (f, r\<lparr>rd_data := rest\<rparr>)"
proof -
  let ?h = "frame_header f"
  have len: "length (f_payload f) < 4294967296"
    using assms(1) by (simp add: valid_frame_def MaxPayloadSize_def)
  have rh: "read_full HeaderSize r = Ok (?h, r\<lparr>rd_data := f_payload f @ rest\<rparr>)"
    using assms(2) by (simp add: encode_frame_def)
  have parts: "?h ! 0 = magic ! 0" "?h ! 1 = magic ! 1" "?h ! 2 = Version" "?h ! 3 = f_type f"
    "get_uint32 (drop 8 ?h) = of_nat (length (f_payload f))"
    "get_uint32 (take 4 (drop 4 ?h)) = f_stream f"
    by (simp_all add: frame_header_def magic_def)
  show ?thesis
    using assms(1) len by (simp add: ReadFrame_def rh parts valid_frame_def del: One_nat_def)
qed

lemma ReadFrame_sound:
  assumes "ReadFrame r = Ok (f, r')"
  shows "valid_frame f \<and> rd_data r = encode_frame f @ rd_data r' \<and> rd_end r' = rd_end r"
proof -
  from assms obtain h r1 where h: "read_full HeaderSize r = Ok (h, r1)"
    by (auto simp: ReadFrame_def split: sum.splits)
  define len where "len = get_uint32 (drop 8 h)"
  from assms h obtain p where p: "read_full (unat len) r1 = Ok (p, r')"
    and m: "h ! 0 = magic ! 0" "h ! 1 = magic ! 1" "h ! 2 = Version" "unat len \<le> MaxPayloadSize"
    and f: "f = \<lparr>f_type = h ! 3, f_stream = get_uint32 (take 4 (drop 4 h)), f_payload = p\<rparr>"
    by (auto simp: ReadFrame_def Let_def len_def split: sum.splits if_splits)
  from h p have lh: "length h = 12" and lp: "length p = unat len"
    and d: "rd_data r = h @ p @ rd_data r'" "rd_end r' = rd_end r"
    by (auto simp: read_full_Ok_iff HeaderSize_def)
  have "frame_header f = h"
    using lh
  proof (rule length_12_cases)
    fix a0 a1 a2 a3 a4 a5 a6 a7 a8 a9 a10 a11
    assume hh: "h = [a0, a1, a2, a3, a4, a5, a6, a7, a8, a9, a10, a11]"
    have "put_uint32 (of_nat (length (f_payload f))) = [a8, a9, a10, a11]"
      using f lp hh by (simp add: len_def put_get_uint32 del: get_uint32.simps)
    then show ?thesis
      using m(1-3) f hh
      by (simp add: frame_header_def magic_def put_get_uint32 del: get_uint32.simps)
  qed
  with d f lp m(4) show ?thesis by (simp add: encode_frame_def valid_frame_def)
qed

interpretation frames: framed_codec encode_frame ReadFrame valid_frame
proof unfold_locales
  show "valid_frame x \<Longrightarrow> rd_data r = encode_frame x @ rest \<Longrightarrow>
      ReadFrame r = Ok (x, r\<lparr>rd_data := rest\<rparr>)" for x r rest
    by (rule ReadFrame_encode)
  show "ReadFrame r = Ok (x, r') \<Longrightarrow>
      valid_frame x \<and> rd_data r = encode_frame x @ rd_data r' \<and> rd_end r' = rd_end r" for r x r'
    by (rule ReadFrame_sound)
  show "valid_frame x \<Longrightarrow> encode_frame x \<noteq> []" for x
    by (simp add: encode_frame_def frame_header_def magic_def)
qed

lemma ReadFrame_short:
  assumes "length (rd_data r) < HeaderSize"
  shows "ReadFrame r = Err (FrameIO (if rd_data r \<noteq> [] \<and> rd_end r = IoEOF then IoUnexpectedEOF else rd_end r))"
  using assms by (simp add: ReadFrame_def read_full_def)

lemma read_loop_concat:
  assumes "list_all valid_frame fs" and "rd_data r = concat (map encode_frame fs)"
  shows "read_loop r = (fs, FrameIO (rd_end r))"
  using assms
proof (induction fs arbitrary: r)
  case Nil
  then have "ReadFrame r = Err (FrameIO (rd_end r))"
    by (subst ReadFrame_short) (simp_all add: HeaderSize_def)
  then show ?case by (simp add: read_loop.simps)
next
  case (Cons f fs)
  then have "ReadFrame r = Ok (f, r\<lparr>rd_data := concat (map encode_frame fs)\<rparr>)"
    by (intro ReadFrame_encode) auto
  moreover have "read_loop (r\<lparr>rd_data := concat (map encode_frame fs)\<rparr>) = (fs, FrameIO (rd_end r))"
    using Cons.IH [of "r\<lparr>rd_data := concat (map encode_frame fs)\<rparr>"] Cons.prems(1) by simp
  ultimately show ?case by (simp add: read_loop.simps [of r])
qed


section \<open>Sequences of frames\<close>

text \<open>Writing frames one after the other, stopping at the first failure.\<close>

primrec write_frames :: "'w writer \<Rightarrow> 'w \<Rightarrow> frame list \<Rightarrow> frame_error option \<times> 'w" where
  "write_frames wr s [] = (None, s)"
| "write_frames wr s (f # fs) =
     (case WriteFrame wr s f of
        (Some e, s') \<Rightarrow> (Some e, s')
      | (None, s') \<Rightarrow> write_frames wr s' fs)"

context io_writer
begin

lemma write_frames_out:
  "write_frames wr s fs = (None, s') \<Longrightarrow>
     list_all valid_frame fs \<and> out s' = out s @ concat (map encode_frame fs)"
proof (induction fs arbitrary: s)
  case Nil
  then show ?case by simp
next
  case (Cons f fs)
  then obtain s1 where w: "WriteFrame wr s f = (None, s1)" "write_frames wr s1 fs = (None, s')"
    by (auto split: prod.splits option.splits)
  from WriteFrame_out [OF w(1)] Cons.IH [OF w(2)] show ?case
    by (simp add: encode_frame_def valid_frame_def)
qed

end

text \<open>
  Claim C29.  Reading a frame succeeds exactly when the stream starts with the encoding of
  a frame whose payload is at most one mebibyte; the frame returned is that one and the
  rest of the stream is left untouched.  So no two byte sequences decode to the same
  frame, and no oversized, wrongly versioned or wrongly tagged frame is ever accepted.
\<close>

theorem ReadFrame_exact:
  "ReadFrame r = Ok (f, r') \<longleftrightarrow>
     length (f_payload f) \<le> MaxPayloadSize \<and> rd_data r = encode_frame f @ rd_data r' \<and>
     rd_end r' = rd_end r"
proof
  assume "ReadFrame r = Ok (f, r')"
  from frames.enc_dec [OF this]
  show "length (f_payload f) \<le> MaxPayloadSize \<and> rd_data r = encode_frame f @ rd_data r' \<and>
      rd_end r' = rd_end r"
    by (simp add: valid_frame_def)
next
  assume h: "length (f_payload f) \<le> MaxPayloadSize \<and> rd_data r = encode_frame f @ rd_data r' \<and>
      rd_end r' = rd_end r"
  then have "ReadFrame r = Ok (f, r\<lparr>rd_data := rd_data r'\<rparr>)"
    by (intro frames.dec_enc) (simp_all add: valid_frame_def)
  with h show "ReadFrame r = Ok (f, r')" by (cases r; cases r') simp
qed

text \<open>
  Claim C31.  Frames written to a connection, whatever short writes the connection makes,
  are read back by the session's reading loop in order, and the loop ends with the end of
  the stream.
\<close>

theorem frames_written_are_read:
  assumes "write_frames script_write \<lparr>sc_out = [], sc_script = sc\<rparr> fs = (None, s')"
  shows "read_loop \<lparr>rd_data = sc_out s', rd_end = IoEOF\<rparr> = (fs, FrameIO IoEOF)"
proof -
  from script.write_frames_out [OF assms]
  have "list_all valid_frame fs" and "sc_out s' = concat (map encode_frame fs)" by simp_all
  then show ?thesis using read_loop_concat [of fs "\<lparr>rd_data = sc_out s', rd_end = IoEOF\<rparr>"] by simp
qed

theorem frames_written_are_read_witness:
  "read_loop \<lparr>rd_data = [87, 68, 1, 9, 0, 0, 0, 0, 0, 0, 0, 0, 87, 68, 1, 5, 0, 0, 0, 1, 0, 0, 0, 2, 7, 8],
              rd_end = IoEOF\<rparr> =
     ([\<lparr>f_type = TypePing, f_stream = 0, f_payload = []\<rparr>,
       \<lparr>f_type = TypeData, f_stream = 1, f_payload = [7, 8]\<rparr>], FrameIO IoEOF)"
proof -
  let ?fs = "[\<lparr>f_type = TypePing, f_stream = 0, f_payload = []\<rparr>,
       \<lparr>f_type = TypeData, f_stream = 1, f_payload = [7, 8]\<rparr>]"
  let ?bs = "[87, 68, 1, 9, 0, 0, 0, 0, 0, 0, 0, 0, 87, 68, 1, 5, 0, 0, 0, 1, 0, 0, 0, 2, 7, 8] :: byte list"
  have "write_frames script_write \<lparr>sc_out = [], sc_script = [(5, None)]\<rparr> ?fs
      = (None, \<lparr>sc_out = ?bs, sc_script = []\<rparr>)"
    by (simp add: WriteFrame_def MaxPayloadSize_def frame_header_def magic_def Version_def
        put_uint32_def frame_type_defs writeAll.simps script_write_def)
  from frames_written_are_read [OF this] show ?thesis by simp
qed

end
