(* ===== verification/Typed_Stream.thy ===== *)
theory Typed_Stream
  imports Frame
begin

text \<open>
  Typed child streams on the wire (\<open>internal/protocol/typed_stream.go\<close>,
  \<open>file_transfer.go\<close>, \<open>messages.go\<close>, \<open>capabilities.go\<close>): the message records and their
  validators, every rejected input with its own error.  The main result is that an accepted
  file-transfer path is a non-empty list of plain names, so that resolving it below a
  directory never leaves that directory.
\<close>

section \<open>Capabilities and messages\<close>

type_synonym capability = string

definition CapabilityTypedStreamsV1 :: capability where
  "CapabilityTypedStreamsV1 = ''typed-streams-v1''"

definition CapabilityFileTransferV1 :: capability where
  "CapabilityFileTransferV1 = ''file-transfer-v1''"

definition SupportedCapability :: "capability \<Rightarrow> bool" where
  "SupportedCapability v \<longleftrightarrow> v = CapabilityTypedStreamsV1 \<or> v = CapabilityFileTransferV1"

record resize_msg =
  rs_cols :: u16
  rs_rows :: u16

type_synonym stream_kind = string

definition StreamKindTerminal :: stream_kind where
  "StreamKindTerminal = ''terminal''"

definition StreamKindFileUpload :: stream_kind where
  "StreamKindFileUpload = ''file-upload''"

definition StreamKindFileDownload :: stream_kind where
  "StreamKindFileDownload = ''file-download''"

definition MinTypedStreamID :: u32 where "MinTypedStreamID = 2"
definition MaxTypedStreamChunk :: nat where "MaxTypedStreamChunk = 65536"
definition MaxTypedStreamWindow :: u32 where "MaxTypedStreamWindow = 1048576"
definition MaxTypedStreamTermLength :: nat where "MaxTypedStreamTermLength = 64"
definition MaxTypedStreamOpenMetadata :: nat where "MaxTypedStreamOpenMetadata = 4096"
definition MaxTypedStreamCloseReasonLength :: nat where "MaxTypedStreamCloseReasonLength = 128"
definition MaxTypedStreamErrorCodeLength :: nat where "MaxTypedStreamErrorCodeLength = 64"
definition MaxTypedStreamErrorMessageLength :: nat where "MaxTypedStreamErrorMessageLength = 256"
definition MaxFileTransferPathBytes :: nat where "MaxFileTransferPathBytes = 1024"

lemmas stream_limits =
  MinTypedStreamID_def MaxTypedStreamChunk_def MaxTypedStreamWindow_def
  MaxTypedStreamTermLength_def MaxTypedStreamOpenMetadata_def
  MaxTypedStreamCloseReasonLength_def MaxTypedStreamErrorCodeLength_def
  MaxTypedStreamErrorMessageLength_def MaxFileTransferPathBytes_def

record stream_open =
  so_kind :: stream_kind
  so_cols :: u16
  so_rows :: u16
  so_term :: string
  so_metadata :: "byte list"
  so_window :: u32

record stream_accepted =
  sa_window :: u32

record stream_window_update =
  wu_bytes :: u32

record stream_close =
  cl_reason :: string

record stream_error =
  se_code :: string
  se_message :: string

datatype ts_error =
    TsReservedID
  | TsInitialWindow
  | TsKind
  | TsMetadataNotAllowed
  | TsZeroSize
  | TsTermTooLong
  | TsAcceptedWindow
  | TsDataRange
  | TsResizeZero
  | TsUpdateRange
  | TsReasonTooLong
  | TsErrorCode
  | TsErrorMessage
  | TsFileKind
  | TsFileTerminalFields
  | TsFileMetadata
  | TsPathRange
  | TsPathNotRelative
  | TsPathControl
  | TsPathSegment
  | TsExistingPolicy
  | TsDigest
  | TsJSON nat
  | TsTrailingJSON

section \<open>Strict JSON decoding\<close>

text \<open>
  \<open>ParseTypedStreamJSON\<close> decodes one value with unknown fields refused and then insists
  that the input is exhausted.  The JSON decoder itself is a parameter: \<open>dec\<close> decodes one
  value and returns the input that follows it, \<open>trail\<close> decodes one more value of any shape.
\<close>

datatype json_trailing = JsonEOF | JsonValue | JsonBad nat

definition ParseTypedStreamJSON ::
  "(byte list \<Rightarrow> (nat, 'v \<times> byte list) result) \<Rightarrow> (byte list \<Rightarrow> json_trailing) \<Rightarrow>
   byte list \<Rightarrow> (ts_error, 'v) result" where
  "ParseTypedStreamJSON dec trail data =
     (case dec data of
        Err e \<Rightarrow> Err (TsJSON e)
      | Ok (v, rest) \<Rightarrow>
          (case trail rest of
             JsonEOF \<Rightarrow> Ok v
           | JsonValue \<Rightarrow> Err TsTrailingJSON
           | JsonBad e \<Rightarrow> Err (TsJSON e)))"

section \<open>Validators\<close>

definition validateTypedStreamID :: "u32 \<Rightarrow> (ts_error, unit) result" where
  [proto_defs]: "validateTypedStreamID sid =
     (if sid < MinTypedStreamID then Err TsReservedID else Ok ())"

definition validateStreamOpenWindow :: "u32 \<Rightarrow> stream_open \<Rightarrow> (ts_error, unit) result" where
  [proto_defs]: "validateStreamOpenWindow sid open =
     bind_res (validateTypedStreamID sid) (\<lambda>_.
       if so_window open = 0 \<or> MaxTypedStreamWindow < so_window open then Err TsInitialWindow
       else Ok ())"

definition ValidateStreamOpen :: "u32 \<Rightarrow> stream_open \<Rightarrow> (ts_error, unit) result" where
  [proto_defs]: "ValidateStreamOpen sid open =
     bind_res (validateStreamOpenWindow sid open) (\<lambda>_.
       if so_kind open \<noteq> StreamKindTerminal then Err TsKind
       else if length (so_metadata open) \<noteq> 0 then Err TsMetadataNotAllowed
       else if so_cols open = 0 \<or> so_rows open = 0 then Err TsZeroSize
       else if MaxTypedStreamTermLength < length (so_term open) then Err TsTermTooLong
       else Ok ())"

definition ValidateStreamAccepted :: "u32 \<Rightarrow> stream_accepted \<Rightarrow> (ts_error, unit) result" where
  [proto_defs]: "ValidateStreamAccepted sid acc =
     bind_res (validateTypedStreamID sid) (\<lambda>_.
       if sa_window acc = 0 \<or> MaxTypedStreamWindow < sa_window acc then Err TsAcceptedWindow
       else Ok ())"

definition ValidateStreamData :: "u32 \<Rightarrow> byte list \<Rightarrow> (ts_error, unit) result" where
  [proto_defs]: "ValidateStreamData sid payload =
     bind_res (validateTypedStreamID sid) (\<lambda>_.
       if length payload = 0 \<or> MaxTypedStreamChunk < length payload then Err TsDataRange
       else Ok ())"

definition ValidateStreamResize :: "u32 \<Rightarrow> resize_msg \<Rightarrow> (ts_error, unit) result" where
  [proto_defs]: "ValidateStreamResize sid rs =
     bind_res (validateTypedStreamID sid) (\<lambda>_.
       if rs_cols rs = 0 \<or> rs_rows rs = 0 then Err TsResizeZero else Ok ())"

definition ValidateStreamWindowUpdate ::
  "u32 \<Rightarrow> stream_window_update \<Rightarrow> (ts_error, unit) result" where
  [proto_defs]: "ValidateStreamWindowUpdate sid wu =
     bind_res (validateTypedStreamID sid) (\<lambda>_.
       if wu_bytes wu = 0 \<or> MaxTypedStreamWindow < wu_bytes wu then Err TsUpdateRange
       else Ok ())"

definition ValidateStreamClose :: "u32 \<Rightarrow> stream_close \<Rightarrow> (ts_error, unit) result" where
  [proto_defs]: "ValidateStreamClose sid cm =
     bind_res (validateTypedStreamID sid) (\<lambda>_.
       if MaxTypedStreamCloseReasonLength < length (cl_reason cm) then Err TsReasonTooLong
       else Ok ())"

definition ValidateStreamError :: "u32 \<Rightarrow> stream_error \<Rightarrow> (ts_error, unit) result" where
  [proto_defs]: "ValidateStreamError sid se =
     bind_res (validateTypedStreamID sid) (\<lambda>_.
       if se_code se = [] \<or> MaxTypedStreamErrorCodeLength < length (se_code se) then Err TsErrorCode
       else if MaxTypedStreamErrorMessageLength < length (se_message se) then Err TsErrorMessage
       else Ok ())"

section \<open>File-transfer streams\<close>

type_synonym existing_policy = string

definition FileExistingFail :: existing_policy where "FileExistingFail = ''fail''"
definition FileExistingReplace :: existing_policy where "FileExistingReplace = ''replace''"

record file_upload_open =
  fu_path :: string
  fu_expected_size :: "u64 option"
  fu_sha256 :: string
  fu_existing :: existing_policy

record file_download_open =
  fd_path :: string

text \<open>
  \<open>strings.ToUpper\<close> is modelled on ASCII letters only: no other rune has an upper-case form
  made of the letters that occur in a reserved name.
\<close>

definition windowsReservedFileName :: "string \<Rightarrow> bool" where
  "windowsReservedFileName part =
     (let base = map ascii_upper (before_byte CHR ''.'' part) in
      base \<in> {''CON'', ''PRN'', ''AUX'', ''NUL''} \<or>
      (length base = 4 \<and> (has_prefix base ''COM'' \<or> has_prefix base ''LPT'') \<and>
       (of_char (base ! 3) :: nat) \<in> {49..57}))"

definition validFileSegment :: "string \<Rightarrow> bool" where
  "validFileSegment part \<longleftrightarrow>
     \<not> (part = '''' \<or> part = ''.'' \<or> part = ''..'' \<or> has_suffix part ''.'' \<or> has_suffix part '' '' \<or>
        windowsReservedFileName part)"

definition validateFileTransferPath :: "string \<Rightarrow> (ts_error, unit) result" where
  "validateFileTransferPath path =
     (if path = [] \<or> MaxFileTransferPathBytes < length path \<or> \<not> valid_utf8 path then Err TsPathRange
      else if has_prefix path ''/'' \<or> has_suffix path ''/'' \<or>
              contains_any path (CHR 0x5C # ''<>:'' @ CHR 0x22 # ''|?*'') then Err TsPathNotRelative
      else if list_ex (\<lambda>r. r = 0 \<or> is_control r) (runes path) then Err TsPathControl
      else if list_ex (\<lambda>p. \<not> validFileSegment p) (split_on CHR ''/'' path) then Err TsPathSegment
      else Ok ())"

definition no_ascii_upper :: "char \<Rightarrow> bool" where
  "no_ascii_upper c = (let n = (of_char c :: nat) in \<not> (65 \<le> n \<and> n \<le> 90))"

definition validSHA256Hex :: "string \<Rightarrow> bool" where
  "validSHA256Hex v \<longleftrightarrow>
     length v = 64 \<and> list_all no_ascii_upper v \<and>
     (case hex_decode v of None \<Rightarrow> False | Some bs \<Rightarrow> length bs = 32)"

definition ValidateFileUploadOpen :: "file_upload_open \<Rightarrow> (ts_error, unit) result" where
  "ValidateFileUploadOpen open =
     bind_res (validateFileTransferPath (fu_path open)) (\<lambda>_.
       if \<not> (fu_existing open = FileExistingFail \<or> fu_existing open = FileExistingReplace)
       then Err TsExistingPolicy
       else if fu_sha256 open \<noteq> [] \<and> \<not> validSHA256Hex (fu_sha256 open) then Err TsDigest
       else Ok ())"

definition ValidateFileDownloadOpen :: "file_download_open \<Rightarrow> (ts_error, unit) result" where
  "ValidateFileDownloadOpen open = validateFileTransferPath (fd_path open)"

definition validateFileStreamEnvelope ::
  "u32 \<Rightarrow> stream_open \<Rightarrow> stream_kind \<Rightarrow> (ts_error, unit) result" where
  "validateFileStreamEnvelope sid open want =
     bind_res (validateStreamOpenWindow sid open) (\<lambda>_.
       if so_kind open \<noteq> want then Err TsFileKind
       else if so_cols open \<noteq> 0 \<or> so_rows open \<noteq> 0 \<or> so_term open \<noteq> [] then Err TsFileTerminalFields
       else if length (so_metadata open) = 0 \<or> MaxTypedStreamOpenMetadata < length (so_metadata open)
       then Err TsFileMetadata
       else Ok ())"

definition ParseFileUploadStreamOpen ::
  "(byte list \<Rightarrow> (ts_error, file_upload_open) result) \<Rightarrow> u32 \<Rightarrow> stream_open \<Rightarrow>
   (ts_error, file_upload_open) result" where
  "ParseFileUploadStreamOpen parse sid open =
     bind_res (validateFileStreamEnvelope sid open StreamKindFileUpload) (\<lambda>_.
       bind_res (parse (so_metadata open)) (\<lambda>metadata.
         bind_res (ValidateFileUploadOpen metadata) (\<lambda>_. Ok metadata)))"

definition ParseFileDownloadStreamOpen ::
  "(byte list \<Rightarrow> (ts_error, file_download_open) result) \<Rightarrow> u32 \<Rightarrow> stream_open \<Rightarrow>
   (ts_error, file_download_open) result" where
  "ParseFileDownloadStreamOpen parse sid open =
     bind_res (validateFileStreamEnvelope sid open StreamKindFileDownload) (\<lambda>_.
       bind_res (parse (so_metadata open)) (\<lambda>metadata.
         bind_res (ValidateFileDownloadOpen metadata) (\<lambda>_. Ok metadata)))"

section \<open>Facts shared by the session engines\<close>

lemma validateTypedStreamID_Ok [simp]: "validateTypedStreamID sid = Ok () \<longleftrightarrow> MinTypedStreamID \<le> sid"
  by (auto simp: validateTypedStreamID_def)

lemma ValidateStreamData_Ok:
  "ValidateStreamData sid p = Ok () \<longleftrightarrow>
     MinTypedStreamID \<le> sid \<and> p \<noteq> [] \<and> length p \<le> MaxTypedStreamChunk"
  by (auto simp: ValidateStreamData_def result_splits)

lemma ValidateStreamWindowUpdate_Ok:
  "ValidateStreamWindowUpdate sid wu = Ok () \<longleftrightarrow>
     MinTypedStreamID \<le> sid \<and> wu_bytes wu \<noteq> 0 \<and> wu_bytes wu \<le> MaxTypedStreamWindow"
  by (auto simp: ValidateStreamWindowUpdate_def result_splits)

lemma ValidateStreamAccepted_Ok:
  "ValidateStreamAccepted sid acc = Ok () \<longleftrightarrow>
     MinTypedStreamID \<le> sid \<and> sa_window acc \<noteq> 0 \<and> sa_window acc \<le> MaxTypedStreamWindow"
  by (auto simp: ValidateStreamAccepted_def result_splits)

lemma ValidateStreamOpen_Ok:
  "ValidateStreamOpen sid open = Ok () \<longleftrightarrow>
     MinTypedStreamID \<le> sid \<and> so_window open \<noteq> 0 \<and> so_window open \<le> MaxTypedStreamWindow \<and>
     so_kind open = StreamKindTerminal \<and> so_metadata open = [] \<and>
     so_cols open \<noteq> 0 \<and> so_rows open \<noteq> 0 \<and> length (so_term open) \<le> MaxTypedStreamTermLength"
  by (auto simp: ValidateStreamOpen_def validateStreamOpenWindow_def result_splits)

lemma validateFileStreamEnvelope_Ok:
  "validateFileStreamEnvelope sid open want = Ok () \<longleftrightarrow>
     MinTypedStreamID \<le> sid \<and> so_window open \<noteq> 0 \<and> so_window open \<le> MaxTypedStreamWindow \<and>
     so_kind open = want \<and> so_cols open = 0 \<and> so_rows open = 0 \<and> so_term open = [] \<and>
     so_metadata open \<noteq> [] \<and> length (so_metadata open) \<le> MaxTypedStreamOpenMetadata"
  by (auto simp: validateFileStreamEnvelope_def validateStreamOpenWindow_def result_splits)

section \<open>Path confinement\<close>

text \<open>
  Lexical resolution of path components below a directory: an empty component and a
  single dot stay, two dots go to the parent.
\<close>

fun resolve_path :: "string list \<Rightarrow> string list \<Rightarrow> string list" where
  "resolve_path dir [] = dir"
| "resolve_path dir (c # cs) =
     (if c = '''' \<or> c = ''.'' then resolve_path dir cs
      else if c = ''..'' then resolve_path (butlast dir) cs
      else resolve_path (dir @ [c]) cs)"

definition plain_component :: "string \<Rightarrow> bool" where
  "plain_component c \<longleftrightarrow>
     c \<noteq> '''' \<and> c \<noteq> ''.'' \<and> c \<noteq> ''..'' \<and>
     CHR ''/'' \<notin> set c \<and> CHR 0x5C \<notin> set c \<and> CHR '':'' \<notin> set c"

lemma resolve_path_plain:
  "list_all plain_component cs \<Longrightarrow> resolve_path dir cs = dir @ cs"
  by (induction cs arbitrary: dir) (auto simp: plain_component_def)

lemma split_on_subset: "p \<in> set (split_on sep s) \<Longrightarrow> set p \<subseteq> set s"
proof (induction s arbitrary: p)
  case Nil
  then show ?case by simp
next
  case (Cons c s)
  show ?case
  proof (cases "c = sep")
    case True
    with Cons show ?thesis by (auto dest: Cons.IH)
  next
    case False
    obtain q qs where q: "split_on sep s = q # qs"
      by (cases "split_on sep s") auto
    with Cons.prems False have "p = c # q \<or> p \<in> set qs" by auto
    with Cons.IH [of q] Cons.IH [of p] q show ?thesis by auto
  qed
qed

lemma validated_path_plain:
  assumes "validateFileTransferPath path = Ok ()"
  shows "list_all plain_component (split_on CHR ''/'' path)"
proof -
  have noany: "\<not> contains_any path (CHR 0x5C # ''<>:'' @ CHR 0x22 # ''|?*'')"
    and segs: "\<not> list_ex (\<lambda>p. \<not> validFileSegment p) (split_on CHR ''/'' path)"
    using assms by (auto simp: validateFileTransferPath_def split: if_splits)
  have "plain_component p" if p: "p \<in> set (split_on CHR ''/'' path)" for p
  proof -
    have "validFileSegment p" using segs p by (auto simp: list_ex_iff)
    moreover have "CHR 0x5C \<notin> set path" "CHR '':'' \<notin> set path"
      using noany by (auto simp: contains_any_def list_ex_iff)
    ultimately show ?thesis
      using split_on_no_sep [OF p] split_on_subset [OF p]
      by (auto simp: plain_component_def validFileSegment_def)
  qed
  then show ?thesis by (simp add: list_all_iff)
qed

lemma example_path_valid: "validateFileTransferPath ''docs/a.txt'' = Ok ()"
proof -
  have "valid_utf8 ''docs/a.txt''" "\<not> list_ex (\<lambda>r. r = 0 \<or> is_control r) (runes ''docs/a.txt'')"
    by (simp_all add: valid_utf8_def runes_def is_control_def rune_error_def Let_def)
  moreover have "validFileSegment ''docs''" "validFileSegment ''a.txt''"
    by (simp_all add: validFileSegment_def windowsReservedFileName_def go_defs Let_def)
  ultimately show ?thesis
    by (simp add: validateFileTransferPath_def stream_limits has_prefix_def has_suffix_def contains_any_def)
qed

text \<open>
  Claim C33.  A file-upload stream is only opened on a path that cannot escape: resolving
  its components below any directory only appends them, each one a plain name (not empty,
  not a dot name, with no separator, backslash or drive colon).  The stream identifier,
  the window, the overwrite policy and the digest have been checked as well.
\<close>

theorem upload_open_confined:
  assumes "ParseFileUploadStreamOpen parse sid open = Ok m"
  shows "resolve_path dir (split_on CHR ''/'' (fu_path m)) = dir @ split_on CHR ''/'' (fu_path m) \<and>
    list_all plain_component (split_on CHR ''/'' (fu_path m)) \<and>
    fu_existing m \<in> {FileExistingFail, FileExistingReplace} \<and>
    (fu_sha256 m = [] \<or> validSHA256Hex (fu_sha256 m)) \<and>
    2 \<le> sid \<and> so_kind open = StreamKindFileUpload \<and> 0 < so_window open \<and> so_window open \<le> 1048576"
proof -
  from assms have env: "validateFileStreamEnvelope sid open StreamKindFileUpload = Ok ()"
    and up: "ValidateFileUploadOpen m = Ok ()"
    by (auto simp: ParseFileUploadStreamOpen_def result_splits)
  from up have p: "validateFileTransferPath (fu_path m) = Ok ()"
    and "fu_existing m \<in> {FileExistingFail, FileExistingReplace}"
    and "fu_sha256 m = [] \<or> validSHA256Hex (fu_sha256 m)"
    by (auto simp: ValidateFileUploadOpen_def result_splits)
  with env validated_path_plain [OF p] show ?thesis
    by (simp add: validateFileStreamEnvelope_Ok stream_limits word_neq_0_conv resolve_path_plain)
qed

theorem upload_open_confined_witness:
  "resolve_path [''srv''] (split_on CHR ''/'' ''docs/a.txt'') = [''srv'', ''docs'', ''a.txt'']"
proof -
  let ?m = "\<lparr>fu_path = ''docs/a.txt'', fu_expected_size = None, fu_sha256 = [], fu_existing = ''fail''\<rparr>"
  let ?o = "\<lparr>so_kind = ''file-upload'', so_cols = 0, so_rows = 0, so_term = [], so_metadata = [123, 125],
      so_window = 4096\<rparr>"
  have "ParseFileUploadStreamOpen (\<lambda>_. Ok ?m) 2 ?o = Ok ?m"
    by (simp add: ParseFileUploadStreamOpen_def validateFileStreamEnvelope_def ValidateFileUploadOpen_def
        validateStreamOpenWindow_def validateTypedStreamID_def stream_limits StreamKindFileUpload_def
        FileExistingFail_def example_path_valid)
  from upload_open_confined [OF this, of "[''srv'']"] show ?thesis by simp
qed

end
