(* ===== verification/Route_Control.thy ===== *)
theory Route_Control
  imports Route Typed_Stream
begin

text \<open>
  Route-control messages on an authenticated neighbour link (\<open>internal/mesh/routecontrol.go\<close>):
  the twelve-byte header, framing in both directions, strict JSON payloads and the rules for
  route-open responses.  The JSON coder is a parameter.  The framing is an instance of the
  framed codec of the input/output theory, so a link can switch to an opaque tunnel right
  after the response without losing a byte.
\<close>

section \<open>Constants and data\<close>

definition RouteControlVersion :: byte where "RouteControlVersion = 2"
definition MaxRouteControlPayload :: nat where "MaxRouteControlPayload = 65536"
definition routeControlHeaderSize :: nat where "routeControlHeaderSize = 12"
definition routeControlMagic :: "byte list" where "routeControlMagic = [87, 68, 82, 84]"

type_synonym rc_type = byte

definition routeControlOpen :: rc_type where "routeControlOpen = 1"
definition routeControlResponse :: rc_type where "routeControlResponse = 2"

type_synonym route_open_code = string

definition RouteOpenCodeInvalidRequest :: route_open_code where
  "RouteOpenCodeInvalidRequest = ''invalid_request''"
definition RouteOpenCodeDenied :: route_open_code where
  "RouteOpenCodeDenied = ''route_denied''"
definition RouteOpenCodeBusy :: route_open_code where
  "RouteOpenCodeBusy = ''router_busy''"
definition RouteOpenCodeUnavailable :: route_open_code where
  "RouteOpenCodeUnavailable = ''route_unavailable''"

record route_open_response =
  ro_accepted :: bool
  ro_code :: route_open_code

datatype rc_error =
    RcRead io_error
  | RcWrite io_error
  | RcMagic
  | RcVersion byte
  | RcType byte
  | RcReserved
  | RcEmpty
  | RcTooLarge
  | RcEncode
  | RcJSON nat
  | RcMultipleValues
  | RcAcceptedWithCode
  | RcMissingCode
  | RcUnknownCode route_open_code

section \<open>Operations\<close>

definition response_validate :: "route_open_response \<Rightarrow> (rc_error, unit) result" where
  "response_validate resp =
     (if ro_accepted resp then (if ro_code resp \<noteq> [] then Err RcAcceptedWithCode else Ok ())
      else if ro_code resp \<in> {RouteOpenCodeInvalidRequest, RouteOpenCodeDenied, RouteOpenCodeBusy,
                RouteOpenCodeUnavailable} then Ok ()
      else if ro_code resp = [] then Err RcMissingCode
      else Err (RcUnknownCode (ro_code resp)))"

text \<open>The write loop is the same as the one for frames, statement by statement.\<close>

definition writeRouteControlAll :: "'w writer \<Rightarrow> 'w \<Rightarrow> byte list \<Rightarrow> io_error option \<times> 'w" where
  "writeRouteControlAll wr s data = writeAll wr s data"

definition rc_header :: "rc_type \<Rightarrow> byte list \<Rightarrow> byte list" where
  "rc_header typ payload =
     routeControlMagic @ [RouteControlVersion, typ, 0, 0] @ put_uint32 (of_nat (length payload))"

definition writeRouteControlFrame ::
  "'w writer \<Rightarrow> 'w \<Rightarrow> rc_type \<Rightarrow> byte list \<Rightarrow> rc_error option \<times> 'w" where
  "writeRouteControlFrame wr s typ payload =
     (if payload = [] then (Some RcEmpty, s)
      else if MaxRouteControlPayload < length payload then (Some RcTooLarge, s)
      else (case writeRouteControlAll wr s (rc_header typ payload) of
          (Some e, s1) \<Rightarrow> (Some (RcWrite e), s1)
        | (None, s1) \<Rightarrow>
            (case writeRouteControlAll wr s1 payload of
               (Some e, s2) \<Rightarrow> (Some (RcWrite e), s2)
             | (None, s2) \<Rightarrow> (None, s2))))"

definition readRouteControlFrame ::
  "rc_type \<Rightarrow> reader \<Rightarrow> (rc_error, byte list \<times> reader) result" where
  "readRouteControlFrame expected r =
     (case read_full routeControlHeaderSize r of
        Err e \<Rightarrow> Err (RcRead e)
      | Ok (header, r1) \<Rightarrow>
          if take 4 header \<noteq> routeControlMagic then Err RcMagic
          else if header ! 4 \<noteq> RouteControlVersion then Err (RcVersion (header ! 4))
          else if header ! 5 \<noteq> expected then Err (RcType (header ! 5))
          else if header ! 6 \<noteq> 0 \<or> header ! 7 \<noteq> 0 then Err RcReserved
          else
            let len = get_uint32 (drop 8 header) in
            if len = 0 then Err RcEmpty
            else if MaxRouteControlPayload < unat len then Err RcTooLarge
            else
              (case read_full (unat len) r1 of
                 Err e \<Rightarrow> Err (RcRead e)
               | Ok (payload, r2) \<Rightarrow> Ok (payload, r2)))"

definition decodeRouteControlJSON ::
  "(byte list \<Rightarrow> (nat, 'v \<times> byte list) result) \<Rightarrow> (byte list \<Rightarrow> json_trailing) \<Rightarrow>
   byte list \<Rightarrow> (rc_error, 'v) result" where
  "decodeRouteControlJSON dec trail payload =
     (case dec payload of
        Err e \<Rightarrow> Err (RcJSON e)
      | Ok (v, rest) \<Rightarrow>
          (case trail rest of
             JsonEOF \<Rightarrow> Ok v
           | JsonValue \<Rightarrow> Err RcMultipleValues
           | JsonBad e \<Rightarrow> Err (RcJSON e)))"

definition writeRouteControlJSON ::
  "('v \<Rightarrow> byte list option) \<Rightarrow> 'w writer \<Rightarrow> 'w \<Rightarrow> rc_type \<Rightarrow> 'v \<Rightarrow> rc_error option \<times> 'w" where
  "writeRouteControlJSON marshal wr s typ v =
     (case marshal v of
        None \<Rightarrow> (Some RcEncode, s)
      | Some payload \<Rightarrow> writeRouteControlFrame wr s typ payload)"

definition WriteRouteOpenRequest ::
  "('v \<Rightarrow> byte list option) \<Rightarrow> 'w writer \<Rightarrow> 'w \<Rightarrow> 'v \<Rightarrow> rc_error option \<times> 'w" where
  "WriteRouteOpenRequest marshal wr s req = writeRouteControlJSON marshal wr s routeControlOpen req"

definition ReadRouteOpenRequest ::
  "(byte list \<Rightarrow> (nat, 'v \<times> byte list) result) \<Rightarrow> (byte list \<Rightarrow> json_trailing) \<Rightarrow>
   reader \<Rightarrow> (rc_error, 'v \<times> reader) result" where
  "ReadRouteOpenRequest dec trail r =
     bind_res (readRouteControlFrame routeControlOpen r) (\<lambda>(payload, r').
       bind_res (decodeRouteControlJSON dec trail payload) (\<lambda>req. Ok (req, r')))"

definition WriteRouteOpenResponse ::
  "(route_open_response \<Rightarrow> byte list option) \<Rightarrow> 'w writer \<Rightarrow> 'w \<Rightarrow> route_open_response \<Rightarrow>
     rc_error option \<times> 'w" where
  "WriteRouteOpenResponse marshal wr s resp =
     (case response_validate resp of
        Err e \<Rightarrow> (Some e, s)
      | Ok _ \<Rightarrow> writeRouteControlJSON marshal wr s routeControlResponse resp)"

definition ReadRouteOpenResponse ::
  "(byte list \<Rightarrow> (nat, route_open_response \<times> byte list) result) \<Rightarrow> (byte list \<Rightarrow> json_trailing) \<Rightarrow>
   reader \<Rightarrow> (rc_error, route_open_response \<times> reader) result" where
  "ReadRouteOpenResponse dec trail r =
     bind_res (readRouteControlFrame routeControlResponse r) (\<lambda>(payload, r').
       bind_res (decodeRouteControlJSON dec trail payload) (\<lambda>resp.
         bind_res (response_validate resp) (\<lambda>_. Ok (resp, r'))))"

section \<open>The codec\<close>

definition rc_encode :: "rc_type \<Rightarrow> byte list \<Rightarrow> byte list" where
  "rc_encode typ payload = rc_header typ payload @ payload"

definition rc_valid :: "byte list \<Rightarrow> bool" where
  "rc_valid payload \<longleftrightarrow> payload \<noteq> [] \<and> length payload \<le> MaxRouteControlPayload"

lemma length_rc_header [simp]: "length (rc_header typ p) = routeControlHeaderSize"
  by (simp add: rc_header_def routeControlMagic_def routeControlHeaderSize_def)

lemma readRouteControlFrame_encode:
  assumes "rc_valid p" and "rd_data r = rc_encode typ p @ rest"
  shows "readRouteControlFrame typ r = Ok (p, r\<lparr>rd_data := rest\<rparr>)"
proof -
  let ?h = "rc_header typ p"
  have len: "length p < 4294967296" "0 < length p"
    using assms(1) by (simp_all add: rc_valid_def MaxRouteControlPayload_def)
  have rh: "read_full routeControlHeaderSize r = Ok (?h, r\<lparr>rd_data := p @ rest\<rparr>)"
    using assms(2) by (simp add: rc_encode_def)
  have parts: "take 4 ?h = routeControlMagic" "?h ! 4 = RouteControlVersion" "?h ! 5 = typ"
    "?h ! 6 = 0" "?h ! 7 = 0" "get_uint32 (drop 8 ?h) = of_nat (length p)"
    by (simp_all add: rc_header_def routeControlMagic_def)
  have nz: "(of_nat (length p) :: u32) \<noteq> 0"
    using len by (metis unat_of_nat_u32 unat_0 less_irrefl)
  show ?thesis
    using assms(1) len nz by (simp add: readRouteControlFrame_def rh parts rc_valid_def)
qed

lemma readRouteControlFrame_sound:
  assumes "readRouteControlFrame typ r = Ok (p, r')"
  shows "rc_valid p \<and> rd_data r = rc_encode typ p @ rd_data r' \<and> rd_end r' = rd_end r"
proof -
  from assms obtain h r1 where h: "read_full routeControlHeaderSize r = Ok (h, r1)"
    by (auto simp: readRouteControlFrame_def split: sum.splits)
  define len where "len = get_uint32 (drop 8 h)"
  from assms h have p: "read_full (unat len) r1 = Ok (p, r')"
    and m: "take 4 h = routeControlMagic" "h ! 4 = RouteControlVersion" "h ! 5 = typ" "h ! 6 = 0" "h ! 7 = 0"
    and l: "len \<noteq> 0" "unat len \<le> MaxRouteControlPayload"
    by (auto simp: readRouteControlFrame_def Let_def len_def split: sum.splits if_splits)
  from h p have lh: "length h = 12" and lp: "length p = unat len"
    and d: "rd_data r = h @ p @ rd_data r'" "rd_end r' = rd_end r"
    by (auto simp: read_full_Ok_iff routeControlHeaderSize_def)
  have "rc_header typ p = h"
    using lh
  proof (rule length_12_cases)
    fix a0 a1 a2 a3 a4 a5 a6 a7 a8 a9 a10 a11
    assume hh: "h = [a0, a1, a2, a3, a4, a5, a6, a7, a8, a9, a10, a11]"
    have "put_uint32 (of_nat (length p)) = [a8, a9, a10, a11]"
      using lp hh by (simp add: len_def put_get_uint32 del: get_uint32.simps)
    then show ?thesis
      using m hh by (simp add: rc_header_def routeControlMagic_def)
  qed
  moreover have "p \<noteq> []" using lp l(1) by (metis list.size(3) unat_eq_zero)
  ultimately show ?thesis using d lp l(2) by (simp add: rc_encode_def rc_valid_def)
qed

interpretation route_control: framed_codec "rc_encode ty" "readRouteControlFrame ty" rc_valid for ty
proof unfold_locales
  show "rc_valid x \<Longrightarrow> rd_data r = rc_encode ty x @ rest \<Longrightarrow>
      readRouteControlFrame ty r = Ok (x, r\<lparr>rd_data := rest\<rparr>)" for x r rest
    by (rule readRouteControlFrame_encode)
  show "readRouteControlFrame ty r = Ok (x, r') \<Longrightarrow>
      rc_valid x \<and> rd_data r = rc_encode ty x @ rd_data r' \<and> rd_end r' = rd_end r" for r x r'
    by (rule readRouteControlFrame_sound)
  show "rc_valid x \<Longrightarrow> rc_encode ty x \<noteq> []" for x
    by (simp add: rc_encode_def rc_valid_def)
qed

context io_writer
begin

lemma writeRouteControlFrame_out:
  assumes "writeRouteControlFrame wr s typ p = (None, s')"
  shows "out s' = out s @ rc_encode typ p \<and> rc_valid p"
  using assms
  by (auto simp: writeRouteControlFrame_def writeRouteControlAll_def rc_encode_def rc_valid_def
      dest!: writeAll_out split: if_splits prod.splits option.splits)

end

section \<open>Properties\<close>


text \<open>A JSON coder for the one response used in the witness.\<close>

definition sample_response :: route_open_response where
  "sample_response = \<lparr>ro_accepted = True, ro_code = []\<rparr>"

definition sample_marshal :: "route_open_response \<Rightarrow> byte list option" where
  "sample_marshal v = (if v = sample_response then Some [123, 125] else None)"

definition sample_dec :: "byte list \<Rightarrow> (nat, route_open_response \<times> byte list) result" where
  "sample_dec p = (if p = [123, 125] then Ok (sample_response, []) else Err 0)"


end
