(* ===== verification/Replay.thy ===== *)
theory Replay
  imports Route Typed_Stream
begin

text \<open>
  The guards that make a route authorization single-use: the in-memory guard of
  \<open>internal/mesh/routeauth.go\<close> and the restart-safe file guard of
  \<open>internal/meshstate/replay.go\<close>.  Both implement one contract, the locale
  \<open>replay_guard\<close>: a consumed identifier is refused until its authorization has expired, also
  across restarts when the guard is durable.
\<close>

section \<open>Errors\<close>

datatype ra_error =
    RaCancelled
  | RaInvalid
  | RaInvalidRoute mesh_error
  | RaSignature
  | RaExpired
  | RaNotYetValid
  | RaMismatch
  | RaMismatchRoute mesh_error
  | RaReplay
  | RaReplayMissing
  | RaStoreInvalid
  | RaStoreIO

section \<open>The in-memory guard\<close>

text \<open>A nil guard is \<open>None\<close>; \<open>now\<close> is the clock the guard reads.\<close>

type_synonym memory_replay = "string \<rightharpoonup> gotime"

definition NewMemoryRouteAuthorizationReplay :: "memory_replay option" where
  "NewMemoryRouteAuthorizationReplay = Some Map.empty"

definition memory_consume ::
  "bool \<Rightarrow> gotime \<Rightarrow> string \<Rightarrow> gotime \<Rightarrow> memory_replay option \<Rightarrow> ra_error option \<times> memory_replay option" where
  "memory_consume cancelled now jti expiresAt r =
     (if cancelled then (Some RaCancelled, r)
      else (case r of
          None \<Rightarrow> (Some RaReplayMissing, None)
        | Some used \<Rightarrow>
            let used' = map_keep (\<lambda>_ expiry. time_after expiry (time_utc now)) used in
            if used' jti \<noteq> None then (Some RaReplay, Some used')
            else (None, Some (used'(jti \<mapsto> time_utc expiresAt)))))"

section \<open>The file guard\<close>

definition routeReplayStoreVersion :: int where "routeReplayStoreVersion = 1"
definition maxRouteReplayStoreSize :: nat where "maxRouteReplayStoreSize = 1048576"
definition maxRouteReplayJTIBytes :: nat where "maxRouteReplayJTIBytes = 256"

text \<open>
  A Go map from identifiers to expiry times is the list of its entries; its keys are
  distinct and the code does not depend on their order.
\<close>

type_synonym used_map = "(string \<times> int) list"

record replay_disk_state =
  ds_version :: int
  ds_used :: used_map

record file_replay =
  fr_path :: string
  fr_used :: used_map

text \<open>
  The store as a file: its size, the value its text decodes to (none when the text is not
  a store) and what follows that value.
\<close>

record disk_file =
  df_size :: nat
  df_value :: "replay_disk_state option"
  df_trailing :: json_trailing

text \<open>What \<open>os.Lstat\<close> and \<open>os.ReadFile\<close> find at the path.\<close>

datatype path_state =
    PathMissing
  | PathStatError
  | PathSymlink
  | PathIrregular
  | PathFile disk_file

definition validateJTI :: "string \<Rightarrow> (ra_error, unit) result" where
  "validateJTI jti =
     (if jti = [] \<or> trim_space jti \<noteq> jti \<or> maxRouteReplayJTIBytes < length jti then Err RaInvalid
      else Ok ())"

definition validateStoredJTI :: "string \<Rightarrow> int \<Rightarrow> (ra_error, unit) result" where
  "validateStoredJTI jti expiryMS =
     (if \<not> is_ok (validateJTI jti) then Err RaStoreInvalid
      else if expiryMS \<le> 0 then Err RaStoreInvalid
      else Ok ())"

fun load_used :: "gotime \<Rightarrow> used_map \<Rightarrow> used_map \<Rightarrow> (ra_error, used_map) result" where
  "load_used now [] used = Ok used"
| "load_used now ((jti, expiryMS) # es) used =
     (case validateStoredJTI jti expiryMS of
        Err e \<Rightarrow> Err e
      | Ok _ \<Rightarrow>
          load_used now es
            (if time_after (time_of_milli expiryMS) now then (jti, expiryMS) # used else used))"

text \<open>The answers of the file system while a store is opened.\<close>

record open_env =
  oe_read :: bool
  oe_chmod :: bool

definition OpenFileRouteAuthorizationReplay ::
  "open_env \<Rightarrow> gotime \<Rightarrow> string \<Rightarrow> path_state \<Rightarrow> (ra_error, file_replay) result" where
  "OpenFileRouteAuthorizationReplay env now path0 ps =
     (let path = trim_space path0 in
      if path = [] then Err RaStoreInvalid
      else (case ps of
          PathMissing \<Rightarrow> Ok \<lparr>fr_path = path, fr_used = []\<rparr>
        | PathStatError \<Rightarrow> Err RaStoreIO
        | PathSymlink \<Rightarrow> Err RaStoreInvalid
        | PathIrregular \<Rightarrow> Err RaStoreInvalid
        | PathFile file \<Rightarrow>
            if df_size file = 0 \<or> maxRouteReplayStoreSize < df_size file then Err RaStoreInvalid
            else if \<not> oe_read env then Err RaStoreIO
            else if \<not> oe_chmod env then Err RaStoreIO
            else (case df_value file of
                None \<Rightarrow> Err RaStoreInvalid
              | Some st \<Rightarrow>
                  (case df_trailing file of
                     JsonValue \<Rightarrow> Err RaStoreInvalid
                   | JsonBad _ \<Rightarrow> Err RaStoreInvalid
                   | JsonEOF \<Rightarrow>
                       if ds_version st \<noteq> routeReplayStoreVersion then Err RaStoreInvalid
                       else bind_res (load_used (time_utc now) (ds_used st) [])
                         (\<lambda>used. Ok \<lparr>fr_path = path, fr_used = used\<rparr>)))))"

text \<open>
  Saving writes a temporary file and renames it over the store, so the store holds either
  the old or the new state; the final \<open>chmod\<close> may fail after the rename.  \<open>encoded_size\<close> is
  the length of the JSON text of a store.
\<close>

record save_env =
  se_mkdir :: bool
  se_create :: bool
  se_tmp_chmod :: bool
  se_write :: bool
  se_sync :: bool
  se_close :: bool
  se_replace :: bool
  se_chmod :: bool

definition saveLocked ::
  "(used_map \<Rightarrow> nat) \<Rightarrow> save_env \<Rightarrow> used_map \<Rightarrow> path_state \<Rightarrow> ra_error option \<times> path_state" where
  "saveLocked encoded_size env used ps =
     (let size = encoded_size used in
      if \<not> se_mkdir env then (Some RaStoreIO, ps)
      else if size = 0 \<or> maxRouteReplayStoreSize < size then (Some RaStoreInvalid, ps)
      else if \<not> se_create env then (Some RaStoreIO, ps)
      else if \<not> se_tmp_chmod env then (Some RaStoreIO, ps)
      else if \<not> se_write env then (Some RaStoreIO, ps)
      else if \<not> se_sync env then (Some RaStoreIO, ps)
      else if \<not> se_close env then (Some RaStoreIO, ps)
      else if \<not> se_replace env then (Some RaStoreIO, ps)
      else
        (if se_chmod env then None else Some RaStoreIO,
         PathFile \<lparr>df_size = size,
           df_value = Some \<lparr>ds_version = routeReplayStoreVersion, ds_used = used\<rparr>,
           df_trailing = JsonEOF\<rparr>))"

text \<open>\<open>ctx\<close> is the context polled at entry and again under the lock.\<close>

type_synonym file_state = "file_replay option \<times> path_state"

definition file_consume ::
  "(used_map \<Rightarrow> nat) \<Rightarrow> save_env \<Rightarrow> bool \<times> bool \<Rightarrow> gotime \<Rightarrow> string \<Rightarrow> gotime \<Rightarrow> file_state \<Rightarrow>
     ra_error option \<times> file_state" where
  "file_consume encoded_size env ctx now jti expiresAt st =
     (case st of (r0, ps) \<Rightarrow>
        if fst ctx then (Some RaCancelled, st)
        else (case r0 of
            None \<Rightarrow> (Some RaReplayMissing, st)
          | Some r \<Rightarrow>
              (case validateJTI jti of
                 Err e \<Rightarrow> (Some e, st)
               | Ok _ \<Rightarrow>
                   let expiryMS = unix_milli (time_utc expiresAt) in
                   if expiryMS \<le> 0 then (Some RaInvalid, st)
                   else if snd ctx then (Some RaCancelled, st)
                   else
                     let nxt = filter (\<lambda>(_, ms). time_after (time_of_milli ms) (time_utc now)) (fr_used r) in
                     if jti \<in> fst ` set nxt then (Some RaReplay, st)
                     else
                       (case saveLocked encoded_size env ((jti, expiryMS) # nxt) ps of
                          (Some e, ps') \<Rightarrow> (Some e, Some r, ps')
                        | (None, ps') \<Rightarrow> (None, Some (r\<lparr>fr_used := (jti, expiryMS) # nxt\<rparr>), ps')))))"

section \<open>The contract of a guard\<close>

text \<open>
  \<open>remembers s jti ms\<close>: the guard knows that \<open>jti\<close>, whose authorization ends at the
  millisecond \<open>ms\<close>, was consumed.  While the clock has not reached \<open>ms\<close> the guard refuses
  the identifier and goes on knowing it, whatever else happens to it; \<open>restart\<close> is what a
  restart of the process does to the guard.
\<close>

locale replay_guard =
  fixes consume :: "'env \<Rightarrow> gotime \<Rightarrow> string \<Rightarrow> int \<Rightarrow> 's \<Rightarrow> ra_error option \<times> 's"
    and restart :: "'env \<Rightarrow> gotime \<Rightarrow> 's \<Rightarrow> 's"
    and remembers :: "'s \<Rightarrow> string \<Rightarrow> int \<Rightarrow> bool"
  assumes refuses: "remembers s jti ms \<Longrightarrow> time_before now (time_of_milli ms) \<Longrightarrow>
      fst (consume env now jti ms' s) \<noteq> None"
    and stores: "consume env now jti ms s = (None, s') \<Longrightarrow> remembers s' jti ms"
    and keeps: "remembers s jti ms \<Longrightarrow> time_before now (time_of_milli ms) \<Longrightarrow>
      remembers (snd (consume env now jti' ms' s)) jti ms"
    and survives: "remembers s jti ms \<Longrightarrow> time_before now (time_of_milli ms) \<Longrightarrow>
      remembers (restart env now s) jti ms"

datatype 'env guard_op =
    GuardConsume 'env gotime string int
  | GuardRestart 'env gotime

fun guard_time :: "'env guard_op \<Rightarrow> gotime" where
  "guard_time (GuardConsume env now jti ms) = now"
| "guard_time (GuardRestart env now) = now"

text \<open>The identifiers consumed successfully in a run, in order, with the clock at the time.\<close>

fun guard_accepts ::
  "('env \<Rightarrow> gotime \<Rightarrow> string \<Rightarrow> int \<Rightarrow> 's \<Rightarrow> ra_error option \<times> 's) \<Rightarrow> ('env \<Rightarrow> gotime \<Rightarrow> 's \<Rightarrow> 's) \<Rightarrow>
   'env guard_op list \<Rightarrow> 's \<Rightarrow> (string \<times> int \<times> gotime) list" where
  "guard_accepts consume restart [] s = []"
| "guard_accepts consume restart (GuardConsume env now jti ms # ops) s =
     (case consume env now jti ms s of
        (None, s') \<Rightarrow> (jti, ms, now) # guard_accepts consume restart ops s'
      | (Some e, s') \<Rightarrow> guard_accepts consume restart ops s')"
| "guard_accepts consume restart (GuardRestart env now # ops) s =
     guard_accepts consume restart ops (restart env now s)"

context replay_guard
begin

lemma accepts_time:
  "(jti, ms, now) \<in> set (guard_accepts consume restart ops s) \<Longrightarrow> \<exists>op \<in> set ops. guard_time op = now"
proof (induction ops arbitrary: s)
  case (Cons op ops)
  then show ?case by (cases op) (auto split: prod.splits option.splits)
qed simp

lemma accepted_after_expiry:
  "remembers s jti ms \<Longrightarrow> sorted_wrt (\<lambda>a b. \<not> time_before (guard_time b) (guard_time a)) ops \<Longrightarrow>
     (jti, ms', now) \<in> set (guard_accepts consume restart ops s) \<Longrightarrow> \<not> time_before now (time_of_milli ms)"
proof (induction ops arbitrary: s)
  case (Cons op ops)
  show ?case
  proof (cases "time_before (guard_time op) (time_of_milli ms)")
    case False
    from accepts_time [OF Cons.prems(3)] Cons.prems(2) have "\<not> time_before now (guard_time op)"
      by (auto simp: time_before_def)
    with False show ?thesis by (auto simp: time_before_def)
  next
    case True
    show ?thesis
    proof (cases op)
      case (GuardRestart env t)
      with Cons.prems True survives [of s jti ms t env] Cons.IH [of "restart env t s"] show ?thesis by simp
    next
      case (GuardConsume env t j m)
      obtain e s' where c: "consume env t j m s = (e, s')" by fastforce
      have "remembers s' jti ms" using keeps [OF Cons.prems(1), of t env j m] True GuardConsume c by simp
      moreover have "j = jti \<Longrightarrow> e \<noteq> None"
        using refuses [OF Cons.prems(1), of t env m] True GuardConsume c by auto
      ultimately show ?thesis
        using Cons.IH [of s'] Cons.prems(2,3) c GuardConsume by (auto split: option.splits)
    qed
  qed
qed simp

text \<open>
  In a run under a clock that does not go back, an identifier that was consumed is never
  consumed again before its authorization expires.
\<close>

lemma single_use:
  "sorted_wrt (\<lambda>a b. \<not> time_before (guard_time b) (guard_time a)) ops \<Longrightarrow>
     guard_accepts consume restart ops s = xs @ (jti, ms, t) # ys @ (jti, ms', t') # zs \<Longrightarrow>
     \<not> time_before t' (time_of_milli ms)"
proof (induction ops arbitrary: s xs)
  case (Cons op ops)
  show ?case
  proof (cases op)
    case (GuardRestart env u)
    with Cons.IH [of "restart env u s" xs] Cons.prems show ?thesis by simp
  next
    case (GuardConsume env u j m)
    obtain e s' where c: "consume env u j m s = (e, s')" by fastforce
    show ?thesis
    proof (cases "e = None \<and> xs = []")
      case True
      with c GuardConsume Cons.prems(2) have "remembers s' jti ms"
        and "(jti, ms', t') \<in> set (guard_accepts consume restart ops s')"
        using stores [of env u j m s s'] by auto
      with accepted_after_expiry [of s' jti ms ops ms' t'] Cons.prems(1) show ?thesis by simp
    next
      case False
      then have "\<exists>xs'. guard_accepts consume restart ops s' = xs' @ (jti, ms, t) # ys @ (jti, ms', t') # zs"
        using c GuardConsume Cons.prems(2) by (cases e; cases xs) auto
      with Cons.IH [of s'] Cons.prems(1) show ?thesis by auto
    qed
  qed
qed simp

end


section \<open>Both guards keep it\<close>

definition memory_guard ::
  "bool \<Rightarrow> gotime \<Rightarrow> string \<Rightarrow> int \<Rightarrow> memory_replay option \<Rightarrow> ra_error option \<times> memory_replay option" where
  "memory_guard cancelled now jti ms r = memory_consume cancelled now jti (time_utc (time_of_milli ms)) r"

definition memory_remembers :: "memory_replay option \<Rightarrow> string \<Rightarrow> int \<Rightarrow> bool" where
  "memory_remembers r jti ms \<longleftrightarrow>
     (\<exists>used. r = Some used \<and> used jti = Some (time_utc (time_of_milli ms)))"

lemma time_after_milli [simp]:
  "time_after (time_utc e) now = time_after e now" "time_after e (time_utc now) = time_after e now"
  "time_after (time_of_milli ms) now = time_before now (time_of_milli ms)"
  by (simp_all add: time_after_def time_before_def)

lemma time_before_milli [simp]: "time_before (time_of_milli a) (time_of_milli b) = (a < b)"
  by (simp add: time_before_def time_of_milli_def)

lemma time_before_utc [simp]: "time_before (time_utc a) b = time_before a b" "time_before a (time_utc b) = time_before a b"
  by (simp_all add: time_before_def)

text \<open>The in-memory guard does not outlive its process, so it takes no part in restarts.\<close>

interpretation memory: replay_guard memory_guard "\<lambda>_ _ r. r" memory_remembers
  by unfold_locales
    (auto simp: memory_guard_def memory_consume_def memory_remembers_def Let_def
      split: option.splits if_splits)

record file_env =
  fe_save :: save_env
  fe_open :: open_env
  fe_ctx :: "bool \<times> bool"

definition file_guard ::
  "(used_map \<Rightarrow> nat) \<Rightarrow> file_env \<Rightarrow> gotime \<Rightarrow> string \<Rightarrow> int \<Rightarrow> file_state \<Rightarrow> ra_error option \<times> file_state" where
  "file_guard encoded_size env now jti ms st =
     file_consume encoded_size (fe_save env) (fe_ctx env) now jti (time_utc (time_of_milli ms)) st"

text \<open>
  A restart opens the store again; when that fails the agent does not serve routes, and the
  old state stands for the agent that is still down.
\<close>

definition file_restart :: "file_env \<Rightarrow> gotime \<Rightarrow> file_state \<Rightarrow> file_state" where
  "file_restart env now st =
     (case st of (r0, ps) \<Rightarrow>
        (case r0 of
           None \<Rightarrow> st
         | Some r \<Rightarrow>
             (case OpenFileRouteAuthorizationReplay (fe_open env) now (fr_path r) ps of
                Err _ \<Rightarrow> st
              | Ok r' \<Rightarrow> (Some r', ps))))"

definition on_disk :: "path_state \<Rightarrow> string \<Rightarrow> int \<Rightarrow> bool" where
  "on_disk ps jti ms \<longleftrightarrow>
     (\<exists>file st. ps = PathFile file \<and> df_value file = Some st \<and> (jti, ms) \<in> set (ds_used st))"

definition file_remembers :: "file_state \<Rightarrow> string \<Rightarrow> int \<Rightarrow> bool" where
  "file_remembers st jti ms \<longleftrightarrow>
     (\<exists>r. fst st = Some r \<and> (jti, ms) \<in> set (fr_used r)) \<and> on_disk (snd st) jti ms"

lemma load_used_set:
  "load_used now es used = Ok used' \<Longrightarrow>
     set used' = set used \<union> {(j, ms) \<in> set es. time_before now (time_of_milli ms)}"
  by (induction now es used arbitrary: used' rule: load_used.induct) (auto split: sum.splits if_splits)

lemma saveLocked_disk:
  "saveLocked sz env used ps = (e, ps') \<Longrightarrow> (jti, ms) \<in> set used \<Longrightarrow>
     on_disk ps' jti ms \<or> ps' = ps \<and> e \<noteq> None"
  by (auto simp: saveLocked_def Let_def on_disk_def split: if_splits)

lemma file_consume_saves:
  assumes "file_consume sz env ctx now jti ex (Some r, ps) = (e, r0', ps')"
    and "nxt = filter (\<lambda>(_, ms). time_before now (time_of_milli ms)) (fr_used r)"
  shows "e \<noteq> None \<and> r0' = Some r \<and> ps' = ps \<or>
    jti \<notin> fst ` set nxt \<and> saveLocked sz env ((jti, unix_milli ex) # nxt) ps = (e, ps') \<and>
    r0' = Some (if e = None then r\<lparr>fr_used := (jti, unix_milli ex) # nxt\<rparr> else r)"
  using assms
  by (auto simp: file_consume_def Let_def split: if_splits option.splits sum.splits prod.splits)

lemma file_refuses:
  assumes "file_remembers s jti ms" and "time_before now (time_of_milli ms)"
  shows "fst (file_guard sz env now jti ms' s) \<noteq> None"
proof -
  from assms(1) obtain r ps where s: "s = (Some r, ps)" and m: "(jti, ms) \<in> set (fr_used r)"
    by (cases s) (auto simp: file_remembers_def)
  obtain e r0' ps' where c: "file_guard sz env now jti ms' s = (e, r0', ps')" by (metis prod_cases3)
  have "jti \<in> fst ` set (filter (\<lambda>(_, ms). time_before now (time_of_milli ms)) (fr_used r))"
    using m assms(2) by force
  with file_consume_saves [OF c [unfolded file_guard_def s] refl] c show ?thesis by auto
qed

lemma file_stores:
  assumes "file_guard sz env now jti ms s = (None, s')"
  shows "file_remembers s' jti ms"
proof -
  obtain r0 ps where s: "s = (r0, ps)" by fastforce
  with assms obtain r where r: "r0 = Some r"
    by (auto simp: file_guard_def file_consume_def split: if_splits option.splits)
  obtain r0' ps' where s': "s' = (r0', ps')" by fastforce
  from file_consume_saves [OF assms [unfolded file_guard_def s r s'] refl]
  obtain nxt where "saveLocked sz (fe_save env) ((jti, ms) # nxt) ps = (None, ps')"
    and "r0' = Some (r\<lparr>fr_used := (jti, ms) # nxt\<rparr>)" by auto
  with saveLocked_disk [of sz "fe_save env" "(jti, ms) # nxt" ps None ps' jti ms] show ?thesis
    by (simp add: file_remembers_def s')
qed

lemma file_keeps:
  assumes "file_remembers s jti ms" and "time_before now (time_of_milli ms)"
  shows "file_remembers (snd (file_guard sz env now jti' ms' s)) jti ms"
proof -
  from assms(1) obtain r ps where s: "s = (Some r, ps)" and m: "(jti, ms) \<in> set (fr_used r)"
    and d: "on_disk ps jti ms"
    by (cases s) (auto simp: file_remembers_def)
  define nxt where "nxt = filter (\<lambda>(_, ms). time_before now (time_of_milli ms)) (fr_used r)"
  obtain e r0' ps' where c: "file_guard sz env now jti' ms' s = (e, r0', ps')" by (metis prod_cases3)
  have keep: "(jti, ms) \<in> set nxt" using m assms(2) by (simp add: nxt_def)
  from file_consume_saves [OF c [unfolded file_guard_def s] nxt_def]
  show ?thesis
  proof
    assume "e \<noteq> None \<and> r0' = Some r \<and> ps' = ps"
    then show ?thesis using c m d by (simp add: file_remembers_def)
  next
    assume sv: "jti' \<notin> fst ` set nxt \<and>
        saveLocked sz (fe_save env) ((jti', unix_milli (time_utc (time_of_milli ms'))) # nxt) ps = (e, ps') \<and>
        r0' = Some (if e = None then r\<lparr>fr_used := (jti', unix_milli (time_utc (time_of_milli ms'))) # nxt\<rparr> else r)"
    with saveLocked_disk [of sz "fe_save env" _ ps e ps' jti ms] keep d have "on_disk ps' jti ms" by fastforce
    with sv c keep m show ?thesis by (auto simp: file_remembers_def)
  qed
qed

lemma file_survives:
  assumes "file_remembers s jti ms" and "time_before now (time_of_milli ms)"
  shows "file_remembers (file_restart env now s) jti ms"
proof -
  from assms(1) obtain r df st where s: "s = (Some r, PathFile df)"
    and d: "df_value df = Some st" "(jti, ms) \<in> set (ds_used st)"
    by (cases s) (auto simp: file_remembers_def on_disk_def)
  show ?thesis
  proof (cases "OpenFileRouteAuthorizationReplay (fe_open env) now (fr_path r) (PathFile df)")
    case (Inl e)
    then show ?thesis using assms(1) by (simp add: file_restart_def s)
  next
    case (Inr r')
    then have "load_used (time_utc now) (ds_used st) [] = Ok (fr_used r')"
      using d(1) by (auto simp: OpenFileRouteAuthorizationReplay_def Let_def result_splits
          split: if_splits json_trailing.splits)
    from load_used_set [OF this] d(2) assms(2) have "(jti, ms) \<in> set (fr_used r')"
      by (auto simp: time_before_def)
    with Inr assms(1) show ?thesis by (simp add: file_restart_def s file_remembers_def)
  qed
qed

interpretation durable: replay_guard "file_guard encoded_size" file_restart file_remembers for encoded_size
  by unfold_locales (fact file_refuses file_stores file_keeps file_survives)+

section \<open>Properties\<close>


definition sample_save :: save_env where
  "sample_save = \<lparr>se_mkdir = True, se_create = True, se_tmp_chmod = True, se_write = True, se_sync = True,
     se_close = True, se_replace = True, se_chmod = True\<rparr>"

definition sample_file_env :: file_env where
  "sample_file_env = \<lparr>fe_save = sample_save, fe_open = \<lparr>oe_read = True, oe_chmod = True\<rparr>,
     fe_ctx = (False, False)\<rparr>"

definition sample_ops :: "file_env guard_op list" where
  "sample_ops = [GuardConsume sample_file_env (time_of_milli 10) ''j'' 20,
     GuardRestart sample_file_env (time_of_milli 12),
     GuardConsume sample_file_env (time_of_milli 15) ''j'' 20,
     GuardConsume sample_file_env (time_of_milli 25) ''j'' 40]"

lemma sample_accepts:
  "guard_accepts (file_guard (\<lambda>_. 9)) file_restart sample_ops (Some \<lparr>fr_path = ''p'', fr_used = []\<rparr>, PathMissing) =
     [] @ (''j'', 20, time_of_milli 10) # [] @ (''j'', 40, time_of_milli 25) # []"
proof -
  have trim: "trim_space ''j'' = ''j''" "trim_space ''p'' = ''p''"
    by (simp_all add: trim_space_graph graph_char_def)
  show ?thesis
    by (simp add: sample_ops_def sample_file_env_def sample_save_def file_guard_def file_consume_def file_restart_def
        OpenFileRouteAuthorizationReplay_def validateJTI_def validateStoredJTI_def trim saveLocked_def Let_def
        maxRouteReplayJTIBytes_def maxRouteReplayStoreSize_def routeReplayStoreVersion_def)
qed


end
