(* ===== verification/Route_Auth.thy ===== *)
theory Route_Auth
  imports Replay Go_Bytes
begin

text \<open>
  Signed single-use route authorizations (\<open>internal/mesh/routeauth.go\<close>): the claims, their
  syntax rules, the canonical message that is signed, issuing, verification and the
  authorizer that combines local policy with a capability.  Ed25519 is a pair of parameters,
  \<open>ed_sign\<close> and \<open>ed_verify\<close>; the replay guard is any \<open>consume\<close> function.  64-bit integers
  are mathematical integers with their range stated where the encoding needs it.
\<close>

section \<open>Constants and data\<close>

definition RouteAuthorizationVersion :: int where
  "RouteAuthorizationVersion = 1"
definition RouteAuthorizationIssuer :: string where
  "RouteAuthorizationIssuer = ''wedecent-control-plane''"
definition RouteAuthorizationAudience :: string where
  "RouteAuthorizationAudience = ''wedecent-mesh-router''"
definition RouteAuthorizationPermission :: string where
  "RouteAuthorizationPermission = ''mesh.forward''"
definition MaxRouteAuthorizationLifetime :: int where
  "MaxRouteAuthorizationLifetime = 120 * second"
definition routeAuthorizationDomain :: string where
  "routeAuthorizationDomain = ''wedecent-mesh-forward-v1''"

text \<open>The sizes of Ed25519 keys and signatures.\<close>

definition ed25519_PublicKeySize :: nat where "ed25519_PublicKeySize = 32"
definition ed25519_PrivateKeySize :: nat where "ed25519_PrivateKeySize = 64"
definition ed25519_SignatureSize :: nat where "ed25519_SignatureSize = 64"

record route_claims =
  ac_version :: int
  ac_issuer :: string
  ac_audience :: string
  ac_permission :: string
  ac_jti :: string
  ac_router :: device_id
  ac_route :: route
  ac_iat :: int
  ac_exp :: int

record route_authorization =
  ra_key_id :: string
  ra_claims :: route_claims
  ra_signature :: string

section \<open>Syntax and the signed message\<close>

definition validateRouteAuthorizationSyntax :: "route_authorization \<Rightarrow> (ra_error, unit) result" where
  "validateRouteAuthorizationSyntax auth =
     (if blank (ra_key_id auth) \<or> 128 < length (ra_key_id auth) \<or>
         contains_any (ra_key_id auth) [CHR 0x0D, CHR 0x0A, CHR 0x09] then Err RaInvalid
      else
        let c = ra_claims auth in
        if ac_version c \<noteq> RouteAuthorizationVersion \<or> ac_issuer c \<noteq> RouteAuthorizationIssuer \<or>
           ac_audience c \<noteq> RouteAuthorizationAudience \<or> ac_permission c \<noteq> RouteAuthorizationPermission \<or>
           blank (ac_router c) \<or> ac_iat c \<le> 0 \<or> ac_exp c \<le> ac_iat c then Err RaInvalid
        else
          (case base64url_decode (ac_jti c) of
             None \<Rightarrow> Err RaInvalid
           | Some raw \<Rightarrow>
               if length raw \<noteq> 16 then Err RaInvalid
               else
                 (case Route_Validate (ac_route c) (time_add (time_of_milli (ac_exp c)) (- millisecond)) of
                    Err e \<Rightarrow> Err (RaInvalidRoute e)
                  | Ok _ \<Rightarrow>
                      if length (rt_hops (ac_route c)) \<noteq> 2 then Err RaInvalid
                      else
                        let first = rt_hops (ac_route c) ! 0; snd_hop = rt_hops (ac_route c) ! 1 in
                        if hop_from first \<noteq> rt_source (ac_route c) \<or> hop_to first \<noteq> ac_router c \<or>
                           hop_from snd_hop \<noteq> ac_router c \<or> hop_to snd_hop \<noteq> rt_destination (ac_route c)
                        then Err RaInvalid
                        else if rt_expires (ac_route c) \<noteq> time_utc (time_of_milli (ac_exp c)) then Err RaInvalid
                        else if MaxRouteAuthorizationLifetime div millisecond < ac_exp c - ac_iat c
                        then Err RaInvalid
                        else Ok ())))"

definition writeRouteAuthorizationUint32 :: "byte list \<Rightarrow> u32 \<Rightarrow> byte list" where
  "writeRouteAuthorizationUint32 b v = b @ put_uint32 v"

definition writeRouteAuthorizationUint64 :: "byte list \<Rightarrow> u64 \<Rightarrow> byte list" where
  "writeRouteAuthorizationUint64 b v = b @ put_uint64 v"

definition writeRouteAuthorizationInt64 :: "byte list \<Rightarrow> int \<Rightarrow> byte list" where
  "writeRouteAuthorizationInt64 b v = writeRouteAuthorizationUint64 b (of_int v)"

definition writeRouteAuthorizationString :: "byte list \<Rightarrow> string \<Rightarrow> (ra_error, byte list) result" where
  "writeRouteAuthorizationString b v =
     (if 4294967295 < length v then Err RaInvalid
      else Ok (writeRouteAuthorizationUint32 b (of_nat (length v)) @ bytes_of v))"

fun write_strings :: "byte list \<Rightarrow> string list \<Rightarrow> (ra_error, byte list) result" where
  "write_strings b [] = Ok b"
| "write_strings b (v # vs) = bind_res (writeRouteAuthorizationString b v) (\<lambda>b'. write_strings b' vs)"

fun write_hops :: "byte list \<Rightarrow> route_hop list \<Rightarrow> (ra_error, byte list) result" where
  "write_hops b [] = Ok b"
| "write_hops b (hop # hops) =
     bind_res (write_strings b [hop_from hop, hop_to hop, hop_transport hop])
       (\<lambda>b'. write_hops (writeRouteAuthorizationUint64 b' (hop_cost hop)) hops)"

definition routeAuthorizationMessage :: "route_authorization \<Rightarrow> (ra_error, byte list) result" where
  "routeAuthorizationMessage auth =
     bind_res (validateRouteAuthorizationSyntax
         \<lparr>ra_key_id = ra_key_id auth, ra_claims = ra_claims auth, ra_signature = []\<rparr>) (\<lambda>_.
       let c = ra_claims auth; r = ac_route c in
       bind_res (writeRouteAuthorizationString [] routeAuthorizationDomain) (\<lambda>b1.
         bind_res (write_strings (writeRouteAuthorizationUint32 b1 (of_int (ac_version c)))
             [ra_key_id auth, ac_issuer c, ac_audience c, ac_permission c, ac_jti c, ac_router c,
              rt_id r, rt_source r, rt_destination r]) (\<lambda>b2.
           let b3 = writeRouteAuthorizationInt64 b2 (ac_iat c);
               b4 = writeRouteAuthorizationInt64 b3 (ac_exp c);
               b5 = writeRouteAuthorizationInt64 b4 (unix_milli (time_utc (rt_expires r)));
               b6 = writeRouteAuthorizationUint32 b5 (of_nat (length (rt_hops r)))
           in write_hops b6 (rt_hops r))))"

section \<open>Issuing\<close>

text \<open>Copying a route is the identity on values.\<close>

definition cloneAuthorizationRoute :: "route \<Rightarrow> route" where
  "cloneAuthorizationRoute r = r\<lparr>rt_hops := [] @ rt_hops r\<rparr>"

definition cloneAuthorizationClaims :: "route_claims \<Rightarrow> route_claims" where
  "cloneAuthorizationClaims c = c\<lparr>ac_route := cloneAuthorizationRoute (ac_route c)\<rparr>"

definition cloneRouteAuthorization :: "route_authorization \<Rightarrow> route_authorization" where
  "cloneRouteAuthorization a = a\<lparr>ra_claims := cloneAuthorizationClaims (ra_claims a)\<rparr>"

lemma clone_id [simp]:
  "cloneAuthorizationRoute r = r" "cloneAuthorizationClaims c = c" "cloneRouteAuthorization a = a"
  by (simp_all add: cloneAuthorizationRoute_def cloneAuthorizationClaims_def cloneRouteAuthorization_def)

text \<open>\<open>raw\<close> are the sixteen random bytes, absent when the system has none.\<close>

definition NewRouteAuthorizationJTI :: "byte list option \<Rightarrow> (ra_error, string) result" where
  "NewRouteAuthorizationJTI raw =
     (case raw of None \<Rightarrow> Err RaStoreIO | Some bs \<Rightarrow> Ok (base64url_encode bs))"

definition NewRouteAuthorizationClaims :: "route \<Rightarrow> device_id \<Rightarrow> string \<Rightarrow> gotime \<Rightarrow> route_claims" where
  "NewRouteAuthorizationClaims route0 router jti issuedAt =
     (let r0 = cloneAuthorizationRoute route0;
          r = r0\<lparr>rt_expires := time_utc (time_of_milli (unix_milli (time_utc (rt_expires r0))))\<rparr>
      in \<lparr>ac_version = RouteAuthorizationVersion, ac_issuer = RouteAuthorizationIssuer,
          ac_audience = RouteAuthorizationAudience, ac_permission = RouteAuthorizationPermission,
          ac_jti = jti, ac_router = router, ac_route = r,
          ac_iat = unix_milli (time_utc issuedAt), ac_exp = unix_milli (rt_expires r)\<rparr>)"

definition SignRouteAuthorization ::
  "(byte list \<Rightarrow> byte list \<Rightarrow> byte list) \<Rightarrow> byte list \<Rightarrow> string \<Rightarrow> route_claims \<Rightarrow>
     (ra_error, route_authorization) result" where
  "SignRouteAuthorization ed_sign privateKey keyID claims =
     (if length privateKey \<noteq> ed25519_PrivateKeySize then Err RaInvalid
      else
        let auth = \<lparr>ra_key_id = trim_space keyID, ra_claims = cloneAuthorizationClaims claims, ra_signature = []\<rparr> in
        bind_res (validateRouteAuthorizationSyntax auth) (\<lambda>_.
          bind_res (routeAuthorizationMessage auth) (\<lambda>message.
            Ok (auth\<lparr>ra_signature := base64url_encode (ed_sign privateKey message)\<rparr>))))"

section \<open>Verification\<close>

fun hops_match :: "route_hop list \<Rightarrow> route_hop list \<Rightarrow> bool" where
  "hops_match (want # ws) (got # gs) \<longleftrightarrow>
     hop_from want = hop_from got \<and> hop_to want = hop_to got \<and>
     hop_transport want = hop_transport got \<and> hop_cost want = hop_cost got \<and> hops_match ws gs"
| "hops_match _ _ \<longleftrightarrow> True"

definition authorizationMatchesRoute :: "route_claims \<Rightarrow> route \<Rightarrow> device_id \<Rightarrow> bool" where
  "authorizationMatchesRoute claims r router =
     (if ac_router claims \<noteq> router \<or> rt_id (ac_route claims) \<noteq> rt_id r \<or>
         rt_source (ac_route claims) \<noteq> rt_source r \<or> rt_destination (ac_route claims) \<noteq> rt_destination r \<or>
         unix_milli (time_utc (rt_expires (ac_route claims))) \<noteq> unix_milli (time_utc (rt_expires r)) \<or>
         length (rt_hops (ac_route claims)) \<noteq> length (rt_hops r)
      then False
      else hops_match (rt_hops (ac_route claims)) (rt_hops r))"

record verifier =
  vf_key_id :: string
  vf_public_key :: "byte list"

text \<open>
  \<open>replay\<close> is the configured guard, absent when none is configured; \<open>now\<close> is the verifier's
  clock.
\<close>

type_synonym 's guard = "string \<Rightarrow> gotime \<Rightarrow> 's \<Rightarrow> ra_error option \<times> 's"

definition VerifyAndConsume ::
  "(byte list \<Rightarrow> byte list \<Rightarrow> byte list \<Rightarrow> bool) \<Rightarrow> verifier \<Rightarrow> 's guard option \<Rightarrow> bool \<Rightarrow> gotime \<Rightarrow>
   route_authorization \<Rightarrow> route \<Rightarrow> device_id \<Rightarrow> 's \<Rightarrow> ra_error option \<times> 's" where
  "VerifyAndConsume ed_verify v replay cancelled now0 auth0 r router s =
     (if cancelled then (Some RaCancelled, s)
      else if length (vf_public_key v) \<noteq> ed25519_PublicKeySize \<or> blank (vf_key_id v) then (Some RaInvalid, s)
      else (case replay of
          None \<Rightarrow> (Some RaReplayMissing, s)
        | Some consume \<Rightarrow>
            let auth = cloneRouteAuthorization auth0 in
            (case validateRouteAuthorizationSyntax auth of
               Err e \<Rightarrow> (Some e, s)
             | Ok _ \<Rightarrow>
                 if ra_key_id auth \<noteq> trim_space (vf_key_id v) then (Some RaSignature, s)
                 else
                   (case base64url_decode (ra_signature auth) of
                      None \<Rightarrow> (Some RaSignature, s)
                    | Some signature \<Rightarrow>
                        if length signature \<noteq> ed25519_SignatureSize then (Some RaSignature, s)
                        else
                          (case routeAuthorizationMessage auth of
                             Err e \<Rightarrow> (Some e, s)
                           | Ok message \<Rightarrow>
                               if \<not> ed_verify (vf_public_key v) message signature then (Some RaSignature, s)
                               else
                                 let now = time_utc now0; nowMS = unix_milli now; c = ra_claims auth in
                                 if nowMS < ac_iat c then (Some RaNotYetValid, s)
                                 else if ac_exp c \<le> nowMS then (Some RaExpired, s)
                                 else if MaxRouteAuthorizationLifetime div millisecond < ac_exp c - ac_iat c
                                 then (Some RaInvalid, s)
                                 else
                                   (case Route_Validate r now of
                                      Err e \<Rightarrow> (Some (RaMismatchRoute e), s)
                                    | Ok _ \<Rightarrow>
                                        if \<not> authorizationMatchesRoute c r router then (Some RaMismatch, s)
                                        else consume (ac_jti c) (time_utc (time_of_milli (ac_exp c))) s))))))"

text \<open>The request that a forwarder hands to its authorizer (\<open>internal/mesh/forwarder.go\<close>).\<close>

record forward_request =
  fq_router :: device_id
  fq_route :: route
  fq_authorization :: route_authorization
  fq_policy :: router_policy

datatype authorize_error =
    AuthorizationRequired
  | LocalDenied nat
  | RouteDenied ra_error

definition AuthorizeForward ::
  "(forward_request \<Rightarrow> nat option) option \<Rightarrow> (route_authorization \<Rightarrow> route \<Rightarrow> device_id \<Rightarrow> 's \<Rightarrow> ra_error option \<times> 's) \<Rightarrow>
   forward_request \<Rightarrow> 's \<Rightarrow> authorize_error option \<times> 's" where
  "AuthorizeForward local verify request s =
     (case local of
        None \<Rightarrow> (Some AuthorizationRequired, s)
      | Some authorize \<Rightarrow>
          (case authorize (request\<lparr>fq_route := cloneAuthorizationRoute (fq_route request),
                fq_authorization := cloneRouteAuthorization (fq_authorization request)\<rparr>) of
             Some e \<Rightarrow> (Some (LocalDenied e), s)
           | None \<Rightarrow>
               (case verify (cloneRouteAuthorization (fq_authorization request))
                   (cloneAuthorizationRoute (fq_route request)) (fq_router request) s of
                  (e, s') \<Rightarrow> (map_option RouteDenied e, s'))))"


section \<open>What the syntax rules say\<close>

lemma syntax_Ok:
  "validateRouteAuthorizationSyntax auth = Ok () \<longleftrightarrow>
     \<not> blank (ra_key_id auth) \<and> length (ra_key_id auth) \<le> 128 \<and>
     \<not> contains_any (ra_key_id auth) [CHR 0x0D, CHR 0x0A, CHR 0x09] \<and>
     ac_version (ra_claims auth) = RouteAuthorizationVersion \<and>
     ac_issuer (ra_claims auth) = RouteAuthorizationIssuer \<and>
     ac_audience (ra_claims auth) = RouteAuthorizationAudience \<and>
     ac_permission (ra_claims auth) = RouteAuthorizationPermission \<and>
     \<not> blank (ac_router (ra_claims auth)) \<and>
     0 < ac_iat (ra_claims auth) \<and> ac_iat (ra_claims auth) < ac_exp (ra_claims auth) \<and>
     (\<exists>raw. base64url_decode (ac_jti (ra_claims auth)) = Some raw \<and> length raw = 16) \<and>
     Route_Validate (ac_route (ra_claims auth))
       (time_add (time_of_milli (ac_exp (ra_claims auth))) (- millisecond)) = Ok () \<and>
     (\<exists>h1 h2. rt_hops (ac_route (ra_claims auth)) = [h1, h2] \<and>
        hop_from h1 = rt_source (ac_route (ra_claims auth)) \<and> hop_to h1 = ac_router (ra_claims auth) \<and>
        hop_from h2 = ac_router (ra_claims auth) \<and> hop_to h2 = rt_destination (ac_route (ra_claims auth))) \<and>
     rt_expires (ac_route (ra_claims auth)) = time_utc (time_of_milli (ac_exp (ra_claims auth))) \<and>
     ac_exp (ra_claims auth) - ac_iat (ra_claims auth) \<le> 120000"
proof -
  have len: "length hs = 2 \<longleftrightarrow> (\<exists>h1 h2. hs = [h1, h2])" for hs :: "route_hop list"
    by (auto simp: length_Suc_conv numeral_2_eq_2)
  have life: "MaxRouteAuthorizationLifetime div millisecond = 120000"
    by (simp add: MaxRouteAuthorizationLifetime_def millisecond_def second_def)
  show ?thesis
    unfolding validateRouteAuthorizationSyntax_def life Let_def
    by (auto simp: not_le not_less len split: option.splits sum.splits if_splits)
qed

section \<open>The message is an injective encoding\<close>

definition enc_string :: "string \<Rightarrow> byte list" where
  "enc_string v = put_uint32 (of_nat (length v)) @ bytes_of v"

definition enc_hop :: "route_hop \<Rightarrow> byte list" where
  "enc_hop h = concat (map enc_string [hop_from h, hop_to h, hop_transport h]) @ put_uint64 (hop_cost h)"

definition short :: "string \<Rightarrow> bool" where
  "short v \<longleftrightarrow> length v \<le> 4294967295"

definition short_hop :: "route_hop \<Rightarrow> bool" where
  "short_hop h \<longleftrightarrow> short (hop_from h) \<and> short (hop_to h) \<and> short (hop_transport h)"

lemma writeString_Ok: "writeRouteAuthorizationString b v = Ok b' \<longleftrightarrow> short v \<and> b' = b @ enc_string v"
  by (auto simp: writeRouteAuthorizationString_def short_def enc_string_def writeRouteAuthorizationUint32_def)

lemma write_strings_Ok:
  "write_strings b vs = Ok b' \<longleftrightarrow> list_all short vs \<and> b' = b @ concat (map enc_string vs)"
  by (induction b vs arbitrary: b' rule: write_strings.induct) (auto simp: result_splits writeString_Ok)

lemma write_hops_Ok:
  "write_hops b hs = Ok b' \<longleftrightarrow> list_all short_hop hs \<and> b' = b @ concat (map enc_hop hs)"
  by (induction b hs arbitrary: b' rule: write_hops.induct)
    (auto simp: result_splits write_strings_Ok writeRouteAuthorizationUint64_def enc_hop_def short_hop_def
      simp del: write_strings.simps)

lemma enc_string_append:
  assumes "short v" and "short w" and "enc_string v @ a = enc_string w @ b"
  shows "v = w \<and> a = b"
proof -
  from assms(3) have "(of_nat (length v) :: u32) = of_nat (length w)" and t: "bytes_of v @ a = bytes_of w @ b"
    by (auto simp: enc_string_def append_eq_append_conv)
  then have "length v = length w"
    using assms(1,2) by (simp add: short_def of_nat_u32_inject)
  with t show ?thesis by (simp add: append_eq_append_conv)
qed

lemma enc_strings_append:
  "length vs = length ws \<Longrightarrow> list_all short vs \<Longrightarrow> list_all short ws \<Longrightarrow>
     concat (map enc_string vs) @ a = concat (map enc_string ws) @ b \<Longrightarrow> vs = ws \<and> a = b"
proof (induction vs ws rule: list_induct2)
  case (Cons v vs w ws)
  then have "v = w \<and> concat (map enc_string vs) @ a = concat (map enc_string ws) @ b"
    by (intro enc_string_append) auto
  with Cons show ?case by auto
qed simp

lemma put_uint64_append [simp]: "put_uint64 v @ a = put_uint64 w @ b \<longleftrightarrow> v = w \<and> a = b"
  by (auto simp: append_eq_append_conv)

lemma put_uint32_append [simp]: "put_uint32 v @ a = put_uint32 w @ b \<longleftrightarrow> v = w \<and> a = b"
  by (auto simp: append_eq_append_conv)

lemma enc_hop_append:
  assumes "short_hop h" and "short_hop k" and "enc_hop h @ a = enc_hop k @ b"
  shows "h = k \<and> a = b"
proof -
  have "[hop_from h, hop_to h, hop_transport h] = [hop_from k, hop_to k, hop_transport k] \<and>
      put_uint64 (hop_cost h) @ a = put_uint64 (hop_cost k) @ b"
    using assms by (intro enc_strings_append) (auto simp: short_hop_def enc_hop_def)
  then show ?thesis by (auto intro: route_hop.equality)
qed

lemma enc_hops_append:
  "length hs = length ks \<Longrightarrow> list_all short_hop hs \<Longrightarrow> list_all short_hop ks \<Longrightarrow>
     concat (map enc_hop hs) @ a = concat (map enc_hop ks) @ b \<Longrightarrow> hs = ks \<and> a = b"
proof (induction hs ks rule: list_induct2)
  case (Cons h hs k ks)
  then have "h = k \<and> concat (map enc_hop hs) @ a = concat (map enc_hop ks) @ b"
    by (intro enc_hop_append) auto
  with Cons show ?case by auto
qed simp

lemma syntax_signature:
  "validateRouteAuthorizationSyntax \<lparr>ra_key_id = ra_key_id a, ra_claims = ra_claims a, ra_signature = x\<rparr> =
     validateRouteAuthorizationSyntax a"
  by (simp add: validateRouteAuthorizationSyntax_def)

definition message_fields :: "route_authorization \<Rightarrow> string list" where
  "message_fields auth =
     [ra_key_id auth, ac_issuer (ra_claims auth), ac_audience (ra_claims auth), ac_permission (ra_claims auth),
      ac_jti (ra_claims auth), ac_router (ra_claims auth), rt_id (ac_route (ra_claims auth)),
      rt_source (ac_route (ra_claims auth)), rt_destination (ac_route (ra_claims auth))]"

lemma routeAuthorizationMessage_Ok:
  "routeAuthorizationMessage auth = Ok m \<longleftrightarrow>
     validateRouteAuthorizationSyntax auth = Ok () \<and>
     list_all short (message_fields auth) \<and> list_all short_hop (rt_hops (ac_route (ra_claims auth))) \<and>
     m = enc_string routeAuthorizationDomain @ put_uint32 (of_int (ac_version (ra_claims auth))) @
       concat (map enc_string (message_fields auth)) @ put_uint64 (of_int (ac_iat (ra_claims auth))) @
       put_uint64 (of_int (ac_exp (ra_claims auth))) @
       put_uint64 (of_int (unix_milli (rt_expires (ac_route (ra_claims auth))))) @
       put_uint32 (of_nat (length (rt_hops (ac_route (ra_claims auth))))) @
       concat (map enc_hop (rt_hops (ac_route (ra_claims auth))))"
proof -
  have "short routeAuthorizationDomain" by (simp add: short_def routeAuthorizationDomain_def)
  then show ?thesis
    by (auto simp: syntax_signature routeAuthorizationMessage_def Let_def result_splits writeString_Ok write_strings_Ok write_hops_Ok
        message_fields_def writeRouteAuthorizationInt64_def writeRouteAuthorizationUint64_def
        writeRouteAuthorizationUint32_def simp del: write_strings.simps)
qed

definition int64_claims :: "route_claims \<Rightarrow> bool" where
  "int64_claims c \<longleftrightarrow>
     - 9223372036854775808 \<le> ac_iat c \<and> ac_iat c < 9223372036854775808 \<and>
     - 9223372036854775808 \<le> ac_exp c \<and> ac_exp c < 9223372036854775808"

lemma message_inject:
  assumes m: "routeAuthorizationMessage a = Ok m" and m': "routeAuthorizationMessage b = Ok m"
    and "int64_claims (ra_claims a)" and "int64_claims (ra_claims b)"
  shows "ra_key_id a = ra_key_id b \<and> ra_claims a = ra_claims b"
proof -
  let ?ca = "ra_claims a" and ?cb = "ra_claims b"
  note ma = m [unfolded routeAuthorizationMessage_Ok] and mb = m' [unfolded routeAuthorizationMessage_Ok]
  have sa: "validateRouteAuthorizationSyntax a = Ok ()" and sb: "validateRouteAuthorizationSyntax b = Ok ()"
    using ma mb by blast+
  note va = sa [unfolded syntax_Ok] and vb = sb [unfolded syntax_Ok]
  have hops: "length (rt_hops (ac_route ?ca)) = length (rt_hops (ac_route ?cb))" using va vb by auto
  have ver: "ac_version ?ca = ac_version ?cb" using va vb by simp
  have len: "length (message_fields a) = length (message_fields b)" by (simp add: message_fields_def)
  have "message_fields a = message_fields b \<and>
      put_uint64 (of_int (ac_iat ?ca)) @ put_uint64 (of_int (ac_exp ?ca)) @
       put_uint64 (of_int (unix_milli (rt_expires (ac_route ?ca)))) @
       put_uint32 (of_nat (length (rt_hops (ac_route ?ca)))) @ concat (map enc_hop (rt_hops (ac_route ?ca))) =
      put_uint64 (of_int (ac_iat ?cb)) @ put_uint64 (of_int (ac_exp ?cb)) @
       put_uint64 (of_int (unix_milli (rt_expires (ac_route ?cb)))) @
       put_uint32 (of_nat (length (rt_hops (ac_route ?cb)))) @ concat (map enc_hop (rt_hops (ac_route ?cb)))"
    using len ma mb ver by (intro enc_strings_append) auto
  then have f: "message_fields a = message_fields b"
    and t: "(of_int (ac_iat ?ca) :: u64) = of_int (ac_iat ?cb)" "(of_int (ac_exp ?ca) :: u64) = of_int (ac_exp ?cb)"
    and h: "concat (map enc_hop (rt_hops (ac_route ?ca))) @ [] = concat (map enc_hop (rt_hops (ac_route ?cb))) @ []"
    by auto
  have times: "ac_iat ?ca = ac_iat ?cb" "ac_exp ?ca = ac_exp ?cb"
    using t assms(3,4) by (simp_all add: int64_claims_def of_int_u64_inject)
  have "rt_hops (ac_route ?ca) = rt_hops (ac_route ?cb)"
    using enc_hops_append [OF hops _ _ h] ma mb by blast
  moreover have "rt_expires (ac_route ?ca) = rt_expires (ac_route ?cb)" using va vb times by simp
  ultimately have "ac_route ?ca = ac_route ?cb"
    using f by (auto simp: message_fields_def intro: route.equality)
  then show ?thesis
    using f ver times by (auto simp: message_fields_def intro: route_claims.equality)
qed


section \<open>Verification\<close>

text \<open>Everything the verifier demands before it asks the replay guard.\<close>

definition authorized ::
  "(byte list \<Rightarrow> byte list \<Rightarrow> byte list \<Rightarrow> bool) \<Rightarrow> verifier \<Rightarrow> gotime \<Rightarrow> route_authorization \<Rightarrow> route \<Rightarrow> device_id \<Rightarrow> bool" where
  "authorized ed_verify v now auth r router \<longleftrightarrow>
     length (vf_public_key v) = 32 \<and> \<not> blank (vf_key_id v) \<and>
     ra_key_id auth = trim_space (vf_key_id v) \<and>
     (\<exists>m sig. routeAuthorizationMessage auth = Ok m \<and> base64url_decode (ra_signature auth) = Some sig \<and>
        length sig = 64 \<and> ed_verify (vf_public_key v) m sig) \<and>
     ac_iat (ra_claims auth) \<le> unix_milli now \<and> unix_milli now < ac_exp (ra_claims auth) \<and>
     Route_Validate r (time_utc now) = Ok () \<and>
     ac_router (ra_claims auth) = router \<and>
     r = (ac_route (ra_claims auth))\<lparr>rt_expires := rt_expires r\<rparr> \<and>
     unix_milli (rt_expires r) = ac_exp (ra_claims auth)"

lemma hops_match_iff: "length ws = length gs \<Longrightarrow> hops_match ws gs \<longleftrightarrow> ws = gs"
  by (induction ws gs rule: list_induct2) (auto intro: route_hop.equality)

lemma authorizationMatchesRoute_iff:
  "authorizationMatchesRoute c r router \<longleftrightarrow>
     ac_router c = router \<and> r = (ac_route c)\<lparr>rt_expires := rt_expires r\<rparr> \<and>
     unix_milli (rt_expires r) = unix_milli (rt_expires (ac_route c))"
proof -
  have "r = (ac_route c)\<lparr>rt_expires := rt_expires r\<rparr> \<longleftrightarrow>
      rt_id (ac_route c) = rt_id r \<and> rt_source (ac_route c) = rt_source r \<and>
      rt_destination (ac_route c) = rt_destination r \<and> rt_hops (ac_route c) = rt_hops r"
    by (cases r; cases "ac_route c") auto
  then show ?thesis
    by (auto simp: authorizationMatchesRoute_def hops_match_iff)
qed

lemma message_syntax: "routeAuthorizationMessage auth = Ok m \<Longrightarrow> validateRouteAuthorizationSyntax auth = Ok ()"
  by (simp add: routeAuthorizationMessage_Ok)

lemma VerifyAndConsume_authorized:
  assumes "authorized ed_verify v now auth r router"
  shows "VerifyAndConsume ed_verify v (Some consume) False now auth r router s =
     consume (ac_jti (ra_claims auth)) (time_utc (time_of_milli (ac_exp (ra_claims auth)))) s"
proof -
  from assms obtain m sig where m: "routeAuthorizationMessage auth = Ok m"
    and sig: "base64url_decode (ra_signature auth) = Some sig" "length sig = 64" "ed_verify (vf_public_key v) m sig"
    by (auto simp: authorized_def)
  note syn = message_syntax [OF m] and cl = message_syntax [OF m, unfolded syntax_Ok]
  have life: "\<not> MaxRouteAuthorizationLifetime div millisecond < ac_exp (ra_claims auth) - ac_iat (ra_claims auth)"
    using cl by (simp add: MaxRouteAuthorizationLifetime_def millisecond_def second_def)
  have "authorizationMatchesRoute (ra_claims auth) r router"
    using assms cl by (simp add: authorizationMatchesRoute_iff authorized_def)
  with assms m sig syn life show ?thesis
    by (simp add: VerifyAndConsume_def Let_def ed25519_PublicKeySize_def ed25519_SignatureSize_def authorized_def)
qed

lemma VerifyAndConsume_unauthorized:
  assumes "\<not> authorized ed_verify v now auth r router"
  shows "\<exists>e. VerifyAndConsume ed_verify v (Some consume) False now auth r router s = (Some e, s)"
proof (rule ccontr)
  assume not: "\<not> ?thesis"
  have keys: "length (vf_public_key v) = 32" "\<not> blank (vf_key_id v)"
    using not by (auto simp: VerifyAndConsume_def ed25519_PublicKeySize_def split: if_splits)
  have syn: "validateRouteAuthorizationSyntax auth = Ok ()"
    using not keys by (auto simp: VerifyAndConsume_def Let_def ed25519_PublicKeySize_def split: sum.splits)
  have kid: "ra_key_id auth = trim_space (vf_key_id v)"
    using not keys syn by (auto simp: VerifyAndConsume_def Let_def ed25519_PublicKeySize_def split: if_splits)
  obtain sig where sig: "base64url_decode (ra_signature auth) = Some sig"
    using not keys syn kid
    by (auto simp: VerifyAndConsume_def Let_def ed25519_PublicKeySize_def split: option.splits)
  have len: "length sig = 64"
    using not keys syn kid sig
    by (auto simp: VerifyAndConsume_def Let_def ed25519_PublicKeySize_def ed25519_SignatureSize_def split: if_splits)
  obtain m where m: "routeAuthorizationMessage auth = Ok m"
    using not keys syn kid sig len
    by (auto simp: VerifyAndConsume_def Let_def ed25519_PublicKeySize_def ed25519_SignatureSize_def split: sum.splits)
  have ver: "ed_verify (vf_public_key v) m sig"
    and iat: "ac_iat (ra_claims auth) \<le> unix_milli now" and ex: "unix_milli now < ac_exp (ra_claims auth)"
    using not keys syn kid sig len m
    by (auto simp: VerifyAndConsume_def Let_def ed25519_PublicKeySize_def ed25519_SignatureSize_def not_less
        split: if_splits)
  have "Route_Validate r (time_utc now) = Ok () \<and> authorizationMatchesRoute (ra_claims auth) r router"
    using not keys syn kid sig len m ver
    by (auto simp: VerifyAndConsume_def Let_def ed25519_PublicKeySize_def ed25519_SignatureSize_def
        split: if_splits sum.splits)
  with assms keys kid m sig len ver iat ex syn [unfolded syntax_Ok] show False
    by (auto simp: authorized_def authorizationMatchesRoute_iff)
qed

section \<open>Properties\<close>

text \<open>
  Claim C6.  The signed message determines every claim: if two authorizations have the same
  message, they agree on the key identifier and on all claims, the whole route with its hops,
  transports, costs and expiry included.  No signature can be moved to other claims.
\<close>

theorem signed_message_binds_claims:
  assumes "routeAuthorizationMessage a = Ok m" and "routeAuthorizationMessage b = Ok m"
    and "int64_claims (ra_claims a)" and "int64_claims (ra_claims b)"
  shows "ra_key_id a = ra_key_id b \<and> ra_claims a = ra_claims b"
  using assms by (rule message_inject)

text \<open>
  Claim C4.  The verifier accepts exactly when the configured key verifies the signature over
  the authorization's message, the clock is within the claimed lifetime, the requested route
  is valid now and equals the claimed one (up to the sub-millisecond part of its expiry),
  this router is the claimed one, and the replay guard takes the identifier.  Whenever
  anything but the guard refuses, the guard is not touched, so a rejected request never burns
  an authorization.
\<close>

theorem verification_exact:
  "VerifyAndConsume ed_verify v (Some consume) False now auth r router s =
     (if authorized ed_verify v now auth r router
      then consume (ac_jti (ra_claims auth)) (time_utc (time_of_milli (ac_exp (ra_claims auth)))) s
      else (fst (VerifyAndConsume ed_verify v (Some consume) False now auth r router s), s)) \<and>
   (fst (VerifyAndConsume ed_verify v (Some consume) False now auth r router s) = None \<longleftrightarrow>
      authorized ed_verify v now auth r router \<and>
      fst (consume (ac_jti (ra_claims auth)) (time_utc (time_of_milli (ac_exp (ra_claims auth)))) s) = None)"
  using VerifyAndConsume_authorized [of ed_verify v now auth r router consume s]
    VerifyAndConsume_unauthorized [of ed_verify v now auth r router consume s]
  by (cases "authorized ed_verify v now auth r router") auto

text \<open>
  Claim C8.  What the control plane issues is accepted: an authorization signed for a route
  that is valid now is verified by the matching key for exactly that route, while the clock is
  within its lifetime, and the only thing left to decide is the replay guard.  Of Ed25519 only
  correctness is assumed: a signature made with the private key verifies with the public key
  and has 64 bytes.
\<close>

theorem issued_authorization_accepted:
  assumes "\<And>m. ed_verify (vf_public_key v) m (ed_sign sk m)" and "\<And>m. length (ed_sign sk m) = 64"
    and "length (vf_public_key v) = 32" and "\<not> blank (vf_key_id v)"
    and "trim_space kid = trim_space (vf_key_id v)"
    and "SignRouteAuthorization ed_sign sk kid (NewRouteAuthorizationClaims r router jti issuedAt) = Ok auth"
    and "Route_Validate r (time_utc now) = Ok ()"
    and "unix_milli issuedAt \<le> unix_milli now" and "unix_milli now < unix_milli (rt_expires r)"
  shows "VerifyAndConsume ed_verify v (Some consume) False now auth r router s =
     consume jti (time_utc (time_of_milli (unix_milli (rt_expires r)))) s"
proof -
  let ?c = "NewRouteAuthorizationClaims r router jti issuedAt"
  from assms(6) obtain m where m: "routeAuthorizationMessage \<lparr>ra_key_id = trim_space kid, ra_claims = ?c, ra_signature = []\<rparr> = Ok m"
    and auth: "auth = \<lparr>ra_key_id = trim_space kid, ra_claims = ?c, ra_signature = base64url_encode (ed_sign sk m)\<rparr>"
    by (auto simp: SignRouteAuthorization_def Let_def result_splits)
  have "routeAuthorizationMessage auth = Ok m"
    using m by (simp add: auth routeAuthorizationMessage_def)
  moreover have "r = (ac_route ?c)\<lparr>rt_expires := rt_expires r\<rparr>"
    by (simp add: NewRouteAuthorizationClaims_def Let_def)
  ultimately have "authorized ed_verify v now auth r router"
    using assms by (simp add: authorized_def auth NewRouteAuthorizationClaims_def Let_def)
  from VerifyAndConsume_authorized [OF this, of consume s] show ?thesis
    by (simp add: auth NewRouteAuthorizationClaims_def Let_def)
qed

subsection \<open>A sample authorization\<close>

definition sample_auth_route :: route where
  "sample_auth_route = sample_route\<lparr>rt_expires := time_of_milli 5000\<rparr>"

definition sample_jti :: string where
  "sample_jti = base64url_encode [1, 2, 3, 4, 5, 6, 7, 8, 9, 10, 11, 12, 13, 14, 15, 16]"

definition sample_claims :: route_claims where
  "sample_claims = NewRouteAuthorizationClaims sample_auth_route ''b'' sample_jti (time_of_milli 1000)"

definition sample_auth :: route_authorization where
  "sample_auth = \<lparr>ra_key_id = ''k'', ra_claims = sample_claims, ra_signature = []\<rparr>"

lemma sample_route_valid:
  "t_ns now < t_ns e \<Longrightarrow> t_ns e \<noteq> 0 \<Longrightarrow> Route_Validate (sample_route\<lparr>rt_expires := e\<rparr>) now = Ok ()"
  by (simp add: Route_Validate_Ok sample_route_def route_path_def MaxRouteHops_def graph_char_def
      time_is_zero_def time_before_def)

lemma sample_jti_length: "length sample_jti = 22"
  by (simp add: sample_jti_def base64url_encode_def)

lemma sample_claims_sel:
  "ac_version sample_claims = 1" "ac_issuer sample_claims = RouteAuthorizationIssuer"
  "ac_audience sample_claims = RouteAuthorizationAudience"
  "ac_permission sample_claims = RouteAuthorizationPermission" "ac_jti sample_claims = sample_jti"
  "ac_router sample_claims = ''b''" "ac_route sample_claims = sample_route\<lparr>rt_expires := time_utc (time_of_milli 5000)\<rparr>"
  "ac_iat sample_claims = 1000" "ac_exp sample_claims = 5000"
  by (simp_all add: sample_claims_def NewRouteAuthorizationClaims_def Let_def sample_auth_route_def
      RouteAuthorizationVersion_def)

lemma sample_syntax:
  "validateRouteAuthorizationSyntax \<lparr>ra_key_id = ''k'', ra_claims = sample_claims, ra_signature = x\<rparr> = Ok ()"
proof -
  have "Route_Validate (ac_route sample_claims)
      (time_add (time_of_milli (ac_exp sample_claims)) (- millisecond)) = Ok ()"
    unfolding sample_claims_sel
    by (rule sample_route_valid) (simp_all add: time_add_def time_of_milli_def millisecond_def unix_epoch_ns_def)
  then show ?thesis
    by (simp add: syntax_Ok sample_claims_sel sample_jti_def RouteAuthorizationVersion_def graph_char_def
        contains_any_def sample_route_def)
qed

lemma sample_message: "\<exists>m. routeAuthorizationMessage \<lparr>ra_key_id = ''k'', ra_claims = sample_claims, ra_signature = x\<rparr> = Ok m"
  using sample_syntax [of x]
  by (simp add: routeAuthorizationMessage_Ok message_fields_def short_def sample_claims_sel sample_jti_length
      RouteAuthorizationIssuer_def RouteAuthorizationAudience_def RouteAuthorizationPermission_def sample_route_def
      short_hop_def)

theorem signed_message_binds_claims_witness:
  "\<exists>m. routeAuthorizationMessage sample_auth = Ok m \<and>
     routeAuthorizationMessage (sample_auth\<lparr>ra_signature := ''x''\<rparr>) = Ok m \<and>
     ra_claims sample_auth = ra_claims (sample_auth\<lparr>ra_signature := ''x''\<rparr>)"
proof -
  obtain m where m: "routeAuthorizationMessage sample_auth = Ok m"
    using sample_message [of "[]"] by (auto simp: sample_auth_def)
  have m': "routeAuthorizationMessage (sample_auth\<lparr>ra_signature := ''x''\<rparr>) = Ok m"
    using m by (simp add: routeAuthorizationMessage_def)
  have "int64_claims (ra_claims sample_auth)"
    by (simp add: int64_claims_def sample_auth_def sample_claims_sel)
  with signed_message_binds_claims [OF m m'] m m' show ?thesis by simp
qed

definition sample_verifier :: verifier where
  "sample_verifier = \<lparr>vf_key_id = ''k'', vf_public_key = replicate 32 0\<rparr>"

theorem issued_authorization_accepted_witness:
  "\<exists>auth. SignRouteAuthorization (\<lambda>_ _. replicate 64 7) (replicate 64 0) ''k'' sample_claims = Ok auth \<and>
     VerifyAndConsume (\<lambda>_ _ sig. sig = replicate 64 7) sample_verifier (Some (memory_consume False (time_of_milli 2000)))
       False (time_of_milli 2000) auth sample_auth_route ''b'' (Some Map.empty) =
     (None, Some [sample_jti \<mapsto> time_utc (time_of_milli 5000)])"
proof -
  have trim: "trim_space ''k'' = ''k''" by (simp add: trim_space_graph graph_char_def)
  obtain auth where auth: "SignRouteAuthorization (\<lambda>_ _. replicate 64 7) (replicate 64 0) ''k'' sample_claims = Ok auth"
    using sample_syntax [of "[]"] sample_message [of "[]"]
    by (auto simp: SignRouteAuthorization_def ed25519_PrivateKeySize_def trim)
  have "VerifyAndConsume (\<lambda>_ _ sig. sig = replicate 64 7) sample_verifier (Some (memory_consume False (time_of_milli 2000)))
       False (time_of_milli 2000) auth sample_auth_route ''b'' (Some Map.empty) =
     memory_consume False (time_of_milli 2000) sample_jti
       (time_utc (time_of_milli (unix_milli (rt_expires sample_auth_route)))) (Some Map.empty)"
  proof (rule issued_authorization_accepted [where kid = "''k''" and ed_sign = "\<lambda>_ _. replicate 64 7" and
        sk = "replicate 64 0" and issuedAt = "time_of_milli 1000"])
    show "SignRouteAuthorization (\<lambda>_ _. replicate 64 7) (replicate 64 0) ''k''
        (NewRouteAuthorizationClaims sample_auth_route ''b'' sample_jti (time_of_milli 1000)) = Ok auth"
      using auth by (simp add: sample_claims_def)
    show "Route_Validate sample_auth_route (time_utc (time_of_milli 2000)) = Ok ()"
      unfolding sample_auth_route_def
      by (rule sample_route_valid) (simp_all add: time_of_milli_def unix_epoch_ns_def)
  qed (simp_all add: sample_verifier_def graph_char_def sample_auth_route_def)
  with auth show ?thesis by (simp add: memory_consume_def sample_auth_route_def time_utc_def)
qed

text \<open>
  Claim C37.  The verifier and the guard read the clock separately.  When the verifier's
  reading is before the expiry and the guard's reading is not, the guard has already dropped
  the identifier and a consumed authorization is accepted a second time.
\<close>

theorem straddling_expiry_accepted_again:
  assumes "authorized ed_verify v now auth r router"
    and "used (ac_jti (ra_claims auth)) = Some (time_utc (time_of_milli (ac_exp (ra_claims auth))))"
    and "\<not> time_before now' (time_of_milli (ac_exp (ra_claims auth)))"
  shows "fst (VerifyAndConsume ed_verify v (Some (memory_consume False now')) False now auth r router (Some used)) = None"
  using assms(2,3)
  by (simp add: VerifyAndConsume_authorized [OF assms(1)] memory_consume_def Let_def map_keep_def)

theorem straddling_expiry_accepted_again_witness:
  "\<exists>auth. fst (VerifyAndConsume (\<lambda>_ _ _. True) sample_verifier (Some (memory_consume False (time_of_milli 5000)))
     False (time_of_milli 4999) auth sample_auth_route ''b'' (Some [sample_jti \<mapsto> time_utc (time_of_milli 5000)])) = None"
proof -
  let ?a = "\<lparr>ra_key_id = ''k'', ra_claims = sample_claims, ra_signature = base64url_encode (replicate 64 7)\<rparr>"
  have r: "Route_Validate (sample_route\<lparr>rt_expires := time_of_milli 5000\<rparr>) (time_utc (time_of_milli 4999)) = Ok ()"
    by (rule sample_route_valid) (simp_all add: time_of_milli_def unix_epoch_ns_def)
  have "authorized (\<lambda>_ _ _. True) sample_verifier (time_of_milli 4999) ?a sample_auth_route ''b''"
    using sample_message [of "base64url_encode (replicate 64 7)"] r
    by (simp add: authorized_def sample_verifier_def graph_char_def trim_space_graph sample_claims_sel sample_auth_route_def)
  from straddling_expiry_accepted_again [OF this] show ?thesis
    by (intro exI [of _ ?a]) (simp add: sample_claims_sel)
qed

end
