(* ===== verification/Forwarder.thy ===== *)
theory Forwarder
  imports Route_Control Route_Auth
begin

text \<open>
  The router's forwarding runtime (\<open>internal/mesh/forwarder.go\<close>, \<open>forwarder_snapshot.go\<close>):
  preparing an A to B to C route, the route-open handshake, the opaque copy, the session
  count and the saturating counters.  Links, the authorizer, the dialer, the clock and the
  context answer through parameters; what the runtime does to the outside is recorded in a
  list of effects, in order.
\<close>

section \<open>Data\<close>

record link =
  ln_local :: device_id
  ln_remote :: device_id
  ln_transport :: transport_name

record forwarder =
  fw_local_id :: device_id
  fw_policy :: router_policy
  fw_active :: int
  fw_bytes :: u64
  fw_sessions :: u64

datatype forward_error =
    FwCancelled
  | FwRouterID
  | FwPolicy mesh_error
  | FwRoutingDisabled
  | FwAuthorizationRequired
  | FwDialerRequired
  | FwLinkIdentity
  | FwInvalidRoute mesh_error
  | FwRouteNotOneHop
  | FwRouterMismatch
  | FwRouteNotAllowed
  | FwRouterBusy
  | FwForwardDenied
  | FwDial nat
  | FwRequest rc_error
  | FwRejectionWrite forward_error
  | FwAcceptanceWrite
  | FwStream nat
  | FwUnavailable

record route_open_request =
  ror_route :: route
  ror_authorization :: route_authorization

datatype fw_effect =
    FxAuthorize forward_request bool
  | FxDial route_hop
  | FxCloseOutgoing
  | FxCloseIncoming
  | FxRespond route_open_response bool
  | FxTunnel

datatype dial_result =
    DialError nat
  | DialNil
  | DialLink link

text \<open>
  The answers of the outside while a route is prepared: the context at entry, after the
  authorizer, after the dialer and at the end, the clock, and the dialer.
\<close>

record prepare_env =
  pe_cancelled :: bool
  pe_now :: gotime
  pe_ctx_auth :: bool
  pe_ctx_dial :: bool
  pe_ctx_end :: bool
  pe_dial :: "(route_hop \<Rightarrow> dial_result) option"

type_synonym 's authorizer = "forward_request \<Rightarrow> 's \<Rightarrow> authorize_error option \<times> 's"

section \<open>The session count and the counters\<close>

definition acquireSession :: "int \<Rightarrow> forwarder \<Rightarrow> forwarder option" where
  "acquireSession maxSessions f =
     (if 0 < maxSessions \<and> maxSessions \<le> fw_active f then None
      else Some (f\<lparr>fw_active := fw_active f + 1\<rparr>))"

definition releaseSession :: "forwarder \<Rightarrow> forwarder" where
  "releaseSession f = f\<lparr>fw_active := fw_active f - 1\<rparr>"

definition saturatingAddUint64 :: "u64 \<Rightarrow> u64 \<Rightarrow> u64" where
  "saturatingAddUint64 left right = (if - 1 - left < right then - 1 else left + right)"

definition beginForwarding :: "forwarder \<Rightarrow> forwarder" where
  "beginForwarding f = (if fw_sessions f \<noteq> - 1 then f\<lparr>fw_sessions := fw_sessions f + 1\<rparr> else f)"

record forward_result =
  fr_to_destination :: int
  fr_to_source :: int

definition recordForwardResult :: "forward_result \<Rightarrow> forwarder \<Rightarrow> forwarder" where
  "recordForwardResult result f =
     (let bytes1 = (if 0 < fr_to_destination result then of_int (fr_to_destination result) else 0);
          bytes2 = (if 0 < fr_to_source result
                    then saturatingAddUint64 bytes1 (of_int (fr_to_source result)) else bytes1)
      in f\<lparr>fw_bytes := saturatingAddUint64 (fw_bytes f) bytes2\<rparr>)"

definition SetPolicy :: "router_policy \<Rightarrow> forwarder option \<Rightarrow> (forward_error, forwarder) result" where
  "SetPolicy policy f0 =
     (case f0 of
        None \<Rightarrow> Err FwUnavailable
      | Some f \<Rightarrow>
          (case RouterPolicy_Validate policy of
             Err e \<Rightarrow> Err (FwPolicy e)
           | Ok _ \<Rightarrow> Ok (f\<lparr>fw_policy := policy\<rparr>)))"

definition zero_policy :: router_policy where
  "zero_policy = \<lparr>rp_enabled = False, rp_trusted_only = False, rp_organization_only = False, rp_public = False,
     rp_max_sessions = 0, rp_max_bandwidth = 0, rp_allow_battery = False, rp_allow_metered = False, rp_lan_only = False\<rparr>"

definition policySnapshot :: "forwarder option \<Rightarrow> router_policy" where
  "policySnapshot f0 = (case f0 of None \<Rightarrow> zero_policy | Some f \<Rightarrow> fw_policy f)"

record forwarder_stats =
  fst_active :: int
  fst_bytes :: u64
  fst_sessions :: u64

definition Snapshot :: "forwarder option \<Rightarrow> router_policy \<times> forwarder_stats" where
  "Snapshot f0 =
     (case f0 of
        None \<Rightarrow> (zero_policy, \<lparr>fst_active = 0, fst_bytes = 0, fst_sessions = 0\<rparr>)
      | Some f \<Rightarrow>
          (fw_policy f, \<lparr>fst_active = fw_active f, fst_bytes = fw_bytes f, fst_sessions = fw_sessions f\<rparr>))"

section \<open>Preparing a route\<close>

text \<open>The checks that precede the acquisition of a session.\<close>

definition forward_checks ::
  "prepare_env \<Rightarrow> bool \<Rightarrow> device_id \<Rightarrow> router_policy \<Rightarrow> route \<Rightarrow> link option \<Rightarrow>
     (forward_error, route_hop \<times> route_hop) result" where
  "forward_checks env has_authorizer localID policy r incoming =
     (if pe_cancelled env then Err FwCancelled
      else if blank localID then Err FwRouterID
      else (case RouterPolicy_Validate policy of
          Err e \<Rightarrow> Err (FwPolicy e)
        | Ok _ \<Rightarrow>
            if \<not> rp_enabled policy then Err FwRoutingDisabled
            else if \<not> has_authorizer then Err FwAuthorizationRequired
            else if pe_dial env = None then Err FwDialerRequired
            else (case incoming of
                None \<Rightarrow> Err FwLinkIdentity
              | Some inc \<Rightarrow>
                  (case Route_Validate r (pe_now env) of
                     Err e \<Rightarrow> Err (FwInvalidRoute e)
                   | Ok _ \<Rightarrow>
                       if length (rt_hops r) \<noteq> 2 then Err FwRouteNotOneHop
                       else
                         let first = rt_hops r ! 0; snd_hop = rt_hops r ! 1 in
                         if hop_to first \<noteq> localID \<or> hop_from snd_hop \<noteq> localID then Err FwRouterMismatch
                         else if ln_local inc \<noteq> localID \<or> ln_remote inc \<noteq> rt_source r \<or>
                                 ln_transport inc \<noteq> hop_transport first then Err FwLinkIdentity
                         else if rp_lan_only policy \<and>
                                 (hop_transport first \<noteq> TransportLAN \<or> hop_transport snd_hop \<noteq> TransportLAN)
                         then Err FwRouteNotAllowed
                         else Ok (first, snd_hop)))))"

text \<open>
  What follows the acquisition: authorization, dialing and the check of the new link.  A
  failure closes what was opened; the caller releases the session.
\<close>

definition forward_setup ::
  "prepare_env \<Rightarrow> 's authorizer \<Rightarrow> device_id \<Rightarrow> router_policy \<Rightarrow> route \<Rightarrow> route_authorization \<Rightarrow> route_hop \<Rightarrow> 's \<Rightarrow>
     (forward_error, link) result \<times> 's \<times> fw_effect list" where
  "forward_setup env authorize localID policy r authorization snd_hop s =
     (let request = \<lparr>fq_router = localID, fq_route = cloneAuthorizationRoute r,
            fq_authorization = cloneRouteAuthorization authorization, fq_policy = policy\<rparr>
      in case authorize request s of
        (Some e, s1) \<Rightarrow>
          (Err (if pe_ctx_auth env then FwCancelled else FwForwardDenied), s1, [FxAuthorize request False])
      | (None, s1) \<Rightarrow>
          if pe_ctx_auth env then (Err FwCancelled, s1, [FxAuthorize request True])
          else
            (case (case pe_dial env of None \<Rightarrow> DialNil | Some dial \<Rightarrow> dial snd_hop) of
               DialError e \<Rightarrow>
                 (Err (if pe_ctx_dial env then FwCancelled else FwDial e), s1,
                  [FxAuthorize request True, FxDial snd_hop])
             | DialNil \<Rightarrow> (Err FwLinkIdentity, s1, [FxAuthorize request True, FxDial snd_hop])
             | DialLink outgoing \<Rightarrow>
                 if ln_local outgoing \<noteq> localID \<or> ln_remote outgoing \<noteq> rt_destination r \<or>
                    ln_transport outgoing \<noteq> hop_transport snd_hop
                 then (Err FwLinkIdentity, s1,
                       [FxAuthorize request True, FxDial snd_hop, FxCloseOutgoing])
                 else if pe_ctx_end env
                 then (Err FwCancelled, s1, [FxAuthorize request True, FxDial snd_hop, FxCloseOutgoing])
                 else (Ok outgoing, s1, [FxAuthorize request True, FxDial snd_hop])))"

definition prepareForward ::
  "prepare_env \<Rightarrow> 's authorizer option \<Rightarrow> route \<Rightarrow> route_authorization \<Rightarrow> link option \<Rightarrow> forwarder \<times> 's \<Rightarrow>
     (forward_error, link) result \<times> (forwarder \<times> 's) \<times> fw_effect list" where
  "prepareForward env authorizer r authorization incoming fs =
     (case fs of (f, s) \<Rightarrow>
        let policy = policySnapshot (Some f) in
        (case forward_checks env (authorizer \<noteq> None) (fw_local_id f) policy r incoming of
           Err e \<Rightarrow> (Err e, (f, s), [])
         | Ok (first, snd_hop) \<Rightarrow>
             (case acquireSession (rp_max_sessions policy) f of
                None \<Rightarrow> (Err FwRouterBusy, (f, s), [])
              | Some f1 \<Rightarrow>
                  (case authorizer of
                     None \<Rightarrow> (Err FwAuthorizationRequired, (f, s), [])
                   | Some authorize \<Rightarrow>
                       (case forward_setup env authorize (fw_local_id f) policy r authorization snd_hop s of
                          (Err e, s1, es) \<Rightarrow> (Err e, (releaseSession f1, s1), es)
                        | (Ok outgoing, s1, es) \<Rightarrow> (Ok outgoing, (f1, s1), es))))))"

text \<open>\<open>preparedForward.close\<close>.\<close>

definition prepared_close :: "forwarder \<Rightarrow> forwarder \<times> fw_effect list" where
  "prepared_close f = (releaseSession f, [FxCloseOutgoing])"

section \<open>The opaque tunnel\<close>

datatype copy_error =
    CopyEOF
  | CopyClosedPipe
  | CopyNetClosed
  | CopyOther nat

record copy_outcome =
  co_to_destination :: bool
  co_bytes :: int
  co_err :: "copy_error option"

definition benignCopyError :: "copy_error option \<Rightarrow> bool" where
  "benignCopyError e \<longleftrightarrow> e \<in> {None, Some CopyEOF, Some CopyClosedPipe, Some CopyNetClosed}"

text \<open>
  The collecting loop of \<open>copyOpaque\<close>: the two outcomes in the order they arrive.  Both links
  are closed as soon as one direction ends or the context does.
\<close>

fun copy_collect :: "copy_outcome list \<Rightarrow> forward_result \<Rightarrow> copy_error option \<Rightarrow> forward_result \<times> copy_error option" where
  "copy_collect [] result firstErr = (result, firstErr)"
| "copy_collect (outcome # os) result firstErr =
     copy_collect os
       (if co_to_destination outcome
        then result\<lparr>fr_to_destination := fr_to_destination result + co_bytes outcome\<rparr>
        else result\<lparr>fr_to_source := fr_to_source result + co_bytes outcome\<rparr>)
       (if firstErr = None \<and> \<not> benignCopyError (co_err outcome) then co_err outcome else firstErr)"

definition copyOpaque ::
  "bool \<Rightarrow> copy_outcome \<times> copy_outcome \<Rightarrow> forward_error option \<times> forward_result \<times> fw_effect list" where
  "copyOpaque ctx_err outcomes =
     (case copy_collect [fst outcomes, snd outcomes] \<lparr>fr_to_destination = 0, fr_to_source = 0\<rparr> None of
        (result, firstErr) \<Rightarrow>
          (if ctx_err then Some FwCancelled
           else (case firstErr of
               None \<Rightarrow> None
             | Some (CopyOther n) \<Rightarrow> Some (FwStream n)
             | Some _ \<Rightarrow> Some (FwStream 0)),
           result, [FxTunnel, FxCloseIncoming, FxCloseOutgoing]))"

section \<open>Serving a route\<close>

definition routeOpenCodeForForwardError :: "forward_error \<Rightarrow> route_open_code" where
  "routeOpenCodeForForwardError e =
     (case e of
        FwRouterBusy \<Rightarrow> RouteOpenCodeBusy
      | FwInvalidRoute _ \<Rightarrow> RouteOpenCodeInvalidRequest
      | FwRouteNotOneHop \<Rightarrow> RouteOpenCodeInvalidRequest
      | FwRouterMismatch \<Rightarrow> RouteOpenCodeInvalidRequest
      | FwRoutingDisabled \<Rightarrow> RouteOpenCodeDenied
      | FwForwardDenied \<Rightarrow> RouteOpenCodeDenied
      | FwRouteNotAllowed \<Rightarrow> RouteOpenCodeDenied
      | FwLinkIdentity \<Rightarrow> RouteOpenCodeDenied
      | _ \<Rightarrow> RouteOpenCodeUnavailable)"

text \<open>
  Reading the request and writing a response are bounded by a timeout; its expiry closes the
  link and wins over the result.  The bytes of a response may have left even when the write is
  reported as failed, so the effect records the attempt and whether it completed.
\<close>

datatype write_outcome = WriteDone | WriteFailed | WriteExpired

definition readRouteOpenRequestWithContext ::
  "bool \<Rightarrow> (byte list \<Rightarrow> (nat, route_open_request \<times> byte list) result) \<Rightarrow> (byte list \<Rightarrow> json_trailing) \<Rightarrow>
   reader \<Rightarrow> (forward_error, route_open_request) result \<times> fw_effect list" where
  "readRouteOpenRequestWithContext timed_out dec trail rd =
     (if timed_out then (Err FwCancelled, [FxCloseIncoming])
      else (case ReadRouteOpenRequest dec trail rd of
          Err e \<Rightarrow> (Err (FwRequest e), [])
        | Ok (req, _) \<Rightarrow> (Ok req, [])))"

definition writeRouteOpenResponseWithContext ::
  "(route_open_response \<Rightarrow> write_outcome) \<Rightarrow> route_open_response \<Rightarrow> bool \<times> fw_effect list" where
  "writeRouteOpenResponseWithContext write resp =
     (let sent = (if response_validate resp = Ok () then [FxRespond resp (write resp = WriteDone)] else [])
      in if write resp = WriteExpired then (False, sent @ [FxCloseIncoming])
         else (response_validate resp = Ok () \<and> write resp = WriteDone, sent))"

record serve_env =
  se_prepare :: prepare_env
  se_read_timeout :: bool
  se_ctx_read :: bool
  se_respond :: "route_open_response \<Rightarrow> write_outcome"
  se_copy :: "copy_outcome \<times> copy_outcome"
  se_copy_ctx :: bool

definition rejection :: "route_open_code \<Rightarrow> route_open_response" where
  "rejection code = \<lparr>ro_accepted = False, ro_code = code\<rparr>"

definition acceptance :: route_open_response where
  "acceptance = \<lparr>ro_accepted = True, ro_code = []\<rparr>"

definition ServeRouteOpen ::
  "serve_env \<Rightarrow> (byte list \<Rightarrow> (nat, route_open_request \<times> byte list) result) \<Rightarrow> (byte list \<Rightarrow> json_trailing) \<Rightarrow>
   's authorizer option \<Rightarrow> (link \<times> reader) option \<Rightarrow> forwarder \<times> 's \<Rightarrow>
     forward_error option \<times> forward_result \<times> (forwarder \<times> 's) \<times> fw_effect list" where
  "ServeRouteOpen env dec trail authorizer incoming0 fs =
     (let none = \<lparr>fr_to_destination = 0, fr_to_source = 0\<rparr> in
      case incoming0 of
        None \<Rightarrow> (Some FwLinkIdentity, none, fs, [])
      | Some (incoming, rd) \<Rightarrow>
          (case readRouteOpenRequestWithContext (se_read_timeout env) dec trail rd of
             (Err e, es0) \<Rightarrow>
               if se_ctx_read env then (Some FwCancelled, none, fs, es0 @ [FxCloseIncoming])
               else (case writeRouteOpenResponseWithContext (se_respond env) (rejection RouteOpenCodeInvalidRequest) of
                   (_, es) \<Rightarrow> (Some e, none, fs, es0 @ es @ [FxCloseIncoming]))
           | (Ok req, _) \<Rightarrow>
               (case prepareForward (se_prepare env) authorizer (ror_route req) (ror_authorization req)
                   (Some incoming) fs of
                  (Err e, fs1, es1) \<Rightarrow>
                    (case writeRouteOpenResponseWithContext (se_respond env)
                        (rejection (routeOpenCodeForForwardError e)) of
                       (ok, es2) \<Rightarrow>
                         (Some (if ok then e else FwRejectionWrite e), none, fs1, es1 @ es2 @ [FxCloseIncoming]))
                | (Ok outgoing, (f1, s1), es1) \<Rightarrow>
                    (case writeRouteOpenResponseWithContext (se_respond env) acceptance of
                       (False, es2) \<Rightarrow>
                         (Some FwAcceptanceWrite, none, (releaseSession f1, s1),
                          es1 @ es2 @ snd (prepared_close f1) @ [FxCloseIncoming])
                     | (True, es2) \<Rightarrow>
                         (case copyOpaque (se_copy_ctx env) (se_copy env) of
                            (err, result, es3) \<Rightarrow>
                              let f2 = recordForwardResult result (beginForwarding f1) in
                              (err, result, (fst (prepared_close f2), s1),
                               es1 @ es2 @ es3 @ snd (prepared_close f2) @ [FxCloseIncoming]))))))"

text \<open>\<open>Forward\<close> is the same without the handshake and with the zero authorization.\<close>

definition zero_authorization :: route_authorization where
  "zero_authorization =
     \<lparr>ra_key_id = [],
      ra_claims = \<lparr>ac_version = 0, ac_issuer = [], ac_audience = [], ac_permission = [], ac_jti = [],
        ac_router = [],
        ac_route = \<lparr>rt_id = [], rt_source = [], rt_destination = [], rt_hops = [],
          rt_expires = \<lparr>t_ns = 0, t_loc = 0\<rparr>\<rparr>,
        ac_iat = 0, ac_exp = 0\<rparr>,
      ra_signature = []\<rparr>"

definition Forward ::
  "serve_env \<Rightarrow> 's authorizer option \<Rightarrow> route \<Rightarrow> link option \<Rightarrow> forwarder \<times> 's \<Rightarrow>
     forward_error option \<times> forward_result \<times> (forwarder \<times> 's) \<times> fw_effect list" where
  "Forward env authorizer r incoming0 fs =
     (let none = \<lparr>fr_to_destination = 0, fr_to_source = 0\<rparr> in
      case incoming0 of
        None \<Rightarrow> (Some FwLinkIdentity, none, fs, [])
      | Some incoming \<Rightarrow>
          (case prepareForward (se_prepare env) authorizer r zero_authorization (Some incoming) fs of
             (Err e, fs1, es1) \<Rightarrow> (Some e, none, fs1, es1 @ [FxCloseIncoming])
           | (Ok outgoing, (f1, s1), es1) \<Rightarrow>
               (case copyOpaque (se_copy_ctx env) (se_copy env) of
                  (err, result, es2) \<Rightarrow>
                    let f2 = recordForwardResult result (beginForwarding f1) in
                    (err, result, (fst (prepared_close f2), s1),
                     es1 @ es2 @ snd (prepared_close f2) @ [FxCloseIncoming]))))"


section \<open>What preparation guarantees\<close>

lemma forward_checks_passed:
  assumes "forward_checks env b localID policy r inc0 = Ok (h1, h2)"
  shows "\<not> pe_cancelled env \<and> \<not> blank localID \<and> RouterPolicy_Validate policy = Ok () \<and> rp_enabled policy \<and> b \<and>
     pe_dial env \<noteq> None \<and> Route_Validate r (pe_now env) = Ok () \<and> length (rt_hops r) = 2 \<and> (\<exists>inc. inc0 = Some inc)"
  using assms by (simp add: forward_checks_def Let_def split: sum.splits option.splits if_splits)

lemma forward_checks_Ok:
  "forward_checks env b localID policy r inc0 = Ok (h1, h2) \<longleftrightarrow>
     \<not> pe_cancelled env \<and> \<not> blank localID \<and> RouterPolicy_Validate policy = Ok () \<and> rp_enabled policy \<and> b \<and>
     pe_dial env \<noteq> None \<and> Route_Validate r (pe_now env) = Ok () \<and> rt_hops r = [h1, h2] \<and>
     hop_to h1 = localID \<and> hop_from h2 = localID \<and>
     (\<exists>inc. inc0 = Some inc \<and> ln_local inc = localID \<and> ln_remote inc = rt_source r \<and>
        ln_transport inc = hop_transport h1) \<and>
     (rp_lan_only policy \<longrightarrow> hop_transport h1 = TransportLAN \<and> hop_transport h2 = TransportLAN)" (is "?l = ?r")
proof
  assume l: ?l
  note p = forward_checks_passed [OF l]
  then obtain inc k1 k2 where c: "inc0 = Some inc" "rt_hops r = [k1, k2]"
    by (auto simp: length_Suc_conv numeral_2_eq_2)
  from l p c show ?r by (simp add: forward_checks_def Let_def split: if_splits)
next
  assume ?r
  then show ?l by (auto simp: forward_checks_def Let_def)
qed

lemma forward_setup_Ok:
  "forward_setup env authorize localID policy r au h2 s = (Ok outgoing, s1, es) \<longleftrightarrow>
     authorize \<lparr>fq_router = localID, fq_route = r, fq_authorization = au, fq_policy = policy\<rparr> s = (None, s1) \<and>
     \<not> pe_ctx_auth env \<and> \<not> pe_ctx_end env \<and>
     (\<exists>dial. pe_dial env = Some dial \<and> dial h2 = DialLink outgoing) \<and>
     ln_local outgoing = localID \<and> ln_remote outgoing = rt_destination r \<and>
     ln_transport outgoing = hop_transport h2 \<and>
     es = [FxAuthorize \<lparr>fq_router = localID, fq_route = r, fq_authorization = au, fq_policy = policy\<rparr> True, FxDial h2]"
  by (auto simp: forward_setup_def Let_def split: prod.splits option.splits if_splits dial_result.splits)

lemma prepareForward_Ok:
  assumes "prepareForward env (Some authorize) r au inc (f, s) = (Ok outgoing, (f1, s1), es)"
  obtains h1 h2 where "forward_checks env True (fw_local_id f) (fw_policy f) r inc = Ok (h1, h2)"
    and "acquireSession (rp_max_sessions (fw_policy f)) f = Some f1"
    and "forward_setup env authorize (fw_local_id f) (fw_policy f) r au h2 s = (Ok outgoing, s1, es)"
  using assms
  by (auto simp: prepareForward_def Let_def policySnapshot_def split: sum.splits option.splits prod.splits)

text \<open>A failed preparation leaves the session count as it was and closes the link it dialed.\<close>

definition dialed_link :: "prepare_env \<Rightarrow> fw_effect list \<Rightarrow> bool" where
  "dialed_link env es \<longleftrightarrow>
     (\<exists>h dial l. FxDial h \<in> set es \<and> pe_dial env = Some dial \<and> dial h = DialLink l)"

lemma forward_setup_Err:
  assumes "forward_setup env authorize localID policy r au h2 s = (Err e, s1, es)"
  shows "dialed_link env es \<longrightarrow> FxCloseOutgoing \<in> set es" and "\<And>resp ok. FxRespond resp ok \<notin> set es"
  using assms
  by (auto simp: forward_setup_def Let_def dialed_link_def
      split: prod.splits option.splits if_splits dial_result.splits)

lemma acquire_release: "acquireSession m f = Some f1 \<Longrightarrow> releaseSession f1 = f"
  by (auto simp: acquireSession_def releaseSession_def split: if_splits)

lemma acquire_active: "acquireSession m f = Some f1 \<Longrightarrow> fw_active f1 = fw_active f + 1"
  by (auto simp: acquireSession_def split: if_splits)

lemma prepareForward_Err_cases:
  assumes "prepareForward env authorizer r au inc (f, s) = (Err e, (f1, s1), es)"
  obtains "f1 = f" "es = []"
  | authorize localID policy h2 f' where "f1 = releaseSession f'"
      "acquireSession (rp_max_sessions (fw_policy f)) f = Some f'"
      "forward_setup env authorize localID policy r au h2 s = (Err e, s1, es)"
  using assms
  by (auto simp: prepareForward_def Let_def policySnapshot_def split: sum.splits option.splits prod.splits)

lemma prepareForward_Err:
  assumes "prepareForward env authorizer r au inc (f, s) = (Err e, (f1, s1), es)"
  shows "f1 = f \<and> (dialed_link env es \<longrightarrow> FxCloseOutgoing \<in> set es) \<and> FxRespond resp ok \<notin> set es"
  using assms
proof (cases rule: prepareForward_Err_cases)
  case 1
  then show ?thesis by (simp add: dialed_link_def)
next
  case (2 authorize localID policy h2 f')
  with forward_setup_Err [OF 2(3)] acquire_release [OF 2(2)] show ?thesis by simp
qed

section \<open>Counting up to the maximum\<close>

lemma saturatingAddUint64_unat:
  "unat (saturatingAddUint64 a b) = min (unat a + unat b) (2 ^ 64 - 1)"
proof -
  have m: "unat (- 1 - a) = 2 ^ 64 - 1 - unat a"
    by (subst unat_sub) (simp_all add: unsigned_minus_1_eq_mask mask_eq_exp_minus_1)
  have lt: "unat a < 18446744073709551616" using unsigned_less [of a] by simp
  show ?thesis
  proof (cases "unat a + unat b < 2 ^ 64")
    case True
    then show ?thesis
      using m lt by (auto simp: saturatingAddUint64_def word_less_nat_alt unat_add_u64)
  next
    case False
    then show ?thesis
      using m lt by (auto simp: saturatingAddUint64_def word_less_nat_alt unsigned_minus_1_eq_mask mask_eq_exp_minus_1)
  qed
qed

lemma unat_of_int_nonneg: "0 \<le> i \<Longrightarrow> i < 2 ^ 63 \<Longrightarrow> unat (of_int i :: u64) = nat i"
  by (simp add: unat_eq_nat_uint uint_word_of_int_eq take_bit_int_eq_self)

lemma recordForwardResult_bytes:
  assumes "0 \<le> fr_to_destination r" "fr_to_destination r < 2 ^ 63" "0 \<le> fr_to_source r" "fr_to_source r < 2 ^ 63"
  shows "unat (fw_bytes (recordForwardResult r f)) =
     min (unat (fw_bytes f) + nat (fr_to_destination r + fr_to_source r)) (2 ^ 64 - 1)"
proof -
  have z: "unat (if 0 < i then of_int i else 0 :: u64) = nat i" if "0 \<le> i" "i < 2 ^ 63" for i
    using unat_of_int_nonneg [OF that] by simp
  show ?thesis
    using z [OF assms(1,2)] unat_of_int_nonneg [OF assms(3,4)] assms
    by (auto simp: recordForwardResult_def Let_def saturatingAddUint64_unat min_def nat_add_distrib)
qed

section \<open>One served route\<close>

lemma write_response_effects:
  "writeRouteOpenResponseWithContext w resp = (ok, es) \<Longrightarrow> FxRespond r b \<in> set es \<Longrightarrow>
     r = resp \<and> es \<noteq> [] \<and> hd es = FxRespond resp b \<and> FxDial h \<notin> set es"
  by (auto simp: writeRouteOpenResponseWithContext_def Let_def split: if_splits)

lemma rejection_not_acceptance [simp]: "acceptance \<noteq> rejection c" "rejection c \<noteq> acceptance"
  by (simp_all add: rejection_def acceptance_def)

lemma acceptance_valid [simp]: "response_validate acceptance = Ok ()"
  by (simp add: response_validate_def acceptance_def)

lemma write_acceptance_effects:
  "writeRouteOpenResponseWithContext w acceptance = (ok, es) \<Longrightarrow>
     es = FxRespond acceptance (w acceptance = WriteDone) # tl es \<and> set (tl es) \<subseteq> {FxCloseIncoming}"
  by (auto simp: writeRouteOpenResponseWithContext_def Let_def split: if_splits)

lemma write_rejection_effects:
  "writeRouteOpenResponseWithContext w (rejection c) = (ok, es) \<Longrightarrow> FxRespond acceptance b \<notin> set es"
  by (auto simp: writeRouteOpenResponseWithContext_def Let_def split: if_splits)

lemma read_request_effects:
  "readRouteOpenRequestWithContext t dec trail rd = (res, es) \<Longrightarrow> set es \<subseteq> {FxCloseIncoming}"
  by (auto simp: readRouteOpenRequestWithContext_def split: if_splits sum.splits)

lemma ServeRouteOpen_cases:
  assumes "ServeRouteOpen env dec trail authorizer (Some (incoming, rd)) (f, s) = (e, result, (f', s'), es)"
  obtains
    (unread) err es0 es1 where "readRouteOpenRequestWithContext (se_read_timeout env) dec trail rd = (Err err, es0)"
      "f' = f" "s' = s" "es = es0 @ es1 @ [FxCloseIncoming]"
      "es1 = [] \<or> (\<exists>c ok. writeRouteOpenResponseWithContext (se_respond env) (rejection c) = (ok, es1))"
  | (refused) req err es0 es1 es2 c ok where
      "readRouteOpenRequestWithContext (se_read_timeout env) dec trail rd = (Ok req, es0)"
      "prepareForward (se_prepare env) authorizer (ror_route req) (ror_authorization req) (Some incoming) (f, s) =
         (Err err, (f', s'), es1)"
      "writeRouteOpenResponseWithContext (se_respond env) (rejection c) = (ok, es2)"
      "es = es1 @ es2 @ [FxCloseIncoming]"
  | (unanswered) req outgoing f1 es0 es1 es2 where
      "readRouteOpenRequestWithContext (se_read_timeout env) dec trail rd = (Ok req, es0)"
      "prepareForward (se_prepare env) authorizer (ror_route req) (ror_authorization req) (Some incoming) (f, s) =
         (Ok outgoing, (f1, s'), es1)"
      "writeRouteOpenResponseWithContext (se_respond env) acceptance = (False, es2)"
      "f' = releaseSession f1" "es = es1 @ es2 @ [FxCloseOutgoing, FxCloseIncoming]"
  | (tunnelled) req outgoing f1 es0 es1 es2 es3 where
      "readRouteOpenRequestWithContext (se_read_timeout env) dec trail rd = (Ok req, es0)"
      "prepareForward (se_prepare env) authorizer (ror_route req) (ror_authorization req) (Some incoming) (f, s) =
         (Ok outgoing, (f1, s'), es1)"
      "writeRouteOpenResponseWithContext (se_respond env) acceptance = (True, es2)"
      "copyOpaque (se_copy_ctx env) (se_copy env) = (e, result, es3)"
      "f' = releaseSession (recordForwardResult result (beginForwarding f1))"
      "es = es1 @ es2 @ es3 @ [FxCloseOutgoing, FxCloseIncoming]"
proof (cases "readRouteOpenRequestWithContext (se_read_timeout env) dec trail rd")
  case (Pair res es0)
  show ?thesis
  proof (cases res)
    case (Inl err)
    with assms Pair unread [of err es0] show ?thesis
      by (force simp: ServeRouteOpen_def Let_def split: if_splits prod.splits)
  next
    case (Inr req)
    obtain pres f1 s1 es1 where p: "prepareForward (se_prepare env) authorizer (ror_route req) (ror_authorization req)
        (Some incoming) (f, s) = (pres, (f1, s1), es1)" by (metis prod.collapse)
    show ?thesis
    proof (cases pres)
      case (Inl err)
      obtain ok es2 where "writeRouteOpenResponseWithContext (se_respond env) (rejection (routeOpenCodeForForwardError err)) = (ok, es2)"
        by (metis prod.collapse)
      with assms Pair Inr Inl p refused show ?thesis by (simp add: ServeRouteOpen_def Let_def)
    next
      case (Inr outgoing)
      obtain ok es2 where w: "writeRouteOpenResponseWithContext (se_respond env) acceptance = (ok, es2)"
        by (metis prod.collapse)
      show ?thesis
      proof (cases ok)
        case True
        with assms Pair \<open>res = Inr req\<close> Inr p w tunnelled show ?thesis
          by (simp add: ServeRouteOpen_def Let_def prepared_close_def split: prod.splits)
      next
        case False
        with assms Pair \<open>res = Inr req\<close> Inr p w unanswered show ?thesis
          by (simp add: ServeRouteOpen_def Let_def prepared_close_def)
      qed
    qed
  qed
qed

lemma acceptance_from_preparation:
  assumes "ServeRouteOpen env dec trail (Some authorize) (Some (incoming, rd)) (f, s) = (e, result, (f', s'), es)"
    and "FxRespond acceptance b \<in> set es"
  obtains req outgoing f1 es1 rest where
    "readRouteOpenRequestWithContext (se_read_timeout env) dec trail rd = (Ok req, [])"
    "prepareForward (se_prepare env) (Some authorize) (ror_route req) (ror_authorization req) (Some incoming) (f, s) =
       (Ok outgoing, (f1, s'), es1)"
    "es = es1 @ FxRespond acceptance b # rest" "\<forall>r c. FxRespond r c \<notin> set rest"
  using assms(1)
proof (cases rule: ServeRouteOpen_cases)
  case (unread err es0 es1)
  then show ?thesis
    using assms(2) write_rejection_effects read_request_effects [OF unread(1)] by fastforce
next
  case (refused req err es0 es1 es2 c ok)
  then show ?thesis
    using assms(2) write_rejection_effects [OF refused(3)] prepareForward_Err [OF refused(2)] by auto
next
  case (unanswered req outgoing f1 es0 es1 es2)
  note w = write_acceptance_effects [OF unanswered(3)]
  obtain h1 h2 where su: "forward_setup (se_prepare env) authorize (fw_local_id f) (fw_policy f) (ror_route req)
     (ror_authorization req) h2 s = (Ok outgoing, s', es1)"
    using unanswered(2) by (rule prepareForward_Ok)
  have "b = (se_respond env acceptance = WriteDone)"
    using assms(2) w su unfolding unanswered(5) forward_setup_Ok by (auto elim: list.set_cases)
  then show ?thesis
    using that [of req outgoing f1 es1 "tl es2 @ [FxCloseOutgoing, FxCloseIncoming]"] unanswered w
    by (auto simp: readRouteOpenRequestWithContext_def split: if_splits sum.splits)
next
  case (tunnelled req outgoing f1 es0 es1 es2 es3)
  note w = write_acceptance_effects [OF tunnelled(3)]
  obtain h1 h2 where su: "forward_setup (se_prepare env) authorize (fw_local_id f) (fw_policy f) (ror_route req)
     (ror_authorization req) h2 s = (Ok outgoing, s', es1)"
    using tunnelled(2) by (rule prepareForward_Ok)
  have c: "es3 = [FxTunnel, FxCloseIncoming, FxCloseOutgoing]"
    using tunnelled(4) by (auto simp: copyOpaque_def split: prod.splits)
  have "b = (se_respond env acceptance = WriteDone)"
    using assms(2) w su unfolding tunnelled(6) forward_setup_Ok c by (auto elim: list.set_cases)
  then show ?thesis
    using that [of req outgoing f1 es1 "tl es2 @ es3 @ [FxCloseOutgoing, FxCloseIncoming]"] tunnelled w c
    by (auto simp: readRouteOpenRequestWithContext_def split: if_splits sum.splits)
qed

lemma acquire_below: "acquireSession m f = Some f1 \<Longrightarrow> 0 < m \<Longrightarrow> fw_active f < m"
  by (simp add: acquireSession_def split: if_splits)


text \<open>A router \<open>b\<close> between \<open>a\<close> and \<open>c\<close>, for the concrete runs below.\<close>

definition sample_prepare :: prepare_env where
  "sample_prepare = \<lparr>pe_cancelled = False, pe_now = \<lparr>t_ns = 1000, t_loc = 0\<rparr>, pe_ctx_auth = False, pe_ctx_dial = False,
     pe_ctx_end = False, pe_dial = Some (\<lambda>h. DialLink \<lparr>ln_local = ''b'', ln_remote = hop_to h, ln_transport = ''lan''\<rparr>)\<rparr>"

definition sample_serve :: serve_env where
  "sample_serve = \<lparr>se_prepare = sample_prepare, se_read_timeout = False, se_ctx_read = False, se_respond = (\<lambda>_. WriteDone),
     se_copy = (\<lparr>co_to_destination = True, co_bytes = 5, co_err = None\<rparr>, \<lparr>co_to_destination = False, co_bytes = 7, co_err = None\<rparr>),
     se_copy_ctx = False\<rparr>"

definition sample_forwarder :: forwarder where
  "sample_forwarder = \<lparr>fw_local_id = ''b'', fw_policy = DisabledRouterPolicy\<lparr>rp_enabled := True, rp_max_sessions := 1\<rparr>,
     fw_active = 0, fw_bytes = 0, fw_sessions = 0\<rparr>"

definition sample_incoming :: link where
  "sample_incoming = \<lparr>ln_local = ''b'', ln_remote = ''a'', ln_transport = ''lan''\<rparr>"

definition sample_open :: route_open_request where
  "sample_open = \<lparr>ror_route = sample_route, ror_authorization = zero_authorization\<rparr>"

definition sample_request_dec :: "byte list \<Rightarrow> (nat, route_open_request \<times> byte list) result" where
  "sample_request_dec p = (if p = [123, 125] then Ok (sample_open, []) else Err 0)"

definition sample_request_reader :: reader where
  "sample_request_reader = \<lparr>rd_data = rc_encode routeControlOpen [123, 125], rd_end = IoEOF\<rparr>"

lemma sample_request_read:
  "ReadRouteOpenRequest sample_request_dec (\<lambda>_. JsonEOF) sample_request_reader =
     Ok (sample_open, \<lparr>rd_data = [], rd_end = IoEOF\<rparr>)"
proof -
  have "readRouteControlFrame routeControlOpen sample_request_reader = Ok ([123, 125], \<lparr>rd_data = [], rd_end = IoEOF\<rparr>)"
    using readRouteControlFrame_encode [of "[123, 125]" sample_request_reader routeControlOpen "[]"]
    by (simp add: rc_valid_def MaxRouteControlPayload_def sample_request_reader_def)
  then show ?thesis
    by (simp add: ReadRouteOpenRequest_def decodeRouteControlJSON_def sample_request_dec_def)
qed

lemma sample_route_now: "Route_Validate sample_route (pe_now sample_prepare) = Ok ()"
  using sample_route_usable by (simp add: usable_def is_ok_iff sample_request_def sample_prepare_def)

lemma sample_prepared:
  "prepareForward sample_prepare (Some (\<lambda>_ n. (None, Suc n))) sample_route zero_authorization (Some sample_incoming)
     (sample_forwarder, 0) =
   (Ok \<lparr>ln_local = ''b'', ln_remote = ''c'', ln_transport = ''lan''\<rparr>, (sample_forwarder\<lparr>fw_active := 1\<rparr>, Suc 0),
    [FxAuthorize \<lparr>fq_router = ''b'', fq_route = sample_route, fq_authorization = zero_authorization,
       fq_policy = fw_policy sample_forwarder\<rparr> True, FxDial (rt_hops sample_route ! 1)])"
proof -
  have "forward_checks sample_prepare True ''b'' (fw_policy sample_forwarder) sample_route (Some sample_incoming) =
      Ok (rt_hops sample_route ! 0, rt_hops sample_route ! 1)"
    using sample_route_now
    by (simp add: forward_checks_Ok)
      (simp add: sample_prepare_def sample_forwarder_def sample_incoming_def sample_route_def graph_char_def
        RouterPolicy_Validate_def DisabledRouterPolicy_def TransportLAN_def)
  moreover have "acquireSession (rp_max_sessions (fw_policy sample_forwarder)) sample_forwarder =
      Some (sample_forwarder\<lparr>fw_active := 1\<rparr>)"
    by (simp add: acquireSession_def sample_forwarder_def)
  moreover have "forward_setup sample_prepare (\<lambda>_ n. (None, Suc n)) ''b'' (fw_policy sample_forwarder) sample_route
      zero_authorization (rt_hops sample_route ! 1) 0 =
     (Ok \<lparr>ln_local = ''b'', ln_remote = ''c'', ln_transport = ''lan''\<rparr>, Suc 0,
      [FxAuthorize \<lparr>fq_router = ''b'', fq_route = sample_route, fq_authorization = zero_authorization,
       fq_policy = fw_policy sample_forwarder\<rparr> True, FxDial (rt_hops sample_route ! 1)])"
    unfolding forward_setup_Ok by (simp add: sample_prepare_def sample_route_def)
  moreover have "fw_local_id sample_forwarder = ''b''" by (simp add: sample_forwarder_def)
  ultimately show ?thesis
    by (simp add: prepareForward_def policySnapshot_def Let_def)
qed

lemma sample_served:
  "\<exists>r fs es. ServeRouteOpen sample_serve sample_request_dec (\<lambda>_. JsonEOF) (Some (\<lambda>_ n. (None, Suc n)))
     (Some (sample_incoming, sample_request_reader)) (sample_forwarder, 0) = (None, r, fs, es) \<and>
     FxRespond acceptance True \<in> set es"
  using sample_prepared sample_request_read
  by (simp add: ServeRouteOpen_def Let_def readRouteOpenRequestWithContext_def writeRouteOpenResponseWithContext_def
      sample_serve_def sample_open_def copyOpaque_def benignCopyError_def)


section \<open>Nothing is kept after a route\<close>

lemma counters_keep [simp]:
  "fw_active (beginForwarding f) = fw_active f" "fw_active (recordForwardResult r f) = fw_active f"
  "fw_policy (beginForwarding f) = fw_policy f" "fw_policy (recordForwardResult r f) = fw_policy f"
  "fw_local_id (beginForwarding f) = fw_local_id f" "fw_local_id (recordForwardResult r f) = fw_local_id f"
  "fw_sessions (recordForwardResult r f) = fw_sessions f" "fw_bytes (beginForwarding f) = fw_bytes f"
  by (simp_all add: beginForwarding_def recordForwardResult_def Let_def)

lemma release_fields [simp]:
  "fw_policy (releaseSession f) = fw_policy f" "fw_local_id (releaseSession f) = fw_local_id f"
  "fw_active (releaseSession f) = fw_active f - 1" "fw_bytes (releaseSession f) = fw_bytes f"
  "fw_sessions (releaseSession f) = fw_sessions f"
  by (simp_all add: releaseSession_def)

lemma acquire_fields:
  "acquireSession m f = Some f1 \<Longrightarrow> fw_policy f1 = fw_policy f \<and> fw_local_id f1 = fw_local_id f \<and>
     fw_active f1 = fw_active f + 1 \<and> fw_bytes f1 = fw_bytes f \<and> fw_sessions f1 = fw_sessions f"
  by (auto simp: acquireSession_def split: if_splits)

lemma beginForwarding_sessions:
  "unat (fw_sessions (beginForwarding f)) = min (unat (fw_sessions f) + 1) (2 ^ 64 - 1)"
proof (cases "fw_sessions f = - 1")
  case True
  then show ?thesis by (simp add: beginForwarding_def unsigned_minus_1_eq_mask mask_eq_exp_minus_1)
next
  case False
  then have "unat (fw_sessions f) \<noteq> unat (- 1 :: u64)" by (simp only: word_unat_eq_iff [symmetric] not_False_eq_True)
  moreover have "unat (fw_sessions f) < 18446744073709551616" using unsigned_less [of "fw_sessions f"] by simp
  ultimately show ?thesis
    using False by (auto simp: beginForwarding_def unsigned_minus_1_eq_mask mask_eq_exp_minus_1 unat_add_u64)
qed

lemma prepareForward_no_tunnel:
  "prepareForward env authorizer r au inc (f, s) = (res, fs, es) \<Longrightarrow> FxTunnel \<notin> set es"
  by (auto simp: prepareForward_def forward_setup_def Let_def
      split: sum.splits option.splits prod.splits if_splits dial_result.splits)

lemma prepareForward_Some:
  "prepareForward env authorizer r au inc (f, s) = (Ok outgoing, fs, es) \<Longrightarrow>
     \<exists>authorize. authorizer = Some authorize"
  by (auto simp: prepareForward_def Let_def split: sum.splits option.splits prod.splits)

lemma prepared_fields:
  assumes "prepareForward env authorizer r au inc (f, s) = (Ok outgoing, (f1, s1), es)"
  shows "fw_policy f1 = fw_policy f \<and> fw_local_id f1 = fw_local_id f \<and> fw_active f1 = fw_active f + 1 \<and>
     fw_bytes f1 = fw_bytes f \<and> fw_sessions f1 = fw_sessions f"
proof -
  obtain authorize where "authorizer = Some authorize" using prepareForward_Some [OF assms] by blast
  with assms have "acquireSession (rp_max_sessions (fw_policy f)) f = Some f1" by (auto elim: prepareForward_Ok)
  then show ?thesis by (rule acquire_fields)
qed

lemma write_no_tunnel:
  "writeRouteOpenResponseWithContext w resp = (ok, es) \<Longrightarrow> FxTunnel \<notin> set es \<and> FxDial h \<notin> set es"
  by (auto simp: writeRouteOpenResponseWithContext_def Let_def split: if_splits)

lemma copyOpaque_effects:
  "copyOpaque c os = (e, r, es) \<Longrightarrow> es = [FxTunnel, FxCloseIncoming, FxCloseOutgoing]"
  by (auto simp: copyOpaque_def split: prod.splits)



section \<open>Concurrent routes\<close>

text \<open>
  Routes are served by concurrent goroutines and the policy is replaced while they run.  Each
  atomic step is one critical section of the forwarder's mutex: the policy snapshot that an
  operation keeps for its whole setup, the acquisition (or refusal) of a session, the counters,
  the release, and \<open>SetPolicy\<close>.  \<open>sys_policies\<close> records every policy the router ever had.
\<close>

datatype phase =
    PhSnapshot router_policy
  | PhHeld

record fw_system =
  sys_fw :: forwarder
  sys_phase :: "nat \<rightharpoonup> phase"
  sys_policies :: "router_policy list"

definition held :: "fw_system \<Rightarrow> nat set" where
  "held y = {i. sys_phase y i = Some PhHeld}"

inductive fw_step :: "fw_system \<Rightarrow> fw_system \<Rightarrow> bool" where
  snapshot: "sys_phase y i = None \<Longrightarrow>
     fw_step y (y\<lparr>sys_phase := (sys_phase y)(i \<mapsto> PhSnapshot (policySnapshot (Some (sys_fw y))))\<rparr>)"
| rejected: "sys_phase y i = Some (PhSnapshot p) \<Longrightarrow>
     forward_checks env b (fw_local_id (sys_fw y)) p r inc = Err e \<Longrightarrow>
     fw_step y (y\<lparr>sys_phase := (sys_phase y)(i := None)\<rparr>)"
| busy: "sys_phase y i = Some (PhSnapshot p) \<Longrightarrow> acquireSession (rp_max_sessions p) (sys_fw y) = None \<Longrightarrow>
     fw_step y (y\<lparr>sys_phase := (sys_phase y)(i := None)\<rparr>)"
| acquired: "sys_phase y i = Some (PhSnapshot p) \<Longrightarrow>
     forward_checks env b (fw_local_id (sys_fw y)) p r inc = Ok hs \<Longrightarrow>
     acquireSession (rp_max_sessions p) (sys_fw y) = Some f' \<Longrightarrow>
     fw_step y (y\<lparr>sys_fw := f', sys_phase := (sys_phase y)(i \<mapsto> PhHeld)\<rparr>)"
| forwarding: "sys_phase y i = Some PhHeld \<Longrightarrow> fw_step y (y\<lparr>sys_fw := beginForwarding (sys_fw y)\<rparr>)"
| counted: "sys_phase y i = Some PhHeld \<Longrightarrow> fw_step y (y\<lparr>sys_fw := recordForwardResult res (sys_fw y)\<rparr>)"
| released: "sys_phase y i = Some PhHeld \<Longrightarrow>
     fw_step y (y\<lparr>sys_fw := releaseSession (sys_fw y), sys_phase := (sys_phase y)(i := None)\<rparr>)"
| policy: "SetPolicy p (Some (sys_fw y)) = Ok f' \<Longrightarrow>
     fw_step y (y\<lparr>sys_fw := f', sys_policies := p # sys_policies y\<rparr>)"

inductive fw_reach :: "forwarder \<Rightarrow> fw_system \<Rightarrow> bool" for f0 where
  start: "fw_reach f0 \<lparr>sys_fw = f0, sys_phase = Map.empty, sys_policies = [fw_policy f0]\<rparr>"
| step: "fw_reach f0 y \<Longrightarrow> fw_step y y' \<Longrightarrow> fw_reach f0 y'"

definition fw_inv :: "fw_system \<Rightarrow> bool" where
  "fw_inv y \<longleftrightarrow> finite (held y) \<and> fw_active (sys_fw y) = int (card (held y)) \<and>
     fw_policy (sys_fw y) \<in> set (sys_policies y) \<and>
     (\<forall>i p. sys_phase y i = Some (PhSnapshot p) \<longrightarrow> p \<in> set (sys_policies y))"

lemma held_upd:
  "held (y\<lparr>sys_phase := (sys_phase y)(i \<mapsto> PhHeld)\<rparr>) = insert i (held y)"
  "x \<noteq> Some PhHeld \<Longrightarrow> held (y\<lparr>sys_phase := (sys_phase y)(i := x)\<rparr>) = held y - {i}"
  "held (y\<lparr>sys_fw := f, sys_phase := ph\<rparr>) = held (y\<lparr>sys_phase := ph\<rparr>)"
  "held (y\<lparr>sys_fw := f\<rparr>) = held y" "held (y\<lparr>sys_fw := f, sys_policies := ps\<rparr>) = held y"
  by (auto simp: held_def)

lemma held_iff: "i \<in> held y \<longleftrightarrow> sys_phase y i = Some PhHeld"
  by (simp add: held_def)

lemma fw_step_inv: "fw_step y y' \<Longrightarrow> fw_inv y \<Longrightarrow> fw_inv y'"
proof (induction rule: fw_step.induct)
  case (acquired y i p env b r inc hs f')
  then have "i \<notin> held y" by (simp add: held_iff)
  with acquired acquire_fields [OF acquired(3)] show ?case by (auto simp: fw_inv_def held_upd)
next
  case (released y i)
  then have "i \<in> held y" by (simp add: held_iff)
  then have "card (held y) = Suc (card (held y - {i}))"
    using released(2) by (simp only: fw_inv_def card_Suc_Diff1)
  with released show ?case by (simp add: fw_inv_def held_upd)
qed (auto simp: fw_inv_def held_upd held_iff policySnapshot_def SetPolicy_def split: sum.splits)

lemma fw_reach_inv: "fw_reach f0 y \<Longrightarrow> fw_active f0 = 0 \<Longrightarrow> fw_inv y"
proof (induction rule: fw_reach.induct)
  case start
  then show ?case by (simp add: fw_inv_def held_def)
qed (auto intro: fw_step_inv)

lemma fw_step_bound:
  assumes "fw_step y y'" "fw_inv y" "fw_active (sys_fw y) \<le> m" "\<forall>p \<in> set (sys_policies y'). 0 < rp_max_sessions p \<and> rp_max_sessions p \<le> m"
  shows "fw_active (sys_fw y') \<le> m"
  using assms
proof (induction rule: fw_step.induct)
  case (acquired y i p env b r inc hs f')
  then have "p \<in> set (sys_policies y)" by (auto simp: fw_inv_def)
  with acquired have "fw_active (sys_fw y) < m" using acquire_below [OF acquired(3)] by force
  then show ?case using acquire_fields [OF acquired(3)] by simp
qed (auto simp: SetPolicy_def split: sum.splits)

lemma fw_step_policies: "fw_step y y' \<Longrightarrow> set (sys_policies y) \<subseteq> set (sys_policies y')"
  by (induction rule: fw_step.induct) auto

lemma fw_reach_bound:
  "fw_reach f0 y \<Longrightarrow> fw_active f0 = 0 \<Longrightarrow> 0 \<le> m \<Longrightarrow>
     \<forall>p \<in> set (sys_policies y). 0 < rp_max_sessions p \<and> rp_max_sessions p \<le> m \<Longrightarrow> fw_active (sys_fw y) \<le> m"
proof (induction rule: fw_reach.induct)
  case (step y y')
  then have "\<forall>p \<in> set (sys_policies y). 0 < rp_max_sessions p \<and> rp_max_sessions p \<le> m"
    using fw_step_policies by blast
  with step show ?case using fw_step_bound [OF step(2) fw_reach_inv] by blast
qed simp



section \<open>The byte counter\<close>

text \<open>
  Claim C36. After any number of finished tunnels the byte counter is the exact total of the bytes
  copied in both directions, or the largest 64-bit value once the total no longer fits: it
  never wraps.
\<close>

theorem forwarded_bytes_saturate:
  assumes "\<forall>r \<in> set rs. 0 \<le> fr_to_destination r \<and> fr_to_destination r < 2 ^ 63 \<and>
     0 \<le> fr_to_source r \<and> fr_to_source r < 2 ^ 63"
  shows "unat (fw_bytes (fold recordForwardResult rs f)) =
     min (unat (fw_bytes f) + nat (\<Sum>r\<leftarrow>rs. fr_to_destination r + fr_to_source r)) (2 ^ 64 - 1)"
  using assms
proof (induction rs arbitrary: f)
  case Nil
  have "unat (fw_bytes f) < 2 ^ 64" using unsigned_less [of "fw_bytes f"] by simp
  then show ?case by simp
next
  case (Cons r rs)
  then have pos: "0 \<le> (\<Sum>r\<leftarrow>rs. fr_to_destination r + fr_to_source r)"
    by (intro sum_list_nonneg) auto
  have "unat (fw_bytes (recordForwardResult r f)) =
      min (unat (fw_bytes f) + nat (fr_to_destination r + fr_to_source r)) (2 ^ 64 - 1)"
    using Cons.prems by (intro recordForwardResult_bytes) auto
  with Cons pos show ?case by (simp add: nat_add_distrib min_def)
qed

theorem forwarded_bytes_saturate_witness:
  "unat (fw_bytes (fold recordForwardResult
     (replicate 3 \<lparr>fr_to_destination = 2 ^ 63 - 1, fr_to_source = 1\<rparr>) sample_forwarder)) = 2 ^ 64 - 1"
  using forwarded_bytes_saturate [of "replicate 3 \<lparr>fr_to_destination = 2 ^ 63 - 1, fr_to_source = 1\<rparr>" sample_forwarder]
  by (simp add: sum_list_replicate)

end
