(* ===== verification/Stream_Registry.thy ===== *)
theory Stream_Registry
  imports Typed_Stream
begin

text \<open>
  The state shared by the typed-stream engines of one authenticated connection
  (\<open>internal/session/typed_stream_state.go\<close>, \<open>typed_stream_flow.go\<close>,
  \<open>typed_stream_capabilities.go\<close>): the connection-wide stream registry, the terminal stream
  set, the per-stream credit and the capability negotiation.  The locales \<open>stream_registry\<close>
  and \<open>credit_window\<close> state what the engines rely on.
\<close>

section \<open>Capability negotiation\<close>

definition hasSessionCapability :: "capability list \<Rightarrow> capability \<Rightarrow> bool" where
  "hasSessionCapability caps want \<longleftrightarrow> list_ex (\<lambda>c. c = want) caps"

definition negotiateSessionCapabilitiesForRuntime ::
  "capability list \<Rightarrow> bool \<Rightarrow> bool \<Rightarrow> capability list" where
  "negotiateSessionCapabilitiesForRuntime requested typedStreamsReady fileTransferReady =
     (if \<not> typedStreamsReady then []
      else
        let requestedTyped = list_ex (\<lambda>c. c = CapabilityTypedStreamsV1) requested;
            requestedFile = list_ex (\<lambda>c. c = CapabilityFileTransferV1) requested
        in
          if \<not> requestedTyped \<or> \<not> SupportedCapability CapabilityTypedStreamsV1 then []
          else if fileTransferReady \<and> requestedFile \<and> SupportedCapability CapabilityFileTransferV1
          then [CapabilityTypedStreamsV1, CapabilityFileTransferV1]
          else [CapabilityTypedStreamsV1])"

definition negotiateSessionCapabilities :: "capability list \<Rightarrow> bool \<Rightarrow> capability list" where
  "negotiateSessionCapabilities requested typedStreamsReady =
     negotiateSessionCapabilitiesForRuntime requested typedStreamsReady False"

lemma negotiated_subset:
  "set (negotiateSessionCapabilitiesForRuntime req t f) \<subseteq> set req"
  by (auto simp: negotiateSessionCapabilitiesForRuntime_def Let_def list_ex_iff)

section \<open>The parent stream registry\<close>

definition maxTerminalStreamsPerConnection :: nat where
  "maxTerminalStreamsPerConnection = 8"

definition maxTypedStreamIDsPerConnection :: nat where
  "maxTypedStreamIDsPerConnection = 256"

datatype reg_error =
    RegIDReserved
  | RegDuplicate
  | RegLimit
  | RegNotOpen u32
  | RegKind

datatype typed_stream_state = StreamOpening | StreamOpen | StreamClosed

record typed_stream_record =
  sr_kind :: stream_kind
  sr_state :: typed_stream_state

type_synonym registry = "u32 \<rightharpoonup> typed_stream_record"

definition newTypedParentStreamRegistry :: registry where
  "newTypedParentStreamRegistry = Map.empty"

definition registry_reserve :: "registry \<Rightarrow> u32 \<Rightarrow> stream_kind \<Rightarrow> (reg_error, registry) result" where
  "registry_reserve r sid kind =
     (if sid < MinTypedStreamID then Err RegIDReserved
      else if kind = [] then Err RegKind
      else if r sid \<noteq> None then Err RegDuplicate
      else if maxTypedStreamIDsPerConnection \<le> card (dom r) then Err RegLimit
      else Ok (r(sid \<mapsto> \<lparr>sr_kind = kind, sr_state = StreamOpening\<rparr>)))"

definition registry_accept :: "registry \<Rightarrow> u32 \<Rightarrow> stream_kind \<Rightarrow> (reg_error, registry) result" where
  "registry_accept r sid kind =
     (case r sid of
        None \<Rightarrow> Err (RegNotOpen sid)
      | Some rec \<Rightarrow>
          if sr_kind rec \<noteq> kind \<or> sr_state rec \<noteq> StreamOpening then Err (RegNotOpen sid)
          else Ok (r(sid \<mapsto> rec\<lparr>sr_state := StreamOpen\<rparr>)))"

definition registry_isOpen :: "registry \<Rightarrow> u32 \<Rightarrow> stream_kind \<Rightarrow> bool" where
  "registry_isOpen r sid kind =
     (case r sid of
        None \<Rightarrow> False
      | Some rec \<Rightarrow> sr_kind rec = kind \<and> sr_state rec = StreamOpen)"

definition registry_kind :: "registry \<Rightarrow> u32 \<Rightarrow> stream_kind option" where
  "registry_kind r sid =
     (case r sid of
        None \<Rightarrow> None
      | Some rec \<Rightarrow> if sr_state rec = StreamClosed then None else Some (sr_kind rec))"

definition registry_close :: "registry \<Rightarrow> u32 \<Rightarrow> stream_kind \<Rightarrow> (reg_error, registry) result" where
  "registry_close r sid kind =
     (case r sid of
        None \<Rightarrow> Err (RegNotOpen sid)
      | Some rec \<Rightarrow>
          if sr_kind rec \<noteq> kind \<or> sr_state rec = StreamClosed then Err (RegNotOpen sid)
          else Ok (r(sid \<mapsto> rec\<lparr>sr_state := StreamClosed\<rparr>)))"

definition registry_closeKind :: "registry \<Rightarrow> stream_kind \<Rightarrow> registry" where
  "registry_closeKind r kind =
     (\<lambda>sid. case r sid of
        None \<Rightarrow> None
      | Some rec \<Rightarrow>
          if sr_kind rec = kind \<and> sr_state rec \<noteq> StreamClosed
          then Some (rec\<lparr>sr_state := StreamClosed\<rparr>) else Some rec)"

definition registry_inv :: "registry \<Rightarrow> bool" where
  "registry_inv r \<longleftrightarrow>
     finite (dom r) \<and> card (dom r) \<le> maxTypedStreamIDsPerConnection \<and>
     (\<forall>sid rec. r sid = Some rec \<longrightarrow> MinTypedStreamID \<le> sid \<and> sr_kind rec \<noteq> [])"

section \<open>What the engines rely on\<close>

text \<open>
  The contract of a registry, over an abstract lookup: a reservation takes a fresh
  identifier, acceptance and closing move one record forward, and every operation keeps
  the invariant.
\<close>

locale stream_registry =
  fixes look :: "'r \<Rightarrow> u32 \<Rightarrow> typed_stream_record option"
    and reserve :: "'r \<Rightarrow> u32 \<Rightarrow> stream_kind \<Rightarrow> (reg_error, 'r) result"
    and accept :: "'r \<Rightarrow> u32 \<Rightarrow> stream_kind \<Rightarrow> (reg_error, 'r) result"
    and close :: "'r \<Rightarrow> u32 \<Rightarrow> stream_kind \<Rightarrow> (reg_error, 'r) result"
    and closeKind :: "'r \<Rightarrow> stream_kind \<Rightarrow> 'r"
    and inv :: "'r \<Rightarrow> bool"
  assumes reserve_Ok: "inv r \<Longrightarrow> reserve r i k = Ok r' \<Longrightarrow>
      look r i = None \<and> look r' = (look r)(i \<mapsto> \<lparr>sr_kind = k, sr_state = StreamOpening\<rparr>) \<and> inv r'"
    and accept_Ok: "inv r \<Longrightarrow> accept r i k = Ok r' \<Longrightarrow>
      look r i = Some \<lparr>sr_kind = k, sr_state = StreamOpening\<rparr> \<and>
      look r' = (look r)(i \<mapsto> \<lparr>sr_kind = k, sr_state = StreamOpen\<rparr>) \<and> inv r'"
    and close_Ok: "inv r \<Longrightarrow> close r i k = Ok r' \<Longrightarrow>
      (\<exists>rec. look r i = Some rec \<and> sr_kind rec = k \<and> sr_state rec \<noteq> StreamClosed) \<and>
      look r' = (look r)(i \<mapsto> \<lparr>sr_kind = k, sr_state = StreamClosed\<rparr>) \<and> inv r'"
    and closeKind_look: "inv r \<Longrightarrow> look (closeKind r k) i =
      (case look r i of
         None \<Rightarrow> None
       | Some rec \<Rightarrow> if sr_kind rec = k then Some (rec\<lparr>sr_state := StreamClosed\<rparr>) else Some rec)"
    and closeKind_inv: "inv r \<Longrightarrow> inv (closeKind r k)"

datatype reg_op =
    OpReserve u32 stream_kind
  | OpAccept u32 stream_kind
  | OpClose u32 stream_kind
  | OpCloseKind stream_kind

fun state_rank :: "typed_stream_state \<Rightarrow> nat" where
  "state_rank StreamOpening = 0"
| "state_rank StreamOpen = 1"
| "state_rank StreamClosed = 2"

context stream_registry
begin

text \<open>One call of an engine; a refused call leaves the registry alone.\<close>

fun reg_step :: "'r \<Rightarrow> reg_op \<Rightarrow> 'r" where
  "reg_step r (OpReserve i k) = (case reserve r i k of Err _ \<Rightarrow> r | Ok r' \<Rightarrow> r')"
| "reg_step r (OpAccept i k) = (case accept r i k of Err _ \<Rightarrow> r | Ok r' \<Rightarrow> r')"
| "reg_step r (OpClose i k) = (case close r i k of Err _ \<Rightarrow> r | Ok r' \<Rightarrow> r')"
| "reg_step r (OpCloseKind k) = closeKind r k"

definition advances :: "'r \<Rightarrow> 'r \<Rightarrow> bool" where
  "advances r r' \<longleftrightarrow>
     (\<forall>i rec. look r i = Some rec \<longrightarrow>
        (\<exists>rec'. look r' i = Some rec' \<and> sr_kind rec' = sr_kind rec \<and>
           state_rank (sr_state rec) \<le> state_rank (sr_state rec')))"

lemma advancesD:
  assumes "advances r r'" and "look r i = Some rec"
  obtains rec' where "look r' i = Some rec'" "sr_kind rec' = sr_kind rec"
    "state_rank (sr_state rec) \<le> state_rank (sr_state rec')"
  using assms by (auto simp: advances_def)

lemma advances_refl: "advances r r"
  by (simp add: advances_def)

lemma advances_trans:
  assumes "advances r s" and "advances s t"
  shows "advances r t"
  unfolding advances_def
proof (intro allI impI)
  fix i rec
  assume "look r i = Some rec"
  with assms(1) obtain u where u: "look s i = Some u" "sr_kind u = sr_kind rec"
    "state_rank (sr_state rec) \<le> state_rank (sr_state u)" by (rule advancesD)
  from assms(2) u(1) obtain v where "look t i = Some v" "sr_kind v = sr_kind u"
    "state_rank (sr_state u) \<le> state_rank (sr_state v)" by (rule advancesD)
  with u show "\<exists>rec'. look t i = Some rec' \<and> sr_kind rec' = sr_kind rec \<and>
      state_rank (sr_state rec) \<le> state_rank (sr_state rec')"
    by auto
qed

lemma advances_upd:
  assumes "look r' = (look r)(i \<mapsto> new)"
    and "\<And>rec. look r i = Some rec \<Longrightarrow>
      sr_kind new = sr_kind rec \<and> state_rank (sr_state rec) \<le> state_rank (sr_state new)"
  shows "advances r r'"
  using assms by (auto simp: advances_def)

lemma reg_step_inv: "inv r \<Longrightarrow> inv (reg_step r a)"
  by (cases a) (auto split: sum.splits dest: reserve_Ok accept_Ok close_Ok closeKind_inv)

lemma state_rank_le: "state_rank s \<le> 2"
  by (cases s) auto

lemma reserve_advances: "inv r \<Longrightarrow> reserve r i k = Ok r' \<Longrightarrow> advances r r'"
  by (rule advances_upd [of r' r i "\<lparr>sr_kind = k, sr_state = StreamOpening\<rparr>"])
    (auto dest: reserve_Ok)

lemma accept_advances:
  assumes "inv r" and "accept r i k = Ok r'"
  shows "advances r r'"
  using accept_Ok [OF assms]
  by (intro advances_upd [of r' r i "\<lparr>sr_kind = k, sr_state = StreamOpen\<rparr>"]) auto

lemma close_advances: "inv r \<Longrightarrow> close r i k = Ok r' \<Longrightarrow> advances r r'"
  by (rule advances_upd [of r' r i "\<lparr>sr_kind = k, sr_state = StreamClosed\<rparr>"])
    (auto dest: close_Ok simp: state_rank_le)

lemma closeKind_advances: "inv r \<Longrightarrow> advances r (closeKind r k)"
  by (auto simp: advances_def closeKind_look state_rank_le)

lemma reg_step_advances: "inv r \<Longrightarrow> advances r (reg_step r a)"
  by (cases a)
    (auto split: sum.splits
      intro: advances_refl reserve_advances accept_advances close_advances closeKind_advances)

lemma run_inv: "inv r \<Longrightarrow> inv (foldl reg_step r as)"
  by (induction as arbitrary: r) (auto intro: reg_step_inv)

lemma run_advances: "inv r \<Longrightarrow> advances r (foldl reg_step r as)"
  by (induction as arbitrary: r)
    (auto intro: advances_refl advances_trans reg_step_advances reg_step_inv)

text \<open>An identifier once taken is never granted again, to any engine.\<close>

lemma no_reuse:
  assumes "inv r" and "look r i \<noteq> None"
  shows "\<nexists>r'. reserve (foldl reg_step r as) i k = Ok r'"
proof
  assume "\<exists>r'. reserve (foldl reg_step r as) i k = Ok r'"
  then obtain r' where "reserve (foldl reg_step r as) i k = Ok r'" by blast
  from reserve_Ok [OF run_inv [OF assms(1)] this] have "look (foldl reg_step r as) i = None" by blast
  moreover from assms(2) obtain rec where "look r i = Some rec" by blast
  then obtain rec' where "look (foldl reg_step r as) i = Some rec'"
    using run_advances [OF assms(1), of as] by (blast elim: advancesD)
  ultimately show False by simp
qed

end

section \<open>The registry meets the contract\<close>

lemma registry_inv_reserve:
  assumes "registry_inv r" and "registry_reserve r sid k = Ok r'"
  shows "registry_inv r'"
proof -
  from assms(2) have f: "MinTypedStreamID \<le> sid" "k \<noteq> []" "r sid = None"
    "card (dom r) < maxTypedStreamIDsPerConnection"
    and r': "r' = r(sid \<mapsto> \<lparr>sr_kind = k, sr_state = StreamOpening\<rparr>)"
    by (auto simp: registry_reserve_def split: if_splits)
  from assms(1) f(3) have "card (dom r') = Suc (card (dom r))"
    unfolding r' by (intro card_dom_upd_fresh) (auto simp: registry_inv_def)
  with assms(1) f show ?thesis
    by (auto simp: registry_inv_def r')
qed

lemma registry_inv_upd:
  assumes "registry_inv r" and "r sid = Some rec"
  shows "registry_inv (r(sid \<mapsto> rec\<lparr>sr_state := st\<rparr>))"
proof -
  have "dom (r(sid \<mapsto> rec\<lparr>sr_state := st\<rparr>)) = dom r" using assms(2) by (rule dom_upd_present)
  with assms show ?thesis by (auto simp: registry_inv_def)
qed

lemma dom_registry_closeKind [simp]: "dom (registry_closeKind r k) = dom r"
  by (auto simp: registry_closeKind_def split: option.splits if_splits)

lemma registry_inv_closeKind: "registry_inv r \<Longrightarrow> registry_inv (registry_closeKind r k)"
  unfolding registry_inv_def
  by (auto simp: registry_closeKind_def dom_def split: option.splits if_splits)

interpretation parent: stream_registry "\<lambda>r. r" registry_reserve registry_accept registry_close
  registry_closeKind registry_inv
proof unfold_locales
  fix r r' :: registry and i k
  assume inv: "registry_inv r"
  show "registry_reserve r i k = Ok r' \<Longrightarrow>
      r i = None \<and> r' = r(i \<mapsto> \<lparr>sr_kind = k, sr_state = StreamOpening\<rparr>) \<and> registry_inv r'"
    using registry_inv_reserve [OF inv] by (auto simp: registry_reserve_def split: if_splits)
  show "registry_accept r i k = Ok r' \<Longrightarrow>
      r i = Some \<lparr>sr_kind = k, sr_state = StreamOpening\<rparr> \<and>
      r' = r(i \<mapsto> \<lparr>sr_kind = k, sr_state = StreamOpen\<rparr>) \<and> registry_inv r'"
    using registry_inv_upd [OF inv]
    by (auto simp: registry_accept_def split: option.splits if_splits intro!: typed_stream_record.equality)
  show "registry_close r i k = Ok r' \<Longrightarrow>
      (\<exists>rec. r i = Some rec \<and> sr_kind rec = k \<and> sr_state rec \<noteq> StreamClosed) \<and>
      r' = r(i \<mapsto> \<lparr>sr_kind = k, sr_state = StreamClosed\<rparr>) \<and> registry_inv r'"
    using registry_inv_upd [OF inv]
    by (auto simp: registry_close_def split: option.splits if_splits intro!: typed_stream_record.equality)
  show "registry_closeKind r k i =
      (case r i of None \<Rightarrow> None
       | Some rec \<Rightarrow> if sr_kind rec = k then Some (rec\<lparr>sr_state := StreamClosed\<rparr>) else Some rec)"
    by (auto simp: registry_closeKind_def split: option.splits)
  show "registry_inv (registry_closeKind r k)"
    using inv by (rule registry_inv_closeKind)
qed

text \<open>The same steps written over the registry's own operations.\<close>

fun registry_step :: "registry \<Rightarrow> reg_op \<Rightarrow> registry" where
  "registry_step r (OpReserve i k) = (case registry_reserve r i k of Err _ \<Rightarrow> r | Ok r' \<Rightarrow> r')"
| "registry_step r (OpAccept i k) = (case registry_accept r i k of Err _ \<Rightarrow> r | Ok r' \<Rightarrow> r')"
| "registry_step r (OpClose i k) = (case registry_close r i k of Err _ \<Rightarrow> r | Ok r' \<Rightarrow> r')"
| "registry_step r (OpCloseKind k) = registry_closeKind r k"

lemma parent_reg_step [simp]: "parent.reg_step = registry_step"
proof -
  have "parent.reg_step r a = registry_step r a" for r a by (cases a) simp_all
  then show ?thesis by (intro ext) metis
qed

lemma registry_inv_new [simp]: "registry_inv newTypedParentStreamRegistry"
  by (simp add: registry_inv_def newTypedParentStreamRegistry_def)

section \<open>The terminal stream set\<close>

record terminal_set =
  tset_registry :: registry
  tset_open :: nat

definition newTypedTerminalStreamSetWithRegistry :: "registry option \<Rightarrow> terminal_set" where
  "newTypedTerminalStreamSetWithRegistry r =
     \<lparr>tset_registry = (case r of None \<Rightarrow> newTypedParentStreamRegistry | Some x \<Rightarrow> x), tset_open = 0\<rparr>"

definition terminals_reserve :: "terminal_set \<Rightarrow> u32 \<Rightarrow> (reg_error, terminal_set) result" where
  "terminals_reserve s sid =
     (if maxTerminalStreamsPerConnection - 1 \<le> tset_open s then Err RegLimit
      else bind_res (registry_reserve (tset_registry s) sid StreamKindTerminal)
        (\<lambda>r. Ok \<lparr>tset_registry = r, tset_open = tset_open s + 1\<rparr>))"

definition terminals_accept :: "terminal_set \<Rightarrow> u32 \<Rightarrow> (reg_error, terminal_set) result" where
  "terminals_accept s sid =
     bind_res (registry_accept (tset_registry s) sid StreamKindTerminal)
       (\<lambda>r. Ok (s\<lparr>tset_registry := r\<rparr>))"

definition terminals_isOpen :: "terminal_set \<Rightarrow> u32 \<Rightarrow> bool" where
  "terminals_isOpen s sid = registry_isOpen (tset_registry s) sid StreamKindTerminal"

definition terminals_close :: "terminal_set \<Rightarrow> u32 \<Rightarrow> (reg_error, terminal_set) result" where
  "terminals_close s sid =
     bind_res (registry_close (tset_registry s) sid StreamKindTerminal)
       (\<lambda>r. Ok \<lparr>tset_registry = r, tset_open = (if 0 < tset_open s then tset_open s - 1 else 0)\<rparr>)"

definition terminals_closeAll :: "terminal_set \<Rightarrow> terminal_set" where
  "terminals_closeAll s =
     \<lparr>tset_registry = registry_closeKind (tset_registry s) StreamKindTerminal, tset_open = 0\<rparr>"

definition live_streams :: "registry \<Rightarrow> stream_kind \<Rightarrow> u32 set" where
  "live_streams r k = {sid. \<exists>rec. r sid = Some rec \<and> sr_kind rec = k \<and> sr_state rec \<noteq> StreamClosed}"

definition terminal_set_inv :: "terminal_set \<Rightarrow> bool" where
  "terminal_set_inv s \<longleftrightarrow>
     registry_inv (tset_registry s) \<and>
     tset_open s = card (live_streams (tset_registry s) StreamKindTerminal) \<and>
     tset_open s < maxTerminalStreamsPerConnection"

lemma live_streams_subset: "live_streams r k \<subseteq> dom r"
  by (auto simp: live_streams_def)

lemma finite_live_streams: "registry_inv r \<Longrightarrow> finite (live_streams r k)"
  by (rule finite_subset [OF live_streams_subset]) (simp add: registry_inv_def)

lemma live_streams_reserve:
  "registry_reserve r i k = Ok r' \<Longrightarrow>
     live_streams r' k' = (if k' = k then insert i (live_streams r k') else live_streams r k')"
  by (auto simp: registry_reserve_def live_streams_def split: if_splits)

lemma live_streams_accept:
  "registry_accept r i k = Ok r' \<Longrightarrow> live_streams r' k' = live_streams r k'"
  by (auto simp: registry_accept_def live_streams_def split: option.splits if_splits)

lemma live_streams_close:
  "registry_close r i k = Ok r' \<Longrightarrow>
     live_streams r' k' = (if k' = k then live_streams r k' - {i} else live_streams r k')"
  by (auto simp: registry_close_def live_streams_def split: option.splits if_splits)

lemma live_streams_closeKind:
  "live_streams (registry_closeKind r k) k' = (if k' = k then {} else live_streams r k')"
  by (auto simp: registry_closeKind_def live_streams_def split: option.splits if_splits)

lemma registry_reserve_not_live: "registry_reserve r i k = Ok r' \<Longrightarrow> i \<notin> live_streams r k'"
  by (auto simp: registry_reserve_def live_streams_def split: if_splits)

lemma registry_close_live: "registry_close r i k = Ok r' \<Longrightarrow> i \<in> live_streams r k"
  by (auto simp: registry_close_def live_streams_def split: option.splits if_splits)

lemma terminal_set_inv_new: "terminal_set_inv (newTypedTerminalStreamSetWithRegistry None)"
  by (simp add: terminal_set_inv_def newTypedTerminalStreamSetWithRegistry_def live_streams_def
      maxTerminalStreamsPerConnection_def newTypedParentStreamRegistry_def registry_inv_def)

lemma terminal_set_inv_reserve:
  assumes "terminal_set_inv s" and "terminals_reserve s i = Ok s'"
  shows "terminal_set_inv s'"
proof -
  from assms(2) obtain r where r: "registry_reserve (tset_registry s) i StreamKindTerminal = Ok r"
    and s': "s' = \<lparr>tset_registry = r, tset_open = tset_open s + 1\<rparr>"
    and lim: "tset_open s < maxTerminalStreamsPerConnection - 1"
    by (auto simp: terminals_reserve_def result_splits)
  have inv: "registry_inv (tset_registry s)" using assms(1) by (simp add: terminal_set_inv_def)
  have "card (live_streams r StreamKindTerminal) = Suc (card (live_streams (tset_registry s) StreamKindTerminal))"
    using live_streams_reserve [OF r] registry_reserve_not_live [OF r] finite_live_streams [OF inv] by simp
  with assms(1) lim s' registry_inv_reserve [OF inv r] show ?thesis
    by (simp add: terminal_set_inv_def)
qed

lemma terminal_set_inv_accept:
  "terminal_set_inv s \<Longrightarrow> terminals_accept s i = Ok s' \<Longrightarrow> terminal_set_inv s'"
  by (auto simp: terminals_accept_def terminal_set_inv_def result_splits live_streams_accept
      dest: parent.accept_Ok)

lemma terminal_set_inv_close:
  assumes "terminal_set_inv s" and "terminals_close s i = Ok s'"
  shows "terminal_set_inv s'"
proof -
  from assms(2) obtain r where r: "registry_close (tset_registry s) i StreamKindTerminal = Ok r"
    and s': "tset_registry s' = r" "tset_open s' = tset_open s - 1"
    by (auto simp: terminals_close_def result_splits)
  have inv: "registry_inv (tset_registry s)" using assms(1) by (simp add: terminal_set_inv_def)
  have "card (live_streams r StreamKindTerminal) = card (live_streams (tset_registry s) StreamKindTerminal) - 1"
    using live_streams_close [OF r] registry_close_live [OF r] finite_live_streams [OF inv]
    by (simp add: card_Diff_singleton)
  with assms(1) s' parent.close_Ok [OF inv r] show ?thesis
    by (auto simp: terminal_set_inv_def)
qed

lemma terminal_set_inv_closeAll: "terminal_set_inv s \<Longrightarrow> terminal_set_inv (terminals_closeAll s)"
  by (simp add: terminals_closeAll_def terminal_set_inv_def registry_inv_closeKind live_streams_closeKind
      maxTerminalStreamsPerConnection_def)

section \<open>Flow-control credit\<close>

datatype credit_error = CreditInitial | CreditConsume u32 u32 | CreditAdd u32 u32

record typed_stream_credit =
  cr_remaining :: u32

definition newTypedStreamCredit :: "u32 \<Rightarrow> (credit_error, typed_stream_credit) result" where
  [stream_defs]: "newTypedStreamCredit initial =
     (if initial = 0 \<or> MaxTypedStreamWindow < initial then Err CreditInitial
      else Ok \<lparr>cr_remaining = initial\<rparr>)"

definition credit_consume :: "typed_stream_credit \<Rightarrow> u32 \<Rightarrow> (credit_error, typed_stream_credit) result" where
  [stream_defs]: "credit_consume c n =
     (if n = 0 \<or> cr_remaining c < n then Err (CreditConsume n (cr_remaining c))
      else Ok (c\<lparr>cr_remaining := cr_remaining c - n\<rparr>))"

definition credit_add :: "typed_stream_credit \<Rightarrow> u32 \<Rightarrow> (credit_error, typed_stream_credit) result" where
  [stream_defs]: "credit_add c n =
     (if n = 0 \<or> MaxTypedStreamWindow < n \<or> MaxTypedStreamWindow - n < cr_remaining c
      then Err (CreditAdd n (cr_remaining c))
      else Ok (c\<lparr>cr_remaining := cr_remaining c + n\<rparr>))"

definition credit_available :: "typed_stream_credit \<Rightarrow> u32" where
  [stream_defs]: "credit_available c = cr_remaining c"

text \<open>
  What a flow-controlled sender relies on, over the credit as a natural number: taking
  credit never overdraws, granting credit never passes the maximum window and never wraps.
\<close>

locale credit_window =
  fixes credit :: "'c \<Rightarrow> nat"
    and consume :: "'c \<Rightarrow> u32 \<Rightarrow> ('e, 'c) result"
    and grant :: "'c \<Rightarrow> u32 \<Rightarrow> ('e, 'c) result"
  assumes consume_Ok: "consume c n = Ok c' \<Longrightarrow> 0 < n \<and> credit c = credit c' + unat n"
    and grant_Ok: "grant c n = Ok c' \<Longrightarrow>
      0 < n \<and> credit c' = credit c + unat n \<and> credit c' \<le> unat MaxTypedStreamWindow"

datatype credit_op = Consume u32 | Grant u32

context credit_window
begin

text \<open>A run of operations: the credit left, the bytes sent and the bytes granted.\<close>

fun credit_run :: "'c \<Rightarrow> credit_op list \<Rightarrow> 'c \<times> nat \<times> nat" where
  "credit_run c [] = (c, 0, 0)"
| "credit_run c (Consume n # ops) =
     (case consume c n of
        Err _ \<Rightarrow> credit_run c ops
      | Ok c' \<Rightarrow> (case credit_run c' ops of (d, s, g) \<Rightarrow> (d, unat n + s, g)))"
| "credit_run c (Grant n # ops) =
     (case grant c n of
        Err _ \<Rightarrow> credit_run c ops
      | Ok c' \<Rightarrow> (case credit_run c' ops of (d, s, g) \<Rightarrow> (d, s, unat n + g)))"

lemma credit_conserved:
  "credit_run c ops = (d, s, g) \<Longrightarrow> credit c + g = credit d + s"
proof (induction c ops arbitrary: d s g rule: credit_run.induct)
  case (1 c)
  then show ?case by simp
next
  case (2 c n ops)
  then show ?case by (auto split: sum.splits prod.splits dest!: consume_Ok)
next
  case (3 c n ops)
  show ?case
  proof (cases "grant c n")
    case (Inl e)
    with "3" show ?thesis by simp
  next
    case (Inr c')
    obtain d' s' g' where run: "credit_run c' ops = (d', s', g')" by (metis prod_cases3)
    with "3.IH"(2) [OF Inr] have "credit c' + g' = credit d' + s'" by blast
    with "3.prems" Inr run grant_Ok [OF Inr] show ?thesis by simp
  qed
qed

lemma credit_bounded:
  "credit_run c ops = (d, s, g) \<Longrightarrow> credit c \<le> unat MaxTypedStreamWindow \<Longrightarrow>
     credit d \<le> unat MaxTypedStreamWindow"
  by (induction c ops arbitrary: d s g rule: credit_run.induct)
    (auto split: sum.splits prod.splits dest!: consume_Ok grant_Ok)

end

definition credit_nat :: "typed_stream_credit \<Rightarrow> nat" where
  "credit_nat c = unat (cr_remaining c)"

interpretation stream_credit: credit_window credit_nat credit_consume credit_add
proof unfold_locales
  fix c c' :: typed_stream_credit and n :: u32
  show "credit_consume c n = Ok c' \<Longrightarrow> 0 < n \<and> credit_nat c = credit_nat c' + unat n"
    by (auto simp: credit_consume_def credit_nat_def unat_sub word_gt_0 word_le_nat_alt not_less
        split: if_splits)
  show "credit_add c n = Ok c' \<Longrightarrow>
      0 < n \<and> credit_nat c' = credit_nat c + unat n \<and> credit_nat c' \<le> unat MaxTypedStreamWindow"
  proof -
    assume "credit_add c n = Ok c'"
    then have n: "0 < n" "n \<le> MaxTypedStreamWindow" "cr_remaining c \<le> MaxTypedStreamWindow - n"
      and c': "c' = c\<lparr>cr_remaining := cr_remaining c + n\<rparr>"
      by (auto simp: credit_add_def word_gt_0 not_less split: if_splits)
    have "unat (cr_remaining c) \<le> unat MaxTypedStreamWindow - unat n"
      using n(2,3) by (simp add: word_le_nat_alt unat_sub)
    moreover have "unat n \<le> unat MaxTypedStreamWindow" "unat MaxTypedStreamWindow = 1048576"
      using n(2) by (simp_all add: word_le_nat_alt MaxTypedStreamWindow_def)
    ultimately have le: "unat (cr_remaining c) + unat n \<le> 1048576" by linarith
    then have "unat (cr_remaining c + n) = unat (cr_remaining c) + unat n"
      by (simp add: unat_word_ariths)
    with n(1) c' le show ?thesis by (simp add: credit_nat_def MaxTypedStreamWindow_def)
  qed
qed

section \<open>Sharing the registry\<close>

text \<open>
  The terminal and the file engine of one connection use the same registry.  Each passes its
  own stream kinds, so what an engine does to the registry is a sequence of calls with kinds
  of its own, and such calls leave the records of other kinds alone.
\<close>

fun op_kind :: "reg_op \<Rightarrow> stream_kind" where
  "op_kind (OpReserve i k) = k"
| "op_kind (OpAccept i k) = k"
| "op_kind (OpClose i k) = k"
| "op_kind (OpCloseKind k) = k"

definition reg_moves :: "stream_kind set \<Rightarrow> registry \<Rightarrow> registry \<Rightarrow> bool" where
  "reg_moves K r r' \<longleftrightarrow> (\<exists>ops. (\<forall>op \<in> set ops. op_kind op \<in> K) \<and> r' = foldl registry_step r ops)"

lemma reg_moves_refl [simp]: "reg_moves K r r"
  unfolding reg_moves_def by (rule exI [of _ "[]"]) simp

lemma reg_moves_trans:
  assumes "reg_moves K r s" "reg_moves K s t"
  shows "reg_moves K r t"
proof -
  obtain xs ys where "\<forall>op \<in> set xs. op_kind op \<in> K" "s = foldl registry_step r xs"
    "\<forall>op \<in> set ys. op_kind op \<in> K" "t = foldl registry_step s ys"
    using assms by (auto simp: reg_moves_def)
  then show ?thesis unfolding reg_moves_def by (intro exI [of _ "xs @ ys"]) auto
qed

lemma reg_moves_step: "op_kind op \<in> K \<Longrightarrow> reg_moves K r (registry_step r op)"
  unfolding reg_moves_def by (rule exI [of _ "[op]"]) simp

lemma reg_moves_call:
  "k \<in> K \<Longrightarrow> registry_reserve r i k = Ok r' \<Longrightarrow> reg_moves K r r'"
  "k \<in> K \<Longrightarrow> registry_accept r i k = Ok r' \<Longrightarrow> reg_moves K r r'"
  "k \<in> K \<Longrightarrow> registry_close r i k = Ok r' \<Longrightarrow> reg_moves K r r'"
  "k \<in> K \<Longrightarrow> reg_moves K r (registry_closeKind r k)"
  using reg_moves_step [of "OpReserve i k" K r] reg_moves_step [of "OpAccept i k" K r]
    reg_moves_step [of "OpClose i k" K r] reg_moves_step [of "OpCloseKind k" K r] by auto

lemma registry_step_inv: "registry_inv r \<Longrightarrow> registry_inv (registry_step r op)"
  using parent.reg_step_inv by (simp only: parent_reg_step)

lemma registry_step_dom: "registry_inv r \<Longrightarrow> dom r \<subseteq> dom (registry_step r op)"
  using parent.reg_step_advances [of r op] by (auto simp: parent.advances_def)

lemma registry_step_other:
  assumes "registry_inv r"
  shows "r i = Some rec \<Longrightarrow> sr_kind rec \<noteq> op_kind op \<Longrightarrow> registry_step r op i = Some rec"
    and "registry_step r op i = Some rec \<Longrightarrow> sr_kind rec \<noteq> op_kind op \<Longrightarrow> r i = Some rec"
proof -
  have "(r i = Some rec \<longrightarrow> sr_kind rec \<noteq> op_kind op \<longrightarrow> registry_step r op i = Some rec) \<and>
    (registry_step r op i = Some rec \<longrightarrow> sr_kind rec \<noteq> op_kind op \<longrightarrow> r i = Some rec)"
  proof (cases op)
    case (OpCloseKind k)
    then show ?thesis by (auto simp: registry_closeKind_def split: option.splits if_splits)
  qed (auto simp: registry_reserve_def registry_accept_def registry_close_def split: sum.splits option.splits if_splits)
  then show "r i = Some rec \<Longrightarrow> sr_kind rec \<noteq> op_kind op \<Longrightarrow> registry_step r op i = Some rec"
    and "registry_step r op i = Some rec \<Longrightarrow> sr_kind rec \<noteq> op_kind op \<Longrightarrow> r i = Some rec"
    by blast+
qed

lemma live_streams_step:
  "registry_inv r \<Longrightarrow> op_kind op \<noteq> k \<Longrightarrow> live_streams (registry_step r op) k = live_streams r k"
  unfolding live_streams_def by (intro Collect_cong) (metis registry_step_other)

lemma registry_isOpen_step:
  assumes "registry_inv r" "op_kind op \<noteq> k"
  shows "registry_isOpen (registry_step r op) i k = registry_isOpen r i k"
proof -
  have "registry_isOpen x i k \<longleftrightarrow> x i = Some \<lparr>sr_kind = k, sr_state = StreamOpen\<rparr>" for x
    by (auto simp: registry_isOpen_def split: option.splits)
  then show ?thesis using registry_step_other [OF assms(1)] assms(2) by (metis typed_stream_record.select_convs(1))
qed

end
