(* ===== verification/Terminal_Server.thy ===== *)
theory Terminal_Server
  imports Stream_Registry
begin

text \<open>
  The agent's terminal stream engine (\<open>internal/session/typed_stream_server.go\<close> and the
  terminal part of \<open>typed_stream_wiring.go\<close>).  A child stream is an object that outlives its
  entry in the stream table, as in the code, so children are kept in a store indexed by
  stream identifier (identifiers are never reused) and the table is the set of identifiers
  currently mapped.  What the engine does to the outside, starting and feeding
  pseudo-terminals and sending messages, is recorded in a log; the answers of the outside
  (whether a terminal starts, how much input it takes, whether a frame can be written) come
  from an environment.
\<close>

section \<open>State\<close>

definition typedTerminalReceiveWindow :: u32 where
  "typedTerminalReceiveWindow = 262144"

datatype out_msg =
    OutAccepted u32 u32
  | OutData u32 "byte list"
  | OutWindowUpdate u32 u32
  | OutClose u32 string
  | OutError u32 string string

datatype term_effect =
    PtyStart u32 u16 u16 string
  | PtyInput u32 "byte list"
  | PtyResize u32 u16 u16
  | PtyClose u32
  | Sent out_msg

text \<open>
  A child carries its two credit windows, whether it has been closed, and the state of its
  output goroutine: whether it still runs and the output it has read and not yet sent.
\<close>

record term_child =
  tc_send :: typed_stream_credit
  tc_recv :: typed_stream_credit
  tc_done :: bool
  tc_reading :: bool
  tc_pending :: "byte list"

record term_server =
  srv_states :: terminal_set
  srv_children :: "u32 \<rightharpoonup> term_child"
  srv_streams :: "u32 set"
  srv_log :: "term_effect list"

record term_env =
  env_start :: "u32 \<Rightarrow> u16 \<Rightarrow> u16 \<Rightarrow> string \<Rightarrow> bool"
  env_pty_write :: "u32 \<Rightarrow> byte list \<Rightarrow> nat \<times> bool"
  env_resize :: "u32 \<Rightarrow> u16 \<Rightarrow> u16 \<Rightarrow> bool"
  env_send :: "out_msg \<Rightarrow> bool"

text \<open>The strict JSON parsers of the message payloads, instances of \<open>ParseTypedStreamJSON\<close>.\<close>

record term_codec =
  p_open :: "byte list \<Rightarrow> (ts_error, stream_open) result"
  p_update :: "byte list \<Rightarrow> (ts_error, stream_window_update) result"
  p_resize :: "byte list \<Rightarrow> (ts_error, resize_msg) result"
  p_close :: "byte list \<Rightarrow> (ts_error, stream_close) result"
  p_error :: "byte list \<Rightarrow> (ts_error, stream_error) result"

datatype srv_error =
    ProtoMalformed
  | ProtoInvalid ts_error
  | ProtoRegistry reg_error
  | ProtoCredit credit_error
  | ProtoNotOpen u32
  | ProtoNoPTY u32
  | ProtoFrameType byte
  | ProtoNotNegotiated
  | ProtoUnavailable
  | ProtoStreamKind
  | SrvInvalid ts_error
  | SrvRegistry reg_error
  | SrvCredit credit_error
  | SrvWriteFailed
  | SrvClosedPipe

type_synonym srv_result = "srv_error option \<times> term_server"

definition newTypedTerminalServer :: "registry option \<Rightarrow> term_server" where
  "newTypedTerminalServer r =
     \<lparr>srv_states = newTypedTerminalStreamSetWithRegistry r, srv_children = Map.empty,
      srv_streams = {}, srv_log = []\<rparr>"

definition srv_effect :: "term_effect \<Rightarrow> term_server \<Rightarrow> term_server" where
  "srv_effect e s = s\<lparr>srv_log := srv_log s @ [e]\<rparr>"

definition srv_setChild :: "u32 \<Rightarrow> term_child \<Rightarrow> term_server \<Rightarrow> term_server" where
  "srv_setChild sid c s = s\<lparr>srv_children := (srv_children s)(sid \<mapsto> c)\<rparr>"

section \<open>Writing and closing\<close>

definition srv_writeFrame :: "term_env \<Rightarrow> out_msg \<Rightarrow> term_server \<Rightarrow> srv_result" where
  "srv_writeFrame env m s =
     (if env_send env m then (None, srv_effect (Sent m) s) else (Some SrvWriteFailed, s))"

definition srv_sendStreamError ::
  "term_env \<Rightarrow> u32 \<Rightarrow> string \<Rightarrow> string \<Rightarrow> term_server \<Rightarrow> srv_result" where
  "srv_sendStreamError env sid code message s =
     (case ValidateStreamError sid \<lparr>se_code = code, se_message = message\<rparr> of
        Err e \<Rightarrow> (Some (SrvInvalid e), s)
      | Ok _ \<Rightarrow> srv_writeFrame env (OutError sid code message) s)"

definition srv_statesClose :: "u32 \<Rightarrow> term_server \<Rightarrow> term_server" where
  "srv_statesClose sid s =
     (case terminals_close (srv_states s) sid of
        Err _ \<Rightarrow> s
      | Ok st \<Rightarrow> s\<lparr>srv_states := st\<rparr>)"

definition srv_markClosed :: "u32 \<Rightarrow> term_server \<Rightarrow> term_server" where
  "srv_markClosed sid s = (srv_statesClose sid s)\<lparr>srv_streams := srv_streams s - {sid}\<rparr>"

text \<open>\<open>child.closeOnce\<close>: the first close ends the child and its pseudo-terminal.\<close>

definition srv_closeChildOnce :: "u32 \<Rightarrow> term_server \<Rightarrow> term_server" where
  "srv_closeChildOnce sid s =
     (case srv_children s sid of
        None \<Rightarrow> s
      | Some c \<Rightarrow>
          if tc_done c then s
          else srv_effect (PtyClose sid)
                 (s\<lparr>srv_children := (srv_children s)(sid \<mapsto> c\<lparr>tc_done := True\<rparr>)\<rparr>))"

definition srv_closeStream ::
  "term_env \<Rightarrow> u32 \<Rightarrow> string \<Rightarrow> bool \<Rightarrow> term_server \<Rightarrow> srv_result" where
  "srv_closeStream env sid reason sendClose s =
     (if sid \<notin> srv_streams s \<or> \<not> terminals_isOpen (srv_states s) sid
      then (Some (ProtoNotOpen sid), s)
      else
        let s1 = (srv_statesClose sid s)\<lparr>srv_streams := srv_streams s - {sid}\<rparr>;
            s2 = srv_closeChildOnce sid s1
        in
          if \<not> sendClose then (None, s2)
          else
            (case ValidateStreamClose sid \<lparr>cl_reason = reason\<rparr> of
               Err e \<Rightarrow> (Some (SrvInvalid e), s2)
             | Ok _ \<Rightarrow> srv_writeFrame env (OutClose sid reason) s2))"

definition srv_openChild :: "u32 \<Rightarrow> term_server \<Rightarrow> (srv_error, term_child) result" where
  "srv_openChild sid s =
     (if \<not> terminals_isOpen (srv_states s) sid then Err (ProtoNotOpen sid)
      else if sid \<notin> srv_streams s then Err (ProtoNoPTY sid)
      else (case srv_children s sid of
          None \<Rightarrow> Err (ProtoNoPTY sid)
        | Some c \<Rightarrow> Ok c))"

text \<open>The start of the goroutine that forwards the terminal's output.\<close>

definition srv_startOutput :: "u32 \<Rightarrow> term_server \<Rightarrow> term_server" where
  "srv_startOutput sid s =
     (case srv_children s sid of
        None \<Rightarrow> s
      | Some c \<Rightarrow> srv_setChild sid (c\<lparr>tc_reading := True\<rparr>) s)"

section \<open>Frame handlers\<close>

definition srv_open :: "term_env \<Rightarrow> term_codec \<Rightarrow> frame \<Rightarrow> term_server \<Rightarrow> srv_result" where
  "srv_open env cd f s =
     (case p_open cd (f_payload f) of
        Err _ \<Rightarrow> (Some ProtoMalformed, s)
      | Ok open \<Rightarrow>
          (case ValidateStreamOpen (f_stream f) open of
             Err e \<Rightarrow> (Some (ProtoInvalid e), s)
           | Ok _ \<Rightarrow>
               (case terminals_reserve (srv_states s) (f_stream f) of
                  Err e \<Rightarrow> (Some (ProtoRegistry e), s)
                | Ok st \<Rightarrow>
                    let sid = f_stream f; s1 = s\<lparr>srv_states := st\<rparr> in
                    if \<not> env_start env sid (so_cols open) (so_rows open) (so_term open)
                    then srv_sendStreamError env sid ''pty_start_failed''
                           ''terminal stream could not start'' (srv_markClosed sid s1)
                    else
                      let s2 = srv_effect (PtyStart sid (so_cols open) (so_rows open) (so_term open)) s1 in
                      (case newTypedStreamCredit (so_window open) of
                         Err e \<Rightarrow> (Some (ProtoCredit e), srv_markClosed sid (srv_effect (PtyClose sid) s2))
                       | Ok sendCredit \<Rightarrow>
                           (case newTypedStreamCredit typedTerminalReceiveWindow of
                              Err e \<Rightarrow> (Some (SrvCredit e), srv_markClosed sid (srv_effect (PtyClose sid) s2))
                            | Ok recvCredit \<Rightarrow>
                                (case terminals_accept (srv_states s2) sid of
                                   Err e \<Rightarrow> (Some (SrvRegistry e), srv_effect (PtyClose sid) s2)
                                 | Ok st2 \<Rightarrow>
                                     let s3 = s2\<lparr>srv_states := st2,
                                           srv_children := (srv_children s2)(sid \<mapsto>
                                             \<lparr>tc_send = sendCredit, tc_recv = recvCredit, tc_done = False,
                                              tc_reading = False, tc_pending = []\<rparr>),
                                           srv_streams := insert sid (srv_streams s2)\<rparr>
                                     in
                                       (case ValidateStreamAccepted sid
                                           \<lparr>sa_window = typedTerminalReceiveWindow\<rparr> of
                                          Err e \<Rightarrow>
                                            (Some (SrvInvalid e),
                                             snd (srv_closeStream env sid ''internal_validation_failed'' False s3))
                                        | Ok _ \<Rightarrow>
                                            (case srv_writeFrame env
                                                (OutAccepted sid typedTerminalReceiveWindow) s3 of
                                               (Some e, s4) \<Rightarrow>
                                                 (Some e, snd (srv_closeStream env sid
                                                    ''transport_write_failed'' False s4))
                                             | (None, s4) \<Rightarrow> (None, srv_startOutput sid s4)))))))))"

definition srv_data :: "term_env \<Rightarrow> frame \<Rightarrow> term_server \<Rightarrow> srv_result" where
  "srv_data env f s =
     (let sid = f_stream f; payload = f_payload f in
      case ValidateStreamData sid payload of
        Err e \<Rightarrow> (Some (ProtoInvalid e), s)
      | Ok _ \<Rightarrow>
          (case srv_openChild sid s of
             Err e \<Rightarrow> (Some e, s)
           | Ok child \<Rightarrow>
               (case credit_consume (tc_recv child) (of_nat (length payload)) of
                  Err e \<Rightarrow> (Some (ProtoCredit e), s)
                | Ok rc \<Rightarrow>
                    let s1 = srv_setChild sid (child\<lparr>tc_recv := rc\<rparr>) s;
                        (n, failed) = env_pty_write env sid payload;
                        s2 = srv_effect (PtyInput sid (take n payload)) s1
                    in
                      if failed \<or> n \<noteq> length payload
                      then srv_sendStreamError env sid ''pty_write_failed'' ''terminal stream input failed''
                             (snd (srv_closeStream env sid ''pty_write_failed'' False s2))
                      else
                        (case ValidateStreamWindowUpdate sid \<lparr>wu_bytes = of_nat n\<rparr> of
                           Err e \<Rightarrow> (Some (SrvInvalid e), s2)
                         | Ok _ \<Rightarrow>
                             (case srv_writeFrame env (OutWindowUpdate sid (of_nat n)) s2 of
                                (Some e, s3) \<Rightarrow>
                                  (Some e, snd (srv_closeStream env sid ''transport_write_failed'' False s3))
                              | (None, s3) \<Rightarrow>
                                  (case credit_add rc (of_nat n) of
                                     Err e \<Rightarrow>
                                       (Some (SrvCredit e),
                                        snd (srv_closeStream env sid ''credit_accounting_failed'' False s3))
                                   | Ok rc2 \<Rightarrow>
                                       (None, srv_setChild sid (child\<lparr>tc_recv := rc2\<rparr>) s3)))))))"

definition srv_windowUpdate :: "term_codec \<Rightarrow> frame \<Rightarrow> term_server \<Rightarrow> srv_result" where
  "srv_windowUpdate cd f s =
     (case p_update cd (f_payload f) of
        Err _ \<Rightarrow> (Some ProtoMalformed, s)
      | Ok update \<Rightarrow>
          (case ValidateStreamWindowUpdate (f_stream f) update of
             Err e \<Rightarrow> (Some (ProtoInvalid e), s)
           | Ok _ \<Rightarrow>
               (case srv_openChild (f_stream f) s of
                  Err e \<Rightarrow> (Some e, s)
                | Ok child \<Rightarrow>
                    (case credit_add (tc_send child) (wu_bytes update) of
                       Err e \<Rightarrow> (Some (ProtoCredit e), s)
                     | Ok sc \<Rightarrow>
                         (None, srv_setChild (f_stream f) (child\<lparr>tc_send := sc\<rparr>) s)))))"

definition srv_resize :: "term_env \<Rightarrow> term_codec \<Rightarrow> frame \<Rightarrow> term_server \<Rightarrow> srv_result" where
  "srv_resize env cd f s =
     (case p_resize cd (f_payload f) of
        Err _ \<Rightarrow> (Some ProtoMalformed, s)
      | Ok rs \<Rightarrow>
          (case ValidateStreamResize (f_stream f) rs of
             Err e \<Rightarrow> (Some (ProtoInvalid e), s)
           | Ok _ \<Rightarrow>
               (case srv_openChild (f_stream f) s of
                  Err e \<Rightarrow> (Some e, s)
                | Ok child \<Rightarrow>
                    if \<not> env_resize env (f_stream f) (rs_cols rs) (rs_rows rs)
                    then srv_sendStreamError env (f_stream f) ''pty_resize_failed''
                           ''terminal stream resize failed''
                           (snd (srv_closeStream env (f_stream f) ''pty_resize_failed'' False s))
                    else (None, srv_effect (PtyResize (f_stream f) (rs_cols rs) (rs_rows rs)) s))))"

definition srv_peerClose :: "term_env \<Rightarrow> term_codec \<Rightarrow> frame \<Rightarrow> term_server \<Rightarrow> srv_result" where
  "srv_peerClose env cd f s =
     (case p_close cd (f_payload f) of
        Err _ \<Rightarrow> (Some ProtoMalformed, s)
      | Ok cm \<Rightarrow>
          (case ValidateStreamClose (f_stream f) cm of
             Err e \<Rightarrow> (Some (ProtoInvalid e), s)
           | Ok _ \<Rightarrow> srv_closeStream env (f_stream f) ''peer_close'' False s))"

definition srv_peerError :: "term_env \<Rightarrow> term_codec \<Rightarrow> frame \<Rightarrow> term_server \<Rightarrow> srv_result" where
  "srv_peerError env cd f s =
     (case p_error cd (f_payload f) of
        Err _ \<Rightarrow> (Some ProtoMalformed, s)
      | Ok se \<Rightarrow>
          (case ValidateStreamError (f_stream f) se of
             Err e \<Rightarrow> (Some (ProtoInvalid e), s)
           | Ok _ \<Rightarrow> srv_closeStream env (f_stream f) ''peer_error'' False s))"

definition srv_Handle :: "term_env \<Rightarrow> term_codec \<Rightarrow> frame \<Rightarrow> term_server \<Rightarrow> srv_result" where
  "srv_Handle env cd f s =
     (if f_type f = TypeStreamOpen then srv_open env cd f s
      else if f_type f = TypeStreamData then srv_data env f s
      else if f_type f = TypeStreamWindowUpdate then srv_windowUpdate cd f s
      else if f_type f = TypeStreamResize then srv_resize env cd f s
      else if f_type f = TypeStreamClose then srv_peerClose env cd f s
      else if f_type f = TypeStreamError then srv_peerError env cd f s
      else (Some (ProtoFrameType (f_type f)), s))"

section \<open>Output and termination of a child\<close>

text \<open>
  The size of the next data chunk: what is left to send, at most the chunk limit and at
  most the available credit.
\<close>

definition next_chunk :: "u32 \<Rightarrow> nat \<Rightarrow> nat" where
  "next_chunk available left = min (min left MaxTypedStreamChunk) (unat available)"

lemma next_chunk_pos: "available \<noteq> 0 \<Longrightarrow> 0 < left \<Longrightarrow> 0 < next_chunk available left"
  by (simp add: next_chunk_def MaxTypedStreamChunk_def unat_gt_0)

lemma next_chunk_le:
  "next_chunk available left \<le> left" "next_chunk available left \<le> MaxTypedStreamChunk"
  "next_chunk available left \<le> unat available"
  by (simp_all add: next_chunk_def)

text \<open>
  \<open>sendData\<close> sends output in chunks until everything is sent, a write fails or the credit
  is used up.  Without credit it waits for the next window update, so the outcome then is
  the output that is still to be sent, unless the child has been closed.
\<close>

datatype send_outcome =
    SendDone
  | SendBlocked "byte list"
  | SendFailed srv_error

function srv_sendData ::
  "term_env \<Rightarrow> u32 \<Rightarrow> byte list \<Rightarrow> term_server \<Rightarrow> send_outcome \<times> term_server" where
  "srv_sendData env sid data s =
     (if data = [] then (SendDone, s)
      else (case srv_children s sid of
          None \<Rightarrow> (SendFailed (ProtoNoPTY sid), s)
        | Some child \<Rightarrow>
            let available = credit_available (tc_send child);
                chunk = next_chunk available (length data)
            in
              if available = 0 then
                (if tc_done child then SendFailed SrvClosedPipe else SendBlocked data, s)
              else
                (case credit_consume (tc_send child) (of_nat chunk) of
                   Err e \<Rightarrow> (SendFailed (SrvCredit e), s)
                 | Ok sc \<Rightarrow>
                     (case srv_writeFrame env (OutData sid (take chunk data))
                         (srv_setChild sid (child\<lparr>tc_send := sc\<rparr>) s) of
                        (Some e, s1) \<Rightarrow> (SendFailed e, s1)
                      | (None, s1) \<Rightarrow> srv_sendData env sid (drop chunk data) s1))))"
  by pat_completeness auto
termination
  by (relation "measure (\<lambda>(env, sid, data, s). length data)") (auto simp: next_chunk_pos)

declare srv_sendData.simps [simp del]

text \<open>
  One round of \<open>forwardOutput\<close>: the goroutine sends what the terminal read returned
  (\<open>None\<close> when the read failed) and stops on the first failure.  \<open>srv_resumeOutput\<close> is its
  wake-up after a window update or after the child's closing.
\<close>

definition srv_finishSend :: "u32 \<Rightarrow> send_outcome \<times> term_server \<Rightarrow> term_server" where
  "srv_finishSend sid r =
     (case srv_children (snd r) sid of
        None \<Rightarrow> snd r
      | Some c \<Rightarrow>
          srv_setChild sid
            (case fst r of
               SendDone \<Rightarrow> c\<lparr>tc_pending := []\<rparr>
             | SendBlocked rest \<Rightarrow> c\<lparr>tc_pending := rest\<rparr>
             | SendFailed e \<Rightarrow> c\<lparr>tc_pending := [], tc_reading := False\<rparr>) (snd r))"

definition srv_forwardOutput :: "term_env \<Rightarrow> u32 \<Rightarrow> byte list option \<Rightarrow> term_server \<Rightarrow> term_server" where
  "srv_forwardOutput env sid chunk s =
     (case srv_children s sid of
        None \<Rightarrow> s
      | Some c \<Rightarrow>
          if \<not> tc_reading c \<or> tc_pending c \<noteq> [] then s
          else (case chunk of
              None \<Rightarrow> srv_setChild sid (c\<lparr>tc_reading := False\<rparr>) s
            | Some data \<Rightarrow> srv_finishSend sid (srv_sendData env sid data s)))"

definition srv_resumeOutput :: "term_env \<Rightarrow> u32 \<Rightarrow> term_server \<Rightarrow> term_server" where
  "srv_resumeOutput env sid s =
     (case srv_children s sid of
        None \<Rightarrow> s
      | Some c \<Rightarrow>
          if \<not> tc_reading c \<or> tc_pending c = [] then s
          else srv_finishSend sid (srv_sendData env sid (tc_pending c) s))"

text \<open>
  \<open>waitProcess\<close> after the process has ended: it closes the stream once all output has been
  forwarded or when the drain time is over, and does nothing when the child is closed.
\<close>

definition srv_waitProcess :: "term_env \<Rightarrow> u32 \<Rightarrow> bool \<Rightarrow> term_server \<Rightarrow> term_server" where
  "srv_waitProcess env sid timedOut s =
     (case srv_children s sid of
        None \<Rightarrow> s
      | Some c \<Rightarrow>
          if tc_done c then s
          else if timedOut then snd (srv_closeStream env sid ''pty_drain_timeout'' True s)
          else if \<not> tc_reading c then snd (srv_closeStream env sid ''process_exit'' True s)
          else s)"

definition srv_CloseAll :: "term_server \<Rightarrow> term_server" where
  "srv_CloseAll s =
     \<lparr>srv_states = terminals_closeAll (srv_states s),
      srv_children = (\<lambda>sid. map_option
         (\<lambda>c. if sid \<in> srv_streams s then c\<lparr>tc_done := True\<rparr> else c) (srv_children s sid)),
      srv_streams = {},
      srv_log = srv_log s @ map PtyClose (sorted_list_of_set
         {sid \<in> srv_streams s. \<exists>c. srv_children s sid = Some c \<and> \<not> tc_done c})\<rparr>"


section \<open>The invariant of the engine\<close>

text \<open>
  Between two steps the stream table, the registry and the children agree: the mapped
  streams are exactly the live terminal streams, each is open and has a running child,
  every other child is closed, no send window exceeds the maximum, at most one
  pseudo-terminal was ever started for an identifier, and every one that was started has
  been closed exactly once unless its stream is mapped.
\<close>

definition pty_starts :: "u32 \<Rightarrow> term_effect list \<Rightarrow> nat" where
  "pty_starts sid es = length (filter (\<lambda>e. case e of PtyStart i _ _ _ \<Rightarrow> i = sid | _ \<Rightarrow> False) es)"

definition pty_closes :: "u32 \<Rightarrow> term_effect list \<Rightarrow> nat" where
  "pty_closes sid es = length (filter (\<lambda>e. e = PtyClose sid) es)"

lemma pty_count_simps [simp]:
  "pty_starts sid [] = 0" "pty_closes sid [] = 0"
  "pty_starts sid (es @ es') = pty_starts sid es + pty_starts sid es'"
  "pty_closes sid (es @ es') = pty_closes sid es + pty_closes sid es'"
  "pty_starts sid (Sent m # es) = pty_starts sid es"
  "pty_starts sid (PtyInput i d # es) = pty_starts sid es"
  "pty_starts sid (PtyResize i a b # es) = pty_starts sid es"
  "pty_starts sid (PtyClose i # es) = pty_starts sid es"
  "pty_starts sid (PtyStart i a b c # es) = (if i = sid then 1 else 0) + pty_starts sid es"
  "pty_closes sid (PtyClose i # es) = (if i = sid then 1 else 0) + pty_closes sid es"
  "pty_closes sid (PtyStart i a b c # es) = pty_closes sid es"
  "pty_closes sid (Sent m # es) = pty_closes sid es"
  "pty_closes sid (PtyInput i d # es) = pty_closes sid es"
  "pty_closes sid (PtyResize i a b # es) = pty_closes sid es"
  by (simp_all add: pty_starts_def pty_closes_def)

definition srv_registry :: "term_server \<Rightarrow> registry" where
  "srv_registry s = tset_registry (srv_states s)"

definition started_once :: "registry \<Rightarrow> term_effect list \<Rightarrow> bool" where
  "started_once r es \<longleftrightarrow> (\<forall>sid. pty_starts sid es \<le> (if sid \<in> dom r then 1 else 0))"

lemma started_once_simps [simp]:
  "started_once r (es @ [Sent m]) = started_once r es"
  "started_once r (es @ [PtyInput i d]) = started_once r es"
  "started_once r (es @ [PtyResize i a b]) = started_once r es"
  "started_once r (es @ [PtyClose i]) = started_once r es"
  by (simp_all add: started_once_def)

lemma started_once_mono: "started_once r es \<Longrightarrow> dom r \<subseteq> dom r' \<Longrightarrow> started_once r' es"
  unfolding started_once_def by (metis (full_types) subsetD le_zero_eq zero_le)

lemma started_once_upd: "started_once r es \<Longrightarrow> started_once (r(i \<mapsto> rec)) es"
  by (erule started_once_mono) auto

lemma started_once_start:
  assumes "started_once r es" and "r i = None"
  shows "started_once (r(i \<mapsto> rec)) (es @ [PtyStart i a b c])"
  unfolding started_once_def
proof
  fix j
  show "pty_starts j (es @ [PtyStart i a b c]) \<le> (if j \<in> dom (r(i \<mapsto> rec)) then 1 else 0)"
    using assms spec [OF assms(1) [unfolded started_once_def], of j] by (cases "j = i") (auto simp: dom_def)
qed

definition server_inv :: "term_server \<Rightarrow> bool" where
  "server_inv s \<longleftrightarrow>
     terminal_set_inv (srv_states s) \<and>
     srv_streams s = live_streams (srv_registry s) StreamKindTerminal \<and>
     (\<forall>sid \<in> srv_streams s. terminals_isOpen (srv_states s) sid) \<and>
     (\<forall>sid. sid \<in> srv_streams s \<longleftrightarrow> (\<exists>c. srv_children s sid = Some c \<and> \<not> tc_done c)) \<and>
     (\<forall>sid c. srv_children s sid = Some c \<longrightarrow> credit_nat (tc_send c) \<le> unat MaxTypedStreamWindow) \<and>
     dom (srv_children s) \<subseteq> dom (srv_registry s) \<and>
     (\<forall>sid. pty_starts sid (srv_log s) = pty_closes sid (srv_log s) + (if sid \<in> srv_streams s then 1 else 0)) \<and>
     started_once (srv_registry s) (srv_log s)"

text \<open>The receive window of every mapped stream except those in \<open>X\<close> is completely available.\<close>

definition recv_full :: "u32 set \<Rightarrow> term_server \<Rightarrow> bool" where
  "recv_full X s \<longleftrightarrow>
     (\<forall>sid c. sid \<in> srv_streams s - X \<longrightarrow> srv_children s sid = Some c \<longrightarrow>
        tc_recv c = \<lparr>cr_remaining = typedTerminalReceiveWindow\<rparr>)"

lemma srv_effect_sel [simp]:
  "srv_states (srv_effect e s) = srv_states s" "srv_children (srv_effect e s) = srv_children s"
  "srv_streams (srv_effect e s) = srv_streams s" "srv_log (srv_effect e s) = srv_log s @ [e]"
  "srv_registry (srv_effect e s) = srv_registry s"
  by (simp_all add: srv_effect_def srv_registry_def)

lemma srv_setChild_sel [simp]:
  "srv_states (srv_setChild i c s) = srv_states s"
  "srv_children (srv_setChild i c s) = (srv_children s)(i \<mapsto> c)"
  "srv_streams (srv_setChild i c s) = srv_streams s" "srv_log (srv_setChild i c s) = srv_log s"
  "srv_registry (srv_setChild i c s) = srv_registry s"
  by (simp_all add: srv_setChild_def srv_registry_def)

lemma server_inv_sent [simp]: "server_inv (srv_effect (Sent m) s) = server_inv s"
  and server_inv_input [simp]: "server_inv (srv_effect (PtyInput i d) s) = server_inv s"
  and server_inv_resize [simp]: "server_inv (srv_effect (PtyResize i a b) s) = server_inv s"
  and recv_full_effect [simp]: "recv_full X (srv_effect e s) = recv_full X s"
  by (simp_all add: server_inv_def recv_full_def)

lemma server_inv_writeFrame: "server_inv s \<Longrightarrow> server_inv (snd (srv_writeFrame env m s))"
  by (simp add: srv_writeFrame_def)

lemma recv_full_writeFrame: "recv_full X s \<Longrightarrow> recv_full X (snd (srv_writeFrame env m s))"
  by (simp add: srv_writeFrame_def)

lemma server_inv_sendStreamError:
  "server_inv s \<Longrightarrow> server_inv (snd (srv_sendStreamError env i code msg s))"
  by (simp add: srv_sendStreamError_def server_inv_writeFrame split: sum.split)

lemma recv_full_sendStreamError:
  "recv_full X s \<Longrightarrow> recv_full X (snd (srv_sendStreamError env i code msg s))"
  by (simp add: srv_sendStreamError_def recv_full_writeFrame split: sum.split)

lemma server_inv_setChild:
  assumes "server_inv s" and "srv_children s i = Some c" and "tc_done c' = tc_done c"
    and "credit_nat (tc_send c') \<le> unat MaxTypedStreamWindow"
  shows "server_inv (srv_setChild i c' s)"
  using assms unfolding server_inv_def by auto

lemma server_inv_child:
  "server_inv s \<Longrightarrow> srv_children s i = Some c \<Longrightarrow> credit_nat (tc_send c) \<le> unat MaxTypedStreamWindow"
  by (simp add: server_inv_def)

lemma server_inv_not_done:
  "server_inv s \<Longrightarrow> srv_children s i = Some c \<Longrightarrow> tc_done c = (i \<notin> srv_streams s)"
  by (auto simp: server_inv_def)

lemma terminals_close_open:
  "terminals_isOpen st i \<Longrightarrow> \<exists>st'. terminals_close st i = Ok st' \<and>
     tset_registry st' = (tset_registry st)(i \<mapsto> \<lparr>sr_kind = StreamKindTerminal, sr_state = StreamClosed\<rparr>)"
  by (auto simp: terminals_isOpen_def registry_isOpen_def terminals_close_def registry_close_def
      split: option.splits)

text \<open>Closing a mapped stream: the table loses it, the child ends and its terminal is closed.\<close>

definition srv_closed :: "u32 \<Rightarrow> term_child \<Rightarrow> terminal_set \<Rightarrow> term_server \<Rightarrow> term_server" where
  "srv_closed i c st s =
     s\<lparr>srv_states := st, srv_children := (srv_children s)(i \<mapsto> c\<lparr>tc_done := True\<rparr>),
       srv_streams := srv_streams s - {i}, srv_log := srv_log s @ [PtyClose i]\<rparr>"

lemma closeStream_open:
  assumes "server_inv s" and "i \<in> srv_streams s"
  obtains c st where "srv_children s i = Some c" and "terminals_close (srv_states s) i = Ok st"
    and "\<And>env reason. srv_closeStream env i reason False s = (None, srv_closed i c st s)"
    and "\<And>env reason. snd (srv_closeStream env i reason True s) \<in>
           {srv_closed i c st s, srv_effect (Sent (OutClose i reason)) (srv_closed i c st s)}"
proof -
  from assms obtain c where c: "srv_children s i = Some c" "\<not> tc_done c"
    and op: "terminals_isOpen (srv_states s) i"
    by (auto simp: server_inv_def)
  from terminals_close_open [OF op] obtain st where st: "terminals_close (srv_states s) i = Ok st"
    by blast
  have eq: "srv_closeChildOnce i ((srv_statesClose i s)\<lparr>srv_streams := srv_streams s - {i}\<rparr>) = srv_closed i c st s"
    using c st by (simp add: srv_closeChildOnce_def srv_statesClose_def srv_effect_def srv_closed_def)
  show ?thesis
    by (rule that [OF c(1) st])
      (use assms(2) op eq in \<open>auto simp: srv_closeStream_def Let_def srv_writeFrame_def split: sum.split\<close>)
qed

lemma server_inv_closed:
  assumes inv: "server_inv s" and i: "i \<in> srv_streams s"
    and c: "srv_children s i = Some c" and st: "terminals_close (srv_states s) i = Ok st"
  shows "server_inv (srv_closed i c st s)"
proof -
  have op: "terminals_isOpen (srv_states s) i" using inv i by (auto simp: server_inv_def)
  have reg: "tset_registry st = (tset_registry (srv_states s))(i \<mapsto> \<lparr>sr_kind = StreamKindTerminal, sr_state = StreamClosed\<rparr>)"
    using terminals_close_open [OF op] st by auto
  have tinv: "terminal_set_inv st"
    using inv st by (auto simp: server_inv_def intro: terminal_set_inv_close)
  have live: "live_streams (tset_registry st) StreamKindTerminal = srv_streams s - {i}"
    using inv reg by (auto simp: server_inv_def srv_registry_def live_streams_def)
  have others: "\<forall>j \<in> srv_streams s - {i}. terminals_isOpen st j"
    using inv reg by (auto simp: server_inv_def terminals_isOpen_def registry_isOpen_def)
  have kids: "\<forall>j. j \<in> srv_streams s \<longleftrightarrow> (\<exists>c. srv_children s j = Some c \<and> \<not> tc_done c)"
    and cred: "\<forall>j c. srv_children s j = Some c \<longrightarrow> credit_nat (tc_send c) \<le> unat MaxTypedStreamWindow"
    and dom: "dom (srv_children s) \<subseteq> dom (tset_registry (srv_states s))"
    and once: "started_once (tset_registry (srv_states s)) (srv_log s)"
    and bal: "\<forall>j. pty_starts j (srv_log s) = pty_closes j (srv_log s) + (if j \<in> srv_streams s then 1 else 0)"
    using inv unfolding server_inv_def srv_registry_def by blast+
  show ?thesis
    unfolding server_inv_def
  proof (intro conjI)
    show "\<forall>j. j \<in> srv_streams (srv_closed i c st s) \<longleftrightarrow>
        (\<exists>d. srv_children (srv_closed i c st s) j = Some d \<and> \<not> tc_done d)"
      using kids by (simp add: srv_closed_def)
    show "\<forall>j d. srv_children (srv_closed i c st s) j = Some d \<longrightarrow> credit_nat (tc_send d) \<le> unat MaxTypedStreamWindow"
      using cred c by (simp add: srv_closed_def)
    show "dom (srv_children (srv_closed i c st s)) \<subseteq> dom (srv_registry (srv_closed i c st s))"
      using dom reg by (auto simp: srv_closed_def srv_registry_def)
    show "\<forall>j. pty_starts j (srv_log (srv_closed i c st s)) = pty_closes j (srv_log (srv_closed i c st s)) +
        (if j \<in> srv_streams (srv_closed i c st s) then 1 else 0)"
      using bal i by (simp add: srv_closed_def)
    show "started_once (srv_registry (srv_closed i c st s)) (srv_log (srv_closed i c st s))"
      using once reg by (simp add: srv_closed_def srv_registry_def started_once_upd)
  qed (use tinv live others in \<open>simp_all add: srv_closed_def srv_registry_def\<close>)
qed

lemma closeStream_unmapped:
  "i \<notin> srv_streams s \<Longrightarrow> srv_closeStream env i reason b s = (Some (ProtoNotOpen i), s)"
  by (simp add: srv_closeStream_def)

lemma server_inv_closeStream:
  assumes "server_inv s"
  shows "server_inv (snd (srv_closeStream env i reason b s))"
proof (cases "i \<in> srv_streams s")
  case True
  from closeStream_open [OF assms True] obtain c st where cs: "srv_children s i = Some c"
    "terminals_close (srv_states s) i = Ok st"
    and res: "srv_closeStream env i reason False s = (None, srv_closed i c st s)"
      "snd (srv_closeStream env i reason True s) \<in>
           {srv_closed i c st s, srv_effect (Sent (OutClose i reason)) (srv_closed i c st s)}"
    by metis
  from server_inv_closed [OF assms True cs] res show ?thesis by (cases b) auto
qed (use assms in \<open>simp add: closeStream_unmapped\<close>)

lemma recv_full_closeStream:
  assumes "server_inv s" and "recv_full {i} s"
  shows "recv_full {} (snd (srv_closeStream env i reason b s))"
proof (cases "i \<in> srv_streams s")
  case True
  from closeStream_open [OF assms(1) True] obtain c st where
    res: "srv_closeStream env i reason False s = (None, srv_closed i c st s)"
      "snd (srv_closeStream env i reason True s) \<in>
           {srv_closed i c st s, srv_effect (Sent (OutClose i reason)) (srv_closed i c st s)}"
    by metis
  have "recv_full {} (srv_closed i c st s)"
    using assms(2) by (auto simp: recv_full_def srv_closed_def)
  with res show ?thesis by (cases b) auto
next
  case False
  with assms(2) show ?thesis by (simp add: closeStream_unmapped recv_full_def)
qed

lemma recv_full_weaken: "recv_full {} s \<Longrightarrow> recv_full X s"
  by (auto simp: recv_full_def)


subsection \<open>Every step keeps it\<close>

definition server_ok :: "term_server \<Rightarrow> bool" where
  "server_ok s \<longleftrightarrow> server_inv s \<and> recv_full {} s"

lemma server_okI: "server_inv s \<Longrightarrow> recv_full {} s \<Longrightarrow> server_ok s"
  and server_ok_inv: "server_ok s \<Longrightarrow> server_inv s"
  and server_ok_recv: "server_ok s \<Longrightarrow> recv_full {} s"
  by (simp_all add: server_ok_def)

lemma server_ok_effect [simp]:
  "server_ok (srv_effect (Sent m) s) = server_ok s"
  "server_ok (srv_effect (PtyResize i a b) s) = server_ok s"
  "server_ok (srv_effect (PtyInput i d) s) = server_ok s"
  by (simp_all add: server_ok_def)

lemma server_ok_writeFrame: "server_ok s \<Longrightarrow> server_ok (snd (srv_writeFrame env m s))"
  by (simp add: srv_writeFrame_def)

lemma server_ok_sendStreamError: "server_ok s \<Longrightarrow> server_ok (snd (srv_sendStreamError env i code msg s))"
  by (simp add: server_ok_def server_inv_sendStreamError recv_full_sendStreamError)

lemma server_ok_closeStream: "server_ok s \<Longrightarrow> server_ok (snd (srv_closeStream env i reason b s))"
  by (simp add: server_ok_def server_inv_closeStream recv_full_closeStream recv_full_weaken)

lemma openChild_Ok:
  "srv_openChild i s = Ok c \<longleftrightarrow>
     terminals_isOpen (srv_states s) i \<and> i \<in> srv_streams s \<and> srv_children s i = Some c"
  by (auto simp: srv_openChild_def split: option.splits)

lemma server_ok_new: "server_ok (newTypedTerminalServer None)"
  using terminal_set_inv_new
  by (simp add: server_ok_def server_inv_def recv_full_def newTypedTerminalServer_def srv_registry_def
      newTypedTerminalStreamSetWithRegistry_def newTypedParentStreamRegistry_def live_streams_def
      started_once_def)

lemma server_ok_peerClose: "server_ok s \<Longrightarrow> server_ok (snd (srv_peerClose env cd f s))"
  by (simp add: srv_peerClose_def server_ok_closeStream split: sum.split)

lemma server_ok_peerError: "server_ok s \<Longrightarrow> server_ok (snd (srv_peerError env cd f s))"
  by (simp add: srv_peerError_def server_ok_closeStream split: sum.split)

lemma server_ok_resize: "server_ok s \<Longrightarrow> server_ok (snd (srv_resize env cd f s))"
  by (simp add: srv_resize_def server_ok_closeStream server_ok_sendStreamError split: sum.split)

lemma server_ok_setChild:
  assumes "server_ok s" and "srv_children s i = Some c" and "tc_done c' = tc_done c"
    and "credit_nat (tc_send c') \<le> unat MaxTypedStreamWindow" and "tc_recv c' = tc_recv c"
  shows "server_ok (srv_setChild i c' s)"
  using server_inv_setChild [OF server_ok_inv [OF assms(1)] assms(2-4)] assms(1,2,5)
  by (auto simp: server_ok_def recv_full_def)

lemma server_ok_windowUpdate: "server_ok s \<Longrightarrow> server_ok (snd (srv_windowUpdate cd f s))"
  by (auto simp: srv_windowUpdate_def openChild_Ok split: sum.split
      dest: stream_credit.grant_Ok intro!: server_ok_setChild)

text \<open>
  A valid data frame for an open stream always finds enough receive credit, because the
  window is larger than a chunk and is restored after every frame; so the only outcomes are
  that the input is delivered and credited back, that the terminal refuses it and the stream
  ends with an error message, or that the transport fails.
\<close>

lemma credit_restore:
  assumes "0 < n" and "n \<le> MaxTypedStreamChunk"
  shows "credit_consume \<lparr>cr_remaining = typedTerminalReceiveWindow\<rparr> (of_nat n) =
      Ok \<lparr>cr_remaining = typedTerminalReceiveWindow - of_nat n\<rparr>"
    and "credit_add \<lparr>cr_remaining = typedTerminalReceiveWindow - of_nat n\<rparr> (of_nat n) =
      Ok \<lparr>cr_remaining = typedTerminalReceiveWindow\<rparr>"
    and "(of_nat n :: u32) \<noteq> 0" and "(of_nat n :: u32) \<le> MaxTypedStreamWindow"
proof -
  have n: "unat (of_nat n :: u32) = n"
    using assms(2) by (intro unat_of_nat_u32) (simp add: MaxTypedStreamChunk_def)
  have w: "unat typedTerminalReceiveWindow = 262144" "unat MaxTypedStreamWindow = 1048576"
    by (simp_all add: typedTerminalReceiveWindow_def MaxTypedStreamWindow_def)
  have le: "(of_nat n :: u32) \<le> typedTerminalReceiveWindow"
    using assms(2) n w by (simp add: word_le_nat_alt MaxTypedStreamChunk_def)
  show nz: "(of_nat n :: u32) \<noteq> 0" using assms(1) n by (metis unat_0 less_irrefl)
  show ml: "(of_nat n :: u32) \<le> MaxTypedStreamWindow"
    using assms(2) n w by (simp add: word_le_nat_alt MaxTypedStreamChunk_def)
  show "credit_consume \<lparr>cr_remaining = typedTerminalReceiveWindow\<rparr> (of_nat n) =
      Ok \<lparr>cr_remaining = typedTerminalReceiveWindow - of_nat n\<rparr>"
    using nz le by (simp add: credit_consume_def)
  have "unat (typedTerminalReceiveWindow - of_nat n) \<le> unat (MaxTypedStreamWindow - (of_nat n :: u32))"
    using le ml n w by (simp add: unat_sub)
  then show "credit_add \<lparr>cr_remaining = typedTerminalReceiveWindow - of_nat n\<rparr> (of_nat n) =
      Ok \<lparr>cr_remaining = typedTerminalReceiveWindow\<rparr>"
    using nz ml by (simp add: credit_add_def not_less word_le_nat_alt)
qed

definition srv_fed :: "u32 \<Rightarrow> term_child \<Rightarrow> byte list \<Rightarrow> nat \<Rightarrow> term_server \<Rightarrow> term_server" where
  "srv_fed i c p n s =
     srv_effect (PtyInput i (take n p))
       (srv_setChild i (c\<lparr>tc_recv := \<lparr>cr_remaining = typedTerminalReceiveWindow - of_nat (length p)\<rparr>\<rparr>) s)"

lemma srv_data_open:
  assumes ok: "server_ok s" and v: "ValidateStreamData (f_stream f) (f_payload f) = Ok ()"
    and c: "srv_openChild (f_stream f) s = Ok c"
    and w: "env_pty_write env (f_stream f) (f_payload f) = (n, bad)"
  shows "srv_data env f s =
    (if bad \<or> n \<noteq> length (f_payload f)
     then srv_sendStreamError env (f_stream f) ''pty_write_failed'' ''terminal stream input failed''
       (snd (srv_closeStream env (f_stream f) ''pty_write_failed'' False (srv_fed (f_stream f) c (f_payload f) n s)))
     else if env_send env (OutWindowUpdate (f_stream f) (of_nat n))
     then (None, srv_effect (Sent (OutWindowUpdate (f_stream f) (of_nat n)))
            (srv_effect (PtyInput (f_stream f) (f_payload f)) s))
     else (Some SrvWriteFailed,
           snd (srv_closeStream env (f_stream f) ''transport_write_failed'' False (srv_fed (f_stream f) c (f_payload f) n s))))"
proof -
  have p: "0 < length (f_payload f)" "length (f_payload f) \<le> MaxTypedStreamChunk"
    and i: "MinTypedStreamID \<le> f_stream f"
    using v by (simp_all add: ValidateStreamData_Ok)
  have full: "tc_recv c = \<lparr>cr_remaining = typedTerminalReceiveWindow\<rparr>"
    using ok c by (auto simp: server_ok_def recv_full_def openChild_Ok)
  have wu: "ValidateStreamWindowUpdate (f_stream f) \<lparr>wu_bytes = of_nat (length (f_payload f))\<rparr> = Ok ()"
    using i credit_restore [OF p] by (simp add: ValidateStreamWindowUpdate_Ok)
  have same: "c\<lparr>tc_recv := \<lparr>cr_remaining = typedTerminalReceiveWindow\<rparr>\<rparr> = c" using full by simp
  have again: "srv_setChild (f_stream f) c (srv_effect e (srv_effect e' (srv_setChild (f_stream f) c' s))) =
      srv_effect e (srv_effect e' s)" for e e' c'
    using c by (simp add: openChild_Ok srv_setChild_def srv_effect_def map_upd_triv)
  show ?thesis
    using v c w wu
    by (simp add: srv_data_def Let_def full credit_restore [OF p] srv_fed_def srv_writeFrame_def
        same again)
qed

lemma server_fed:
  assumes ok: "server_ok s" and c: "srv_openChild i s = Ok c"
  shows "server_inv (srv_fed i c p n s)" and "recv_full {i} (srv_fed i c p n s)"
proof -
  have c': "srv_children s i = Some c" using c by (simp add: openChild_Ok)
  show "server_inv (srv_fed i c p n s)"
    using server_inv_setChild [OF server_ok_inv [OF ok] c', of "c\<lparr>tc_recv := r\<rparr>" for r]
      server_inv_child [OF server_ok_inv [OF ok] c'] by (simp add: srv_fed_def)
  show "recv_full {i} (srv_fed i c p n s)"
    using ok by (auto simp: srv_fed_def server_ok_def recv_full_def)
qed

lemma srv_data_invalid:
  "ValidateStreamData (f_stream f) (f_payload f) \<noteq> Ok () \<or> \<not> is_ok (srv_openChild (f_stream f) s) \<Longrightarrow>
     snd (srv_data env f s) = s"
  by (auto simp: srv_data_def Let_def split: sum.split)

lemma server_ok_data:
  assumes ok: "server_ok s"
  shows "server_ok (snd (srv_data env f s))"
proof (cases "ValidateStreamData (f_stream f) (f_payload f) = Ok () \<and> is_ok (srv_openChild (f_stream f) s)")
  case False
  then show ?thesis using ok by (simp add: srv_data_invalid)
next
  case True
  then obtain c where v: "ValidateStreamData (f_stream f) (f_payload f) = Ok ()"
    and c: "srv_openChild (f_stream f) s = Ok c"
    by (auto simp: is_ok_iff)
  obtain n bad where w: "env_pty_write env (f_stream f) (f_payload f) = (n, bad)" by fastforce
  have cl: "server_ok (snd (srv_closeStream env (f_stream f) r b (srv_fed (f_stream f) c (f_payload f) m s)))"
    for r b m
    by (simp add: server_ok_def server_inv_closeStream recv_full_closeStream server_fed [OF ok c])
  show ?thesis
    using ok by (simp add: srv_data_open [OF ok v c w] server_ok_sendStreamError cl)
qed


definition terminal_opened :: "u32 \<Rightarrow> terminal_set \<Rightarrow> terminal_set" where
  "terminal_opened i st =
     \<lparr>tset_registry = (tset_registry st)(i \<mapsto> \<lparr>sr_kind = StreamKindTerminal, sr_state = StreamOpen\<rparr>),
      tset_open = tset_open st + 1\<rparr>"

lemma terminals_reserve_Ok:
  "terminals_reserve st i = Ok st' \<longleftrightarrow>
     tset_open st < maxTerminalStreamsPerConnection - 1 \<and> MinTypedStreamID \<le> i \<and>
     tset_registry st i = None \<and> card (dom (tset_registry st)) < maxTypedStreamIDsPerConnection \<and>
     st' = \<lparr>tset_registry = (tset_registry st)(i \<mapsto> \<lparr>sr_kind = StreamKindTerminal, sr_state = StreamOpening\<rparr>),
            tset_open = tset_open st + 1\<rparr>"
  by (auto simp: terminals_reserve_def registry_reserve_def result_splits StreamKindTerminal_def)

lemma terminals_accept_reserved:
  "terminals_reserve st i = Ok st' \<Longrightarrow> terminals_accept st' i = Ok (terminal_opened i st)"
  by (auto simp: terminals_reserve_Ok terminals_accept_def registry_accept_def terminal_opened_def)

definition srv_opened :: "u32 \<Rightarrow> stream_open \<Rightarrow> bool \<Rightarrow> term_server \<Rightarrow> term_server" where
  "srv_opened i open rd s =
     s\<lparr>srv_states := terminal_opened i (srv_states s),
       srv_children := (srv_children s)(i \<mapsto>
          \<lparr>tc_send = \<lparr>cr_remaining = so_window open\<rparr>,
           tc_recv = \<lparr>cr_remaining = typedTerminalReceiveWindow\<rparr>,
           tc_done = False, tc_reading = rd, tc_pending = []\<rparr>),
       srv_streams := insert i (srv_streams s),
       srv_log := srv_log s @ [PtyStart i (so_cols open) (so_rows open) (so_term open)]\<rparr>"

definition srv_refused :: "u32 \<Rightarrow> term_server \<Rightarrow> term_server" where
  "srv_refused i s =
     s\<lparr>srv_states :=
        (srv_states s)\<lparr>tset_registry := (tset_registry (srv_states s))
           (i \<mapsto> \<lparr>sr_kind = StreamKindTerminal, sr_state = StreamClosed\<rparr>)\<rparr>,
       srv_streams := srv_streams s - {i}\<rparr>"

text \<open>
  The outcomes of an open frame that is valid and for which the registry has room: an
  opened stream, a stream closed at once because its terminal did not start, or a failed
  transport.  The internal error branches of the code are never taken.
\<close>

lemma srv_open_reserved:
  assumes p: "p_open cd (f_payload f) = Ok op" and v: "ValidateStreamOpen (f_stream f) op = Ok ()"
    and r: "terminals_reserve (srv_states s) (f_stream f) = Ok st"
  shows "srv_open env cd f s =
    (if \<not> env_start env (f_stream f) (so_cols op) (so_rows op) (so_term op)
     then srv_sendStreamError env (f_stream f) ''pty_start_failed'' ''terminal stream could not start''
       (srv_refused (f_stream f) s)
     else if env_send env (OutAccepted (f_stream f) typedTerminalReceiveWindow)
     then (None, srv_effect (Sent (OutAccepted (f_stream f) typedTerminalReceiveWindow)) (srv_opened (f_stream f) op True s))
     else (Some SrvWriteFailed,
           snd (srv_closeStream env (f_stream f) ''transport_write_failed'' False (srv_opened (f_stream f) op False s))))"
proof -
  have w: "newTypedStreamCredit (so_window op) = Ok \<lparr>cr_remaining = so_window op\<rparr>"
    and i: "MinTypedStreamID \<le> f_stream f"
    using v by (auto simp: ValidateStreamOpen_Ok newTypedStreamCredit_def)
  have rw: "newTypedStreamCredit typedTerminalReceiveWindow = Ok \<lparr>cr_remaining = typedTerminalReceiveWindow\<rparr>"
    by (simp add: newTypedStreamCredit_def typedTerminalReceiveWindow_def MaxTypedStreamWindow_def)
  have a: "ValidateStreamAccepted (f_stream f) \<lparr>sa_window = typedTerminalReceiveWindow\<rparr> = Ok ()"
    using i by (simp add: ValidateStreamAccepted_Ok typedTerminalReceiveWindow_def MaxTypedStreamWindow_def)
  have ref: "srv_markClosed (f_stream f) (s\<lparr>srv_states := st\<rparr>) = srv_refused (f_stream f) s"
    using r by (auto simp: srv_markClosed_def srv_statesClose_def terminals_reserve_Ok terminals_close_def
        registry_close_def srv_refused_def)
  have op: "(srv_effect (PtyStart (f_stream f) (so_cols op) (so_rows op) (so_term op)) (s\<lparr>srv_states := st\<rparr>))
      \<lparr>srv_states := terminal_opened (f_stream f) (srv_states s),
        srv_children := (srv_children s)(f_stream f \<mapsto>
          \<lparr>tc_send = \<lparr>cr_remaining = so_window op\<rparr>, tc_recv = \<lparr>cr_remaining = typedTerminalReceiveWindow\<rparr>,
           tc_done = False, tc_reading = False, tc_pending = []\<rparr>),
        srv_streams := insert (f_stream f) (srv_streams s)\<rparr> = srv_opened (f_stream f) op False s"
    by (simp add: srv_effect_def srv_opened_def)
  have go: "srv_startOutput (f_stream f) (srv_effect e (srv_opened (f_stream f) op False s)) =
      srv_effect e (srv_opened (f_stream f) op True s)" for e
    by (simp add: srv_startOutput_def srv_opened_def srv_setChild_def srv_effect_def)
  show ?thesis
    using p v r
    by (simp add: srv_open_def Let_def w rw a ref op go terminals_accept_reserved [OF r] srv_writeFrame_def)
qed

lemma server_ok_opened:
  assumes ok: "server_ok s" and v: "ValidateStreamOpen i op = Ok ()"
    and r: "terminals_reserve (srv_states s) i = Ok st"
  shows "server_ok (srv_opened i op rd s)"
proof -
  have inv: "server_inv s" using ok by (rule server_ok_inv)
  have new: "tset_registry (srv_states s) i = None" using r by (simp add: terminals_reserve_Ok)
  have tinv: "terminal_set_inv (terminal_opened i (srv_states s))"
    using inv terminal_set_inv_reserve [OF _ r] terminal_set_inv_accept [OF _ terminals_accept_reserved [OF r]]
    by (simp add: server_inv_def)
  have fresh: "srv_children s i = None" "i \<notin> srv_streams s"
    using inv new by (auto simp: server_inv_def srv_registry_def live_streams_def dom_def)
  have live: "live_streams (tset_registry (terminal_opened i (srv_states s))) StreamKindTerminal
      = insert i (srv_streams s)"
    using inv new by (auto simp: server_inv_def srv_registry_def live_streams_def terminal_opened_def)
  have others: "\<forall>j \<in> insert i (srv_streams s). terminals_isOpen (terminal_opened i (srv_states s)) j"
    using inv by (auto simp: server_inv_def terminals_isOpen_def registry_isOpen_def terminal_opened_def)
  have win: "unat (so_window op) \<le> unat MaxTypedStreamWindow"
    using v by (simp add: ValidateStreamOpen_Ok word_le_nat_alt)
  have "server_inv (srv_opened i op rd s)"
    using inv tinv fresh live others win new
    by (auto simp: server_inv_def srv_opened_def srv_registry_def credit_nat_def terminal_opened_def
        intro: started_once_start)
  then show ?thesis
    using ok fresh by (auto simp: server_ok_def recv_full_def srv_opened_def)
qed

lemma server_ok_refused:
  assumes ok: "server_ok s" and r: "terminals_reserve (srv_states s) i = Ok st"
  shows "server_ok (srv_refused i s)"
proof -
  have inv: "server_inv s" using ok by (rule server_ok_inv)
  have new: "tset_registry (srv_states s) i = None" using r by (simp add: terminals_reserve_Ok)
  have cl: "terminals_close st i = Ok ((srv_states s)\<lparr>tset_registry := (tset_registry (srv_states s))
           (i \<mapsto> \<lparr>sr_kind = StreamKindTerminal, sr_state = StreamClosed\<rparr>)\<rparr>)"
    using r by (auto simp: terminals_reserve_Ok terminals_close_def registry_close_def)
  have tinv: "terminal_set_inv (srv_states (srv_refused i s))"
    using inv terminal_set_inv_reserve [OF _ r] terminal_set_inv_close [OF _ cl]
    by (simp add: server_inv_def srv_refused_def)
  have fresh: "i \<notin> srv_streams s"
    using inv new by (auto simp: server_inv_def srv_registry_def live_streams_def dom_def)
  then have "srv_streams s - {i} = srv_streams s" by simp
  moreover have "live_streams (srv_registry (srv_refused i s)) StreamKindTerminal = srv_streams s"
    using inv new by (auto simp: server_inv_def srv_registry_def live_streams_def srv_refused_def)
  moreover have "\<forall>j \<in> srv_streams s. terminals_isOpen (srv_states (srv_refused i s)) j"
    using inv fresh by (auto simp: server_inv_def terminals_isOpen_def registry_isOpen_def srv_refused_def)
  ultimately have "server_inv (srv_refused i s)"
    using inv tinv by (auto simp: server_inv_def srv_refused_def srv_registry_def intro: started_once_upd)
  then show ?thesis
    using ok by (auto simp: server_ok_def recv_full_def srv_refused_def)
qed

lemma srv_open_rejected:
  assumes "\<nexists>op st. p_open cd (f_payload f) = Ok op \<and> ValidateStreamOpen (f_stream f) op = Ok () \<and>
     terminals_reserve (srv_states s) (f_stream f) = Ok st"
  shows "snd (srv_open env cd f s) = s"
  using assms by (auto simp: srv_open_def split: sum.split)

lemma server_ok_open:
  assumes ok: "server_ok s"
  shows "server_ok (snd (srv_open env cd f s))"
proof (cases "\<exists>op st. p_open cd (f_payload f) = Ok op \<and> ValidateStreamOpen (f_stream f) op = Ok () \<and>
     terminals_reserve (srv_states s) (f_stream f) = Ok st")
  case True
  then obtain op st where p: "p_open cd (f_payload f) = Ok op" and v: "ValidateStreamOpen (f_stream f) op = Ok ()"
    and r: "terminals_reserve (srv_states s) (f_stream f) = Ok st" by blast
  show ?thesis
    unfolding srv_open_reserved [OF p v r]
    by (simp add: server_ok_sendStreamError server_ok_closeStream server_ok_refused [OF ok r]
        server_ok_opened [OF ok v r])
next
  case False
  then show ?thesis using ok by (simp add: srv_open_rejected)
qed

lemma server_ok_Handle: "server_ok s \<Longrightarrow> server_ok (snd (srv_Handle env cd f s))"
  by (simp add: srv_Handle_def server_ok_open server_ok_data server_ok_windowUpdate server_ok_resize
      server_ok_peerClose server_ok_peerError)


subsection \<open>Output\<close>

text \<open>
  What one call of \<open>sendData\<close> does: it sends non-empty chunks within the limit that together
  are a prefix of the output, everything when it is done, and stops early only when the
  window is used up, the transport fails or the child has been closed.
\<close>

lemma srv_setChild_setChild [simp]: "srv_setChild i c (srv_setChild i d s) = srv_setChild i c s"
  by (simp add: srv_setChild_def)

lemma srv_effect_setChild: "srv_effect e (srv_setChild i c s) = srv_setChild i c (srv_effect e s)"
  by (simp add: srv_setChild_def srv_effect_def)

definition sent_output :: "u32 \<Rightarrow> byte list list \<Rightarrow> typed_stream_credit \<Rightarrow> term_child \<Rightarrow> term_server \<Rightarrow> term_server" where
  "sent_output i ps sc c s =
     s\<lparr>srv_children := (srv_children s)(i \<mapsto> c\<lparr>tc_send := sc\<rparr>),
       srv_log := srv_log s @ map (\<lambda>p. Sent (OutData i p)) ps\<rparr>"

definition send_result :: "byte list \<Rightarrow> byte list list \<Rightarrow> typed_stream_credit \<Rightarrow> bool \<Rightarrow> send_outcome \<Rightarrow> bool" where
  "send_result data ps sc closed out =
     (case out of
        SendDone \<Rightarrow> data = concat ps
      | SendBlocked rest \<Rightarrow> data = concat ps @ rest \<and> rest \<noteq> [] \<and> cr_remaining sc = 0 \<and> \<not> closed
      | SendFailed e \<Rightarrow> (\<exists>rest. data = concat ps @ rest \<and> rest \<noteq> []) \<and>
          (e = SrvWriteFailed \<or> e = SrvClosedPipe \<and> cr_remaining sc = 0 \<and> closed))"

lemma send_result_append: "send_result y ps sc b out \<Longrightarrow> send_result (x @ y) (x # ps) sc b out"
  by (auto simp: send_result_def split: send_outcome.splits)

lemma consume_chunk:
  assumes "credit_available cr \<noteq> 0" and "0 < n"
  shows "credit_consume cr (of_nat (next_chunk (credit_available cr) n)) =
      Ok (cr\<lparr>cr_remaining := cr_remaining cr - of_nat (next_chunk (credit_available cr) n)\<rparr>)"
    and "unat (of_nat (next_chunk (credit_available cr) n) :: u32) = next_chunk (credit_available cr) n"
proof -
  let ?k = "next_chunk (credit_available cr) n"
  have le: "?k \<le> unat (cr_remaining cr)"
    using next_chunk_le(3) [of "credit_available cr" n] by (simp add: credit_available_def)
  moreover have "unat (cr_remaining cr) < 2 ^ 32" using unat_u32_less [of "cr_remaining cr"] by simp
  ultimately show u: "unat (of_nat ?k :: u32) = ?k" by (intro unat_of_nat_u32) simp
  have "(of_nat ?k :: u32) \<noteq> 0" using next_chunk_pos [OF assms] u by (metis unat_0 less_irrefl)
  then show "credit_consume cr (of_nat ?k) = Ok (cr\<lparr>cr_remaining := cr_remaining cr - of_nat ?k\<rparr>)"
    using le u by (simp add: credit_consume_def not_less word_le_nat_alt)
qed

lemma sendData_sends:
  "srv_children s i = Some c \<Longrightarrow> srv_sendData env i data s = (out, s') \<Longrightarrow>
   \<exists>ps sc. s' = sent_output i ps sc c s \<and>
     sum_list (map length ps) + credit_nat sc \<le> credit_nat (tc_send c) \<and>
     (\<forall>p \<in> set ps. p \<noteq> [] \<and> length p \<le> MaxTypedStreamChunk) \<and>
     send_result data ps sc (tc_done c) out"
proof (induction env i data s arbitrary: c rule: srv_sendData.induct)
  case (1 env i data s)
  let ?av = "credit_available (tc_send c)"
  let ?n = "next_chunk ?av (length data)"
  let ?sc = "(tc_send c)\<lparr>cr_remaining := cr_remaining (tc_send c) - of_nat ?n\<rparr>"
  let ?s1 = "srv_effect (Sent (OutData i (take ?n data))) (srv_setChild i (c\<lparr>tc_send := ?sc\<rparr>) s)"
  note c = "1.prems"(1)
  consider "data = []" | "data \<noteq> []" "?av = 0" | "data \<noteq> []" "?av \<noteq> 0" by blast
  then show ?case
  proof cases
    case 1
    then have "s' = sent_output i [] (tc_send c) c s \<and> out = SendDone"
      using c "1.prems"(2) by (auto simp: srv_sendData.simps sent_output_def map_upd_triv)
    with 1 show ?thesis by (intro exI [of _ "[]"] exI [of _ "tc_send c"]) (simp add: send_result_def)
  next
    case 2
    then have "s' = sent_output i [] (tc_send c) c s \<and>
        out = (if tc_done c then SendFailed SrvClosedPipe else SendBlocked data)"
      using c "1.prems"(2) by (auto simp: srv_sendData.simps [of env i data s] sent_output_def map_upd_triv)
    with 2 show ?thesis
      by (intro exI [of _ "[]"] exI [of _ "tc_send c"])
        (simp add: send_result_def credit_available_def)
  next
    case 3
    then have n: "0 < ?n" and cc: "credit_consume (tc_send c) (of_nat ?n) = Ok ?sc"
      and un: "unat (of_nat ?n :: u32) = ?n"
      using next_chunk_pos [of ?av "length data"] consume_chunk [of "tc_send c" "length data"] by simp_all
    have bal: "credit_nat (tc_send c) = credit_nat ?sc + ?n"
      using stream_credit.consume_Ok [OF cc] un by simp
    show ?thesis
    proof (cases "env_send env (OutData i (take ?n data))")
      case False
      then have "s' = sent_output i [] ?sc c s \<and> out = SendFailed SrvWriteFailed"
        using c 3 cc "1.prems"(2)
        by (auto simp: srv_sendData.simps [of env i data s] sent_output_def srv_writeFrame_def srv_setChild_def Let_def)
      with 3 bal show ?thesis
        by (intro exI [of _ "[]"] exI [of _ ?sc]) (simp add: send_result_def)
    next
      case True
      then have wr: "srv_writeFrame env (OutData i (take ?n data)) (srv_setChild i (c\<lparr>tc_send := ?sc\<rparr>) s) = (None, ?s1)"
        by (simp add: srv_writeFrame_def)
      have "srv_sendData env i (drop ?n data) ?s1 = (out, s')"
        using c 3 cc wr "1.prems"(2) by (simp add: srv_sendData.simps [of env i data s] Let_def)
      moreover have "srv_children ?s1 i = Some (c\<lparr>tc_send := ?sc\<rparr>)" by simp
      ultimately obtain ps sc where ps: "s' = sent_output i ps sc (c\<lparr>tc_send := ?sc\<rparr>) ?s1"
        "sum_list (map length ps) + credit_nat sc \<le> credit_nat ?sc"
        "\<forall>p \<in> set ps. p \<noteq> [] \<and> length p \<le> MaxTypedStreamChunk"
        "send_result (drop ?n data) ps sc (tc_done c) out"
        using "1.IH" [OF 3(1) c _ _ 3(2) cc wr [symmetric]] by fastforce
      have len: "length (take ?n data) = ?n" using next_chunk_le(1) [of ?av "length data"] by simp
      show ?thesis
      proof (intro exI [of _ "take ?n data # ps"] exI [of _ sc] conjI)
        show "s' = sent_output i (take ?n data # ps) sc c s"
          using ps(1) by (simp add: sent_output_def srv_setChild_def srv_effect_def)
        show "sum_list (map length (take ?n data # ps)) + credit_nat sc \<le> credit_nat (tc_send c)"
          using ps(2) bal len by simp
        show "\<forall>p \<in> set (take ?n data # ps). p \<noteq> [] \<and> length p \<le> MaxTypedStreamChunk"
          using ps(3) n len next_chunk_le(2) [of ?av "length data"] by auto
        show "send_result data (take ?n data # ps) sc (tc_done c) out"
          using send_result_append [OF ps(4), of "take ?n data"] by simp
      qed
    qed
  qed
qed

lemma server_ok_sent_output:
  assumes "server_ok s" and "srv_children s i = Some c"
    and "credit_nat sc \<le> credit_nat (tc_send c)"
  shows "server_ok (sent_output i ps sc c s)"
proof -
  have log: "server_ok (t\<lparr>srv_log := srv_log t @ map (\<lambda>p. Sent (OutData i p)) qs\<rparr>) = server_ok t" for t qs
  proof (induction qs arbitrary: t)
    case (Cons q qs)
    from Cons.IH [of "srv_effect (Sent (OutData i q)) t"] show ?case
      by (simp add: srv_effect_def server_ok_effect(1) [unfolded srv_effect_def])
  qed simp
  then have "server_ok (s\<lparr>srv_log := srv_log s @ map (\<lambda>p. Sent (OutData i p)) ps\<rparr>)" (is "server_ok ?s")
    using assms(1) by simp
  moreover have "sent_output i ps sc c s = srv_setChild i (c\<lparr>tc_send := sc\<rparr>) ?s"
    by (simp add: sent_output_def srv_setChild_def)
  ultimately show ?thesis
    using assms server_inv_child [OF server_ok_inv [OF assms(1)] assms(2)]
    by (auto intro!: server_ok_setChild)
qed

lemma server_ok_sendData: "server_ok s \<Longrightarrow> server_ok (snd (srv_sendData env i data s))"
proof (cases "srv_children s i")
  case None
  then show "server_ok s \<Longrightarrow> ?thesis" by (simp add: srv_sendData.simps [of env i data s])
next
  case (Some c)
  obtain out s' where r: "srv_sendData env i data s = (out, s')" by fastforce
  from sendData_sends [OF Some r] obtain ps sc where "s' = sent_output i ps sc c s"
    and "credit_nat sc \<le> credit_nat (tc_send c)" by auto
  then show "server_ok s \<Longrightarrow> ?thesis" using r Some server_ok_sent_output by simp
qed

lemma server_ok_finishSend: "server_ok (snd r) \<Longrightarrow> server_ok (srv_finishSend i r)"
  using server_inv_child [OF server_ok_inv]
  by (auto simp: srv_finishSend_def split: option.split send_outcome.split intro!: server_ok_setChild)

lemma server_ok_forwardOutput: "server_ok s \<Longrightarrow> server_ok (srv_forwardOutput env i ch s)"
  using server_inv_child [OF server_ok_inv]
  by (auto simp: srv_forwardOutput_def server_ok_finishSend server_ok_sendData split: option.split
      intro!: server_ok_setChild)

lemma server_ok_resumeOutput: "server_ok s \<Longrightarrow> server_ok (srv_resumeOutput env i s)"
  by (simp add: srv_resumeOutput_def server_ok_finishSend server_ok_sendData split: option.split)

lemma server_ok_waitProcess: "server_ok s \<Longrightarrow> server_ok (srv_waitProcess env i b s)"
  by (simp add: srv_waitProcess_def server_ok_closeStream split: option.split)

lemma pty_counts_closes:
  "finite A \<Longrightarrow> pty_closes i (map PtyClose (sorted_list_of_set A)) = (if i \<in> A then 1 else 0)"
  "pty_starts i (map PtyClose xs) = 0"
proof -
  have d: "distinct xs \<Longrightarrow> pty_closes i (map PtyClose xs) = (if i \<in> set xs then 1 else 0)" for xs
    by (induction xs) auto
  show "finite A \<Longrightarrow> pty_closes i (map PtyClose (sorted_list_of_set A)) = (if i \<in> A then 1 else 0)"
    by (simp add: d)
  show "pty_starts i (map PtyClose xs) = 0" by (induction xs) simp_all
qed

lemma server_ok_CloseAll:
  assumes "server_ok s"
  shows "server_ok (srv_CloseAll s)" and "srv_streams (srv_CloseAll s) = {}"
proof -
  have inv: "server_inv s" using assms by (rule server_ok_inv)
  have kids: "\<forall>j. j \<in> srv_streams s \<longleftrightarrow> (\<exists>c. srv_children s j = Some c \<and> \<not> tc_done c)"
    and cred: "\<forall>j c. srv_children s j = Some c \<longrightarrow> credit_nat (tc_send c) \<le> unat MaxTypedStreamWindow"
    and dm: "dom (srv_children s) \<subseteq> dom (tset_registry (srv_states s))"
    and once: "started_once (tset_registry (srv_states s)) (srv_log s)"
    and bal: "\<forall>j. pty_starts j (srv_log s) = pty_closes j (srv_log s) + (if j \<in> srv_streams s then 1 else 0)"
    and ts: "terminal_set_inv (srv_states s)"
    and live: "srv_streams s = live_streams (srv_registry s) StreamKindTerminal"
    using inv unfolding server_inv_def srv_registry_def by blast+
  have fin: "finite (srv_streams s)"
    using finite_live_streams ts live by (simp add: terminal_set_inv_def srv_registry_def)
  have all: "{j \<in> srv_streams s. \<exists>c. srv_children s j = Some c \<and> \<not> tc_done c} = srv_streams s"
    using kids by blast
  have "server_inv (srv_CloseAll s)"
    unfolding server_inv_def
  proof (intro conjI)
    show "\<forall>j. j \<in> srv_streams (srv_CloseAll s) \<longleftrightarrow>
        (\<exists>d. srv_children (srv_CloseAll s) j = Some d \<and> \<not> tc_done d)"
      using kids by (auto simp: srv_CloseAll_def)
    show "\<forall>j d. srv_children (srv_CloseAll s) j = Some d \<longrightarrow> credit_nat (tc_send d) \<le> unat MaxTypedStreamWindow"
      using cred by (auto simp: srv_CloseAll_def split: if_splits)
    show "dom (srv_children (srv_CloseAll s)) \<subseteq> dom (srv_registry (srv_CloseAll s))"
      using dm by (auto simp: srv_CloseAll_def srv_registry_def terminals_closeAll_def registry_closeKind_def
          split: option.splits)
    show "\<forall>j. pty_starts j (srv_log (srv_CloseAll s)) = pty_closes j (srv_log (srv_CloseAll s)) +
        (if j \<in> srv_streams (srv_CloseAll s) then 1 else 0)"
      using bal fin by (simp add: srv_CloseAll_def all pty_counts_closes)
    show "started_once (srv_registry (srv_CloseAll s)) (srv_log (srv_CloseAll s))"
      using once
      by (simp add: srv_CloseAll_def srv_registry_def terminals_closeAll_def started_once_def pty_counts_closes)
  qed (use ts in \<open>simp_all add: srv_CloseAll_def srv_registry_def terminal_set_inv_closeAll
      terminals_closeAll_def live_streams_closeKind terminal_set_inv_closeAll [unfolded terminals_closeAll_def]\<close>)
  then show "server_ok (srv_CloseAll s)" by (simp add: server_ok_def recv_full_def srv_CloseAll_def)
  show "srv_streams (srv_CloseAll s) = {}" by (simp add: srv_CloseAll_def)
qed


section \<open>Runs\<close>

text \<open>
  A run interleaves the frames the session loop hands to the engine with the steps of the
  children's goroutines; each step has its own answers from the environment.  The session
  acknowledges a close (\<open>EvAck\<close>), and other engines of the connection use the registry with
  kinds of their own (\<open>EvOthers\<close>).
\<close>

datatype srv_event =
    EvFrame frame
  | EvOutput u32 "byte list option"
  | EvResume u32
  | EvExit u32 bool
  | EvCloseAll
  | EvAck u32
  | EvOthers reg_op

definition srv_others :: "reg_op \<Rightarrow> term_server \<Rightarrow> term_server" where
  "srv_others op s =
     (if op_kind op = StreamKindTerminal then s
      else s\<lparr>srv_states := (srv_states s)\<lparr>tset_registry := registry_step (srv_registry s) op\<rparr>\<rparr>)"

fun srv_step :: "term_codec \<Rightarrow> term_env \<Rightarrow> srv_event \<Rightarrow> term_server \<Rightarrow> term_server" where
  "srv_step cd env (EvFrame f) s = snd (srv_Handle env cd f s)"
| "srv_step cd env (EvOutput i ch) s = srv_forwardOutput env i ch s"
| "srv_step cd env (EvResume i) s = srv_resumeOutput env i s"
| "srv_step cd env (EvExit i b) s = srv_waitProcess env i b s"
| "srv_step cd env EvCloseAll s = srv_CloseAll s"
| "srv_step cd env (EvAck i) s = snd (srv_writeFrame env (OutClose i ''peer_close'') s)"
| "srv_step cd env (EvOthers op) s = srv_others op s"

fun srv_run :: "term_codec \<Rightarrow> (term_env \<times> srv_event) list \<Rightarrow> term_server \<Rightarrow> term_server" where
  "srv_run cd [] s = s"
| "srv_run cd ((env, ev) # evs) s = srv_run cd evs (srv_step cd env ev s)"

lemma server_ok_others:
  assumes "server_ok s"
  shows "server_ok (srv_others op s)"
proof (cases "op_kind op = StreamKindTerminal")
  case False
  have inv: "server_inv s" using server_ok_inv [OF assms] .
  let ?s = "srv_others op s"
  have ri: "registry_inv (srv_registry s)" using inv by (simp add: server_inv_def terminal_set_inv_def srv_registry_def)
  have live: "live_streams (registry_step (srv_registry s) op) StreamKindTerminal = live_streams (srv_registry s) StreamKindTerminal"
    using live_streams_step [OF ri False] .
  have s: "srv_streams ?s = srv_streams s" "srv_children ?s = srv_children s" "srv_log ?s = srv_log s"
    "srv_registry ?s = registry_step (srv_registry s) op" "tset_open (srv_states ?s) = tset_open (srv_states s)"
    using False by (simp_all add: srv_others_def srv_registry_def)
  have t: "terminals_isOpen (srv_states ?s) i = terminals_isOpen (srv_states s) i" for i
    using registry_isOpen_step [OF ri False] s(4) by (simp add: terminals_isOpen_def srv_registry_def)
  have ts: "terminal_set_inv (srv_states ?s)"
    using inv live s(4,5) registry_step_inv [OF ri] by (simp add: server_inv_def terminal_set_inv_def srv_registry_def)
  have dm: "dom (srv_registry s) \<subseteq> dom (registry_step (srv_registry s) op)" using registry_step_dom [OF ri] .
  have "server_inv ?s"
    using inv ts live dm started_once_mono [OF _ dm] unfolding server_inv_def s t by blast
  moreover have "recv_full {} ?s" using server_ok_recv [OF assms] by (simp add: recv_full_def s)
  ultimately show ?thesis by (rule server_okI)
qed (use assms in \<open>simp add: srv_others_def\<close>)

lemma server_ok_step: "server_ok s \<Longrightarrow> server_ok (srv_step cd env ev s)"
  by (cases ev) (simp_all add: server_ok_Handle server_ok_forwardOutput server_ok_resumeOutput
      server_ok_waitProcess server_ok_CloseAll server_ok_writeFrame server_ok_others)

lemma server_ok_run: "server_ok s \<Longrightarrow> server_ok (srv_run cd evs s)"
  by (induction cd evs s rule: srv_run.induct) (simp_all add: server_ok_step)

subsection \<open>The flow-control ledger\<close>

fun data_bytes :: "u32 \<Rightarrow> term_effect list \<Rightarrow> nat" where
  "data_bytes i [] = 0"
| "data_bytes i (Sent (OutData j p) # es) = (if j = i then length p else 0) + data_bytes i es"
| "data_bytes i (e # es) = data_bytes i es"

lemma data_bytes_append [simp]: "data_bytes i (es @ es') = data_bytes i es + data_bytes i es'"
  by (induction i es rule: data_bytes.induct) simp_all

lemma data_bytes_chunks: "data_bytes i (map (\<lambda>p. Sent (OutData j p)) ps) =
    (if i = j then sum_list (map length ps) else 0)"
  by (induction ps) auto

text \<open>The bytes sent on a stream plus what its output goroutine may still send at once.\<close>

definition committed :: "u32 \<Rightarrow> term_server \<Rightarrow> nat" where
  "committed i s = data_bytes i (srv_log s) +
     (case srv_children s i of None \<Rightarrow> 0 | Some c \<Rightarrow> if tc_reading c then credit_nat (tc_send c) else 0)"

text \<open>
  What the client grants with one event: the initial window of a stream that opens, and the
  bytes of every window update the engine takes.
\<close>

definition granted_by :: "term_codec \<Rightarrow> term_env \<Rightarrow> srv_event \<Rightarrow> term_server \<Rightarrow> u32 \<Rightarrow> nat" where
  "granted_by cd env ev s i =
     (case ev of
        EvFrame f \<Rightarrow>
          if f_stream f \<noteq> i \<or> fst (srv_Handle env cd f s) \<noteq> None then 0
          else if f_type f = TypeStreamOpen then
            (case p_open cd (f_payload f) of
               Err _ \<Rightarrow> 0
             | Ok op \<Rightarrow> if i \<in> srv_streams (snd (srv_Handle env cd f s)) then unat (so_window op) else 0)
          else if f_type f = TypeStreamWindowUpdate then
            (case p_update cd (f_payload f) of Err _ \<Rightarrow> 0 | Ok u \<Rightarrow> unat (wu_bytes u))
          else 0
      | _ \<Rightarrow> 0)"

fun granted :: "term_codec \<Rightarrow> (term_env \<times> srv_event) list \<Rightarrow> term_server \<Rightarrow> u32 \<Rightarrow> nat" where
  "granted cd [] s i = 0"
| "granted cd ((env, ev) # evs) s i = granted_by cd env ev s i + granted cd evs (srv_step cd env ev s) i"

lemma committed_effect [simp]:
  "committed i (srv_effect (PtyStart j a b c) s) = committed i s"
  "committed i (srv_effect (PtyInput j d) s) = committed i s"
  "committed i (srv_effect (PtyResize j a b) s) = committed i s"
  "committed i (srv_effect (PtyClose j) s) = committed i s"
  "committed i (srv_effect (Sent (OutAccepted j w)) s) = committed i s"
  "committed i (srv_effect (Sent (OutWindowUpdate j w)) s) = committed i s"
  "committed i (srv_effect (Sent (OutClose j r)) s) = committed i s"
  "committed i (srv_effect (Sent (OutError j r m)) s) = committed i s"
  by (simp_all add: committed_def)

lemma committed_sendStreamError [simp]: "committed i (snd (srv_sendStreamError env j code m s)) = committed i s"
  by (simp add: srv_sendStreamError_def srv_writeFrame_def split: sum.split)

lemma srv_statesClose_sel [simp]:
  "srv_children (srv_statesClose j s) = srv_children s" "srv_log (srv_statesClose j s) = srv_log s"
  by (simp_all add: srv_statesClose_def split: sum.split)

lemma committed_closeChildOnce: "committed i (srv_closeChildOnce j s) = committed i s"
  by (auto simp: srv_closeChildOnce_def committed_def split: option.split)

lemma committed_streams [simp]: "committed i (s\<lparr>srv_streams := X\<rparr>) = committed i s"
  by (simp add: committed_def)

lemma committed_statesClose [simp]: "committed i (srv_statesClose j s) = committed i s"
  by (simp add: committed_def)

lemma committed_closeStream [simp]: "committed i (snd (srv_closeStream env j reason b s)) = committed i s"
  by (simp add: srv_closeStream_def Let_def srv_writeFrame_def committed_closeChildOnce split: sum.split)

lemma committed_setChild_le:
  assumes "srv_children s i = Some c"
    and "(if tc_reading c' then credit_nat (tc_send c') else 0) \<le> (if tc_reading c then credit_nat (tc_send c) else 0) + n"
  shows "committed j (srv_setChild i c' s) \<le> committed j s + (if j = i then n else 0)"
  using assms by (auto simp: committed_def)

lemma committed_sendData:
  assumes "srv_children s j = Some c" and "tc_reading c"
  shows "committed i (snd (srv_sendData env j data s)) \<le> committed i s"
proof -
  obtain out s' where r: "srv_sendData env j data s = (out, s')" by fastforce
  from sendData_sends [OF assms(1) r] obtain ps sc where "s' = sent_output j ps sc c s"
    and "sum_list (map length ps) + credit_nat sc \<le> credit_nat (tc_send c)" by auto
  with assms r show ?thesis by (auto simp: committed_def sent_output_def data_bytes_chunks)
qed

lemma committed_finishSend: "committed i (srv_finishSend j r) \<le> committed i (snd r)"
proof (cases "srv_children (snd r) j")
  case (Some c)
  then show ?thesis
    using committed_setChild_le [OF Some, of _ 0 i]
    by (simp add: srv_finishSend_def split: send_outcome.split)
qed (simp add: srv_finishSend_def)

lemma committed_forwardOutput: "committed i (srv_forwardOutput env j ch s) \<le> committed i s"
  using committed_finishSend [of i j "srv_sendData env j data s" for data] committed_sendData [of s j _ i env]
    committed_setChild_le [of s j _ _ 0 i]
  by (fastforce simp: srv_forwardOutput_def split: option.split intro: order_trans)

lemma committed_resumeOutput: "committed i (srv_resumeOutput env j s) \<le> committed i s"
  using committed_finishSend [of i j "srv_sendData env j data s" for data] committed_sendData [of s j _ i env]
  by (fastforce simp: srv_resumeOutput_def split: option.split intro: order_trans)

lemma committed_waitProcess [simp]: "committed i (srv_waitProcess env j b s) = committed i s"
  by (simp add: srv_waitProcess_def split: option.split)

lemma data_bytes_closes [simp]: "data_bytes i (map PtyClose xs) = 0"
  by (induction xs) simp_all

lemma committed_CloseAll [simp]: "committed i (srv_CloseAll s) = committed i s"
  by (simp add: committed_def srv_CloseAll_def split: option.split)

lemma committed_peerClose [simp]: "committed i (snd (srv_peerClose env cd f s)) = committed i s"
  by (simp add: srv_peerClose_def split: sum.split)

lemma committed_peerError [simp]: "committed i (snd (srv_peerError env cd f s)) = committed i s"
  by (simp add: srv_peerError_def split: sum.split)

lemma committed_resize [simp]: "committed i (snd (srv_resize env cd f s)) = committed i s"
  by (simp add: srv_resize_def split: sum.split)

lemma committed_fed: "srv_openChild j s = Ok c \<Longrightarrow> committed i (srv_fed j c p n s) = committed i s"
  by (auto simp: srv_fed_def openChild_Ok committed_def)

lemma committed_data:
  assumes ok: "server_ok s"
  shows "committed i (snd (srv_data env f s)) = committed i s"
proof (cases "ValidateStreamData (f_stream f) (f_payload f) = Ok () \<and> is_ok (srv_openChild (f_stream f) s)")
  case False
  then show ?thesis by (simp add: srv_data_invalid)
next
  case True
  then obtain c where v: "ValidateStreamData (f_stream f) (f_payload f) = Ok ()"
    and c: "srv_openChild (f_stream f) s = Ok c" by (auto simp: is_ok_iff)
  obtain n bad where w: "env_pty_write env (f_stream f) (f_payload f) = (n, bad)" by fastforce
  show ?thesis by (simp add: srv_data_open [OF ok v c w] committed_fed [OF c])
qed

lemma committed_others [simp]: "committed i (srv_others op s) = committed i s"
  by (simp add: committed_def srv_others_def)

lemma committed_ack [simp]: "committed i (snd (srv_writeFrame env (OutClose j r) s)) = committed i s"
  by (simp add: committed_def srv_writeFrame_def)

lemma committed_windowUpdate:
  "committed i (snd (srv_windowUpdate cd f s)) \<le>
     committed i s + (if f_stream f \<noteq> i \<or> fst (srv_windowUpdate cd f s) \<noteq> None then 0
       else (case p_update cd (f_payload f) of Err _ \<Rightarrow> 0 | Ok u \<Rightarrow> unat (wu_bytes u)))"
proof (cases "snd (srv_windowUpdate cd f s) = s")
  case False
  then obtain u c sc where u: "p_update cd (f_payload f) = Ok u" and oc: "srv_openChild (f_stream f) s = Ok c"
    and sc: "credit_add (tc_send c) (wu_bytes u) = Ok sc"
    and r: "srv_windowUpdate cd f s = (None, srv_setChild (f_stream f) (c\<lparr>tc_send := sc\<rparr>) s)"
    by (auto simp: srv_windowUpdate_def split: sum.splits)
  then have c: "srv_children s (f_stream f) = Some c" by (simp add: openChild_Ok)
  have "committed i (srv_setChild (f_stream f) (c\<lparr>tc_send := sc\<rparr>) s) \<le>
      committed i s + (if i = f_stream f then unat (wu_bytes u) else 0)"
    using stream_credit.grant_Ok [OF sc] by (intro committed_setChild_le [OF c]) auto
  with u r show ?thesis by auto
qed simp

lemma committed_open:
  assumes ok: "server_ok s"
  shows "committed i (snd (srv_open env cd f s)) \<le>
     committed i s + (if f_stream f \<noteq> i \<or> fst (srv_open env cd f s) \<noteq> None then 0
       else (case p_open cd (f_payload f) of
               Err _ \<Rightarrow> 0
             | Ok op \<Rightarrow> if i \<in> srv_streams (snd (srv_open env cd f s)) then unat (so_window op) else 0))"
proof (cases "\<exists>op st. p_open cd (f_payload f) = Ok op \<and> ValidateStreamOpen (f_stream f) op = Ok () \<and>
     terminals_reserve (srv_states s) (f_stream f) = Ok st")
  case True
  then obtain op st where p: "p_open cd (f_payload f) = Ok op" and v: "ValidateStreamOpen (f_stream f) op = Ok ()"
    and r: "terminals_reserve (srv_states s) (f_stream f) = Ok st" by blast
  have "tset_registry (srv_states s) (f_stream f) = None" using r by (simp add: terminals_reserve_Ok)
  then have fresh: "srv_children s (f_stream f) = None"
    using server_ok_inv [OF ok] by (auto simp: server_inv_def srv_registry_def dom_def)
  have opened: "committed i (srv_opened (f_stream f) op rd s) =
      committed i s + (if rd \<and> f_stream f = i then unat (so_window op) else 0)" for rd
    using fresh by (auto simp: committed_def srv_opened_def credit_nat_def)
  have refused: "committed i (srv_refused j s) = committed i s" for j
    by (simp add: committed_def srv_refused_def)
  have "f_stream f \<in> srv_streams (srv_opened (f_stream f) op rd s)" for rd
    by (simp add: srv_opened_def)
  then show ?thesis
    using p opened by (cases "f_stream f = i") (simp_all add: srv_open_reserved [OF p v r] refused)
next
  case False
  then show ?thesis by (simp add: srv_open_rejected)
qed

lemma committed_step:
  assumes ok: "server_ok s"
  shows "committed i (srv_step cd env ev s) \<le> committed i s + granted_by cd env ev s i"
proof (cases ev)
  case (EvFrame f)
  consider "f_type f = TypeStreamOpen" | "f_type f = TypeStreamWindowUpdate"
    | "f_type f \<noteq> TypeStreamOpen" "f_type f \<noteq> TypeStreamWindowUpdate" by blast
  then show ?thesis
  proof cases
    case 1
    then have "srv_Handle env cd f s = srv_open env cd f s" by (simp add: srv_Handle_def)
    with 1 show ?thesis using EvFrame committed_open [OF ok, of i env cd f]
      by (auto simp: granted_by_def split: sum.splits)
  next
    case 2
    then have "srv_Handle env cd f s = srv_windowUpdate cd f s" by (simp add: srv_Handle_def frame_type_defs)
    with 2 show ?thesis using EvFrame committed_windowUpdate [of i cd f s]
      by (auto simp: granted_by_def frame_type_defs split: sum.splits)
  next
    case 3
    then have "committed i (snd (srv_Handle env cd f s)) = committed i s"
      using committed_data [OF ok] by (simp add: srv_Handle_def)
    then show ?thesis using EvFrame by simp
  qed
qed (simp_all add: committed_forwardOutput committed_resumeOutput le_add1 trans_le_add1)

lemma committed_run:
  "server_ok s \<Longrightarrow> committed i (srv_run cd evs s) \<le> committed i s + granted cd evs s i"
proof (induction cd evs s rule: srv_run.induct)
  case (2 cd env ev evs s)
  with committed_step [of s i cd env ev] server_ok_step [of s cd env ev] show ?case by fastforce
qed simp


lemma pty_error_valid:
  "MinTypedStreamID \<le> i \<Longrightarrow> ValidateStreamError i
      \<lparr>se_code = ''pty_write_failed'', se_message = ''terminal stream input failed''\<rparr> = Ok ()"
  by (simp add: ValidateStreamError_def validateTypedStreamID_def stream_limits not_less)

lemma server_invD:
  assumes "server_inv s"
  shows "terminal_set_inv (srv_states s)"
    and "srv_streams s = live_streams (srv_registry s) StreamKindTerminal"
    and "\<And>i. i \<in> srv_streams s \<Longrightarrow> terminals_isOpen (srv_states s) i"
    and "\<And>i. i \<in> srv_streams s \<longleftrightarrow> (\<exists>c. srv_children s i = Some c \<and> \<not> tc_done c)"
    and "\<And>i c. srv_children s i = Some c \<Longrightarrow> credit_nat (tc_send c) \<le> unat MaxTypedStreamWindow"
    and "dom (srv_children s) \<subseteq> dom (srv_registry s)"
    and "\<And>i. pty_starts i (srv_log s) = pty_closes i (srv_log s) + (if i \<in> srv_streams s then 1 else 0)"
    and "started_once (srv_registry s) (srv_log s)"
  using assms unfolding server_inv_def by blast+

lemma started_once_le_1: "started_once r es \<Longrightarrow> pty_starts i es \<le> 1"
  unfolding started_once_def by (rule order_trans [OF spec [where x = i]], assumption) (auto split: if_split)

lemma server_inv_isOpen:
  assumes "server_inv s"
  shows "terminals_isOpen (srv_states s) i \<longleftrightarrow> i \<in> srv_streams s"
proof
  assume "terminals_isOpen (srv_states s) i"
  then show "i \<in> srv_streams s"
    unfolding server_invD(2) [OF assms]
    by (auto simp: terminals_isOpen_def registry_isOpen_def live_streams_def srv_registry_def split: option.splits)
qed (rule server_invD(3) [OF assms])

section \<open>Properties\<close>

text \<open>A sample environment, codec and run on which the properties are applied.\<close>

definition sample_open :: stream_open where
  "sample_open = \<lparr>so_kind = StreamKindTerminal, so_cols = 80, so_rows = 24, so_term = ''xterm'',
     so_metadata = [], so_window = 3\<rparr>"

definition sample_codec :: term_codec where
  "sample_codec = \<lparr>p_open = (\<lambda>_. Ok sample_open), p_update = (\<lambda>_. Ok \<lparr>wu_bytes = 2\<rparr>),
     p_resize = (\<lambda>_. Ok \<lparr>rs_cols = 100, rs_rows = 30\<rparr>), p_close = (\<lambda>_. Ok \<lparr>cl_reason = ''''\<rparr>),
     p_error = (\<lambda>_. Ok \<lparr>se_code = ''x'', se_message = ''''\<rparr>)\<rparr>"

definition sample_env :: term_env where
  "sample_env = \<lparr>env_start = (\<lambda>_ _ _ _. True), env_pty_write = (\<lambda>_ d. (length d, False)),
     env_resize = (\<lambda>_ _ _. True), env_send = (\<lambda>_. True)\<rparr>"

definition sample_frame :: "byte \<Rightarrow> byte list \<Rightarrow> frame" where
  "sample_frame t p = \<lparr>f_type = t, f_stream = 2, f_payload = p\<rparr>"

abbreviation sample_opening :: "(term_env \<times> srv_event) list" where
  "sample_opening \<equiv> [(sample_env, EvFrame (sample_frame TypeStreamOpen []))]"

lemma sample_open_valid: "ValidateStreamOpen 2 sample_open = Ok ()"
  by (simp add: ValidateStreamOpen_Ok sample_open_def MinTypedStreamID_def MaxTypedStreamWindow_def
      MaxTypedStreamTermLength_def)

lemma sample_opened:
  "srv_run sample_codec sample_opening (newTypedTerminalServer None) =
     srv_effect (Sent (OutAccepted 2 typedTerminalReceiveWindow)) (srv_opened 2 sample_open True (newTypedTerminalServer None))"
proof -
  have r: "\<exists>st. terminals_reserve (srv_states (newTypedTerminalServer None)) 2 = Ok st"
    by (simp add: terminals_reserve_Ok newTypedTerminalServer_def newTypedTerminalStreamSetWithRegistry_def
        newTypedParentStreamRegistry_def maxTerminalStreamsPerConnection_def maxTypedStreamIDsPerConnection_def
        MinTypedStreamID_def)
  then obtain st where "terminals_reserve (srv_states (newTypedTerminalServer None)) 2 = Ok st" ..
  then show ?thesis
    using srv_open_reserved [of sample_codec "sample_frame TypeStreamOpen []" sample_open "newTypedTerminalServer None" st sample_env]
      sample_open_valid
    by (simp add: srv_Handle_def sample_frame_def sample_codec_def sample_env_def)
qed

lemma sample_child:
  "srv_openChild 2 (srv_run sample_codec sample_opening (newTypedTerminalServer None)) =
     Ok \<lparr>tc_send = \<lparr>cr_remaining = 3\<rparr>, tc_recv = \<lparr>cr_remaining = typedTerminalReceiveWindow\<rparr>,
        tc_done = False, tc_reading = True, tc_pending = []\<rparr>"
  unfolding sample_opened openChild_Ok
  by (simp add: srv_opened_def terminals_isOpen_def registry_isOpen_def terminal_opened_def sample_open_def)

text \<open>
  Claim C18.  Whatever frames a client sends and however they interleave with output, process
  exits and refusals of the operating system, at most seven terminals are open, the table
  holds exactly the open terminal streams, no identifier ever gets a second pseudo-terminal,
  and every pseudo-terminal that was started is closed exactly once, when its stream closes.
\<close>

theorem terminals_bounded_and_released:
  "let s = srv_run cd evs (newTypedTerminalServer None) in
     card (srv_streams s) \<le> 7 \<and>
     srv_streams s = {i. terminals_isOpen (srv_states s) i} \<and>
     (\<forall>i. pty_starts i (srv_log s) = pty_closes i (srv_log s) + of_bool (i \<in> srv_streams s) \<and>
          pty_starts i (srv_log s) \<le> 1) \<and>
     pty_starts j (srv_log (srv_CloseAll s)) = pty_closes j (srv_log (srv_CloseAll s))"
proof -
  define s where "s = srv_run cd evs (newTypedTerminalServer None)"
  have ok: "server_ok s" unfolding s_def by (rule server_ok_run [OF server_ok_new])
  note inv = server_invD [OF server_ok_inv [OF ok]]
  have "card (srv_streams s) \<le> 7"
    using inv(1,2) by (simp add: terminal_set_inv_def srv_registry_def maxTerminalStreamsPerConnection_def)
  moreover have "srv_streams s = {i. terminals_isOpen (srv_states s) i}"
    using server_inv_isOpen [OF server_ok_inv [OF ok]] by blast
  moreover have "pty_starts i (srv_log s) = pty_closes i (srv_log s) + of_bool (i \<in> srv_streams s)" for i
    using inv(7) by simp
  moreover have "pty_starts i (srv_log s) \<le> 1" for i
    using started_once_le_1 [OF inv(8)] .
  moreover have "pty_starts j (srv_log (srv_CloseAll s)) = pty_closes j (srv_log (srv_CloseAll s))"
    using server_invD(7) [OF server_ok_inv [OF server_ok_CloseAll(1) [OF ok]], of j] server_ok_CloseAll(2) [OF ok]
    by simp
  ultimately show ?thesis unfolding Let_def s_def [symmetric] by blast
qed

text \<open>
  Claim C23.  The agent never sends more terminal output on a stream than the client has
  granted: the data bytes sent are at most the initial window plus the window updates taken.
\<close>

theorem output_within_granted_window:
  "data_bytes i (srv_log (srv_run cd evs (newTypedTerminalServer None)))
     \<le> granted cd evs (newTypedTerminalServer None) i"
proof -
  have "committed i (newTypedTerminalServer None) = 0"
    by (simp add: committed_def newTypedTerminalServer_def)
  with committed_run [OF server_ok_new, of i cd evs] show ?thesis
    by (simp add: committed_def)
qed



text \<open>
  Claim C28.  In every reachable state a valid data frame for an open stream finds the
  receive window open.  If the terminal takes the input, the engine delivers exactly the
  payload and then credits back exactly its length; if the terminal refuses it, this stream
  alone is closed; the only error is a failed transport.
\<close>

theorem terminal_input_delivered:
  assumes "s = srv_run cd evs (newTypedTerminalServer None)"
    and "ValidateStreamData (f_stream f) (f_payload f) = Ok ()"
    and "terminals_isOpen (srv_states s) (f_stream f)"
    and "env_pty_write env (f_stream f) (f_payload f) = (n, bad)"
    and "env_send env = (\<lambda>_. True)"
  shows "fst (srv_data env f s) = None \<and>
    (if \<not> bad \<and> n = length (f_payload f)
     then snd (srv_data env f s) =
       s\<lparr>srv_log := srv_log s @ [PtyInput (f_stream f) (f_payload f),
          Sent (OutWindowUpdate (f_stream f) (of_nat (length (f_payload f))))]\<rparr>
     else srv_streams (snd (srv_data env f s)) = srv_streams s - {f_stream f})"
proof -
  have ok: "server_ok s" unfolding assms(1) by (rule server_ok_run [OF server_ok_new])
  note inv = server_invD [OF server_ok_inv [OF ok]]
  have mem: "f_stream f \<in> srv_streams s"
    using assms(3) server_inv_isOpen [OF server_ok_inv [OF ok]] by simp
  with inv(4) obtain c where c: "srv_openChild (f_stream f) s = Ok c"
    using assms(3) by (auto simp: openChild_Ok)
  have i: "MinTypedStreamID \<le> f_stream f" using assms(2) by (simp add: ValidateStreamData_Ok)
  have "f_stream f \<in> srv_streams (srv_fed (f_stream f) c (f_payload f) n s)"
    using mem by (simp add: srv_fed_def)
  from closeStream_open [OF server_fed(1) [OF ok c] this] obtain d st where
    cl: "\<And>reason. srv_closeStream env (f_stream f) reason False (srv_fed (f_stream f) c (f_payload f) n s) =
      (None, srv_closed (f_stream f) d st (srv_fed (f_stream f) c (f_payload f) n s))" by metis
  have "ValidateStreamError (f_stream f)
      \<lparr>se_code = ''pty_write_failed'', se_message = ''terminal stream input failed''\<rparr> = Ok ()"
    using i by (rule pty_error_valid)
  moreover have "srv_streams (srv_closed (f_stream f) d st (srv_fed (f_stream f) c (f_payload f) n s)) =
      srv_streams s - {f_stream f}"
    by (simp add: srv_closed_def srv_fed_def)
  moreover have "srv_effect e' (srv_effect e s) = s\<lparr>srv_log := srv_log s @ [e, e']\<rparr>" for e e'
    by (simp add: srv_effect_def)
  ultimately show ?thesis
    using assms(5)
    by (simp add: srv_data_open [OF ok assms(2) c assms(4)] cl srv_sendStreamError_def srv_writeFrame_def)
qed

theorem terminal_input_delivered_witness:
  "fst (srv_data sample_env (sample_frame TypeStreamData [104, 105])
      (srv_run sample_codec sample_opening (newTypedTerminalServer None))) = None \<and>
   snd (srv_data sample_env (sample_frame TypeStreamData [104, 105])
      (srv_run sample_codec sample_opening (newTypedTerminalServer None))) =
     (srv_run sample_codec sample_opening (newTypedTerminalServer None))
       \<lparr>srv_log := srv_log (srv_run sample_codec sample_opening (newTypedTerminalServer None)) @
          [PtyInput 2 [104, 105], Sent (OutWindowUpdate 2 2)]\<rparr>"
proof -
  define s where "s = srv_run sample_codec sample_opening (newTypedTerminalServer None)"
  have "terminals_isOpen (srv_states s) 2"
    using sample_child unfolding openChild_Ok s_def [symmetric] by simp
  then show ?thesis
    using terminal_input_delivered [OF s_def, of "sample_frame TypeStreamData [104, 105]" sample_env 2 False]
    unfolding s_def [symmetric]
    by (simp add: sample_frame_def sample_env_def ValidateStreamData_Ok MinTypedStreamID_def MaxTypedStreamChunk_def)
qed

end
