(* ===== verification/File_Store.thy ===== *)
theory File_Store
  imports Typed_Stream
begin

text \<open>
  The file-transfer store (\<open>internal/session/file_transfer_store.go\<close>) over a model of the one
  directory tree it is confined to.  Uploads are staged in a private file and published with a
  hard link; downloads are bounded to the size seen when the file was opened.  Every system
  call can fail, writes can be short, and other processes may change the tree between any two
  operations.  The result of the theory is that an upload changes what others see of the tree
  in exactly one way: a complete, checked file appears under a name that was free.
\<close>

section \<open>The directory tree below the root\<close>

text \<open>
  A path is resolved to a directory entry by \<open>os.Root\<close>, which follows intermediate symbolic
  links only below the root; \<open>None\<close> stands for a path that cannot be resolved.  A regular
  file is an inode number, so that two entries can name the same file.
\<close>

type_synonym entry = string

datatype node =
    NFile nat
  | NDir
  | NSymlink

record fsys =
  fs_resolve :: "string \<Rightarrow> entry option"
  fs_names :: "entry \<rightharpoonup> node"
  fs_data :: "nat \<Rightarrow> byte list"
  fs_next :: nat

datatype fs_error = FsNotExist | FsExist | FsUnresolved | FsFault nat

type_synonym fault = "nat option"

definition fs_ok :: "fsys \<Rightarrow> bool" where
  "fs_ok fs \<longleftrightarrow> (\<forall>en i. fs_names fs en = Some (NFile i) \<longrightarrow> i < fs_next fs)"

definition root_Lstat :: "fault \<Rightarrow> fsys \<Rightarrow> string \<Rightarrow> (fs_error, node) result" where
  "root_Lstat fault fs p =
     (case fault of Some e \<Rightarrow> Err (FsFault e)
      | None \<Rightarrow>
          (case fs_resolve fs p of
             None \<Rightarrow> Err FsUnresolved
           | Some en \<Rightarrow> (case fs_names fs en of None \<Rightarrow> Err FsNotExist | Some n \<Rightarrow> Ok n)))"

text \<open>\<open>OpenFile\<close> with \<open>O_CREATE|O_EXCL|O_WRONLY\<close>: a new empty file, never an existing one.\<close>

definition root_Create :: "fault \<Rightarrow> fsys \<Rightarrow> string \<Rightarrow> (fs_error, nat \<times> fsys) result" where
  "root_Create fault fs p =
     (case fault of Some e \<Rightarrow> Err (FsFault e)
      | None \<Rightarrow>
          (case fs_resolve fs p of
             None \<Rightarrow> Err FsUnresolved
           | Some en \<Rightarrow>
               (case fs_names fs en of
                  Some _ \<Rightarrow> Err FsExist
                | None \<Rightarrow>
                    let i = fs_next fs in
                    Ok (i, fs\<lparr>fs_names := (fs_names fs)(en \<mapsto> NFile i), fs_data := (fs_data fs)(i := []),
                       fs_next := i + 1\<rparr>))))"

definition root_Link :: "fault \<Rightarrow> fsys \<Rightarrow> string \<Rightarrow> string \<Rightarrow> (fs_error, fsys) result" where
  "root_Link fault fs old new =
     (case fault of Some e \<Rightarrow> Err (FsFault e)
      | None \<Rightarrow>
          (case fs_resolve fs old of
             None \<Rightarrow> Err FsUnresolved
           | Some en \<Rightarrow>
               (case fs_names fs en of
                  None \<Rightarrow> Err FsNotExist
                | Some n \<Rightarrow>
                    (case fs_resolve fs new of
                       None \<Rightarrow> Err FsUnresolved
                     | Some dst \<Rightarrow>
                         (case fs_names fs dst of
                            Some _ \<Rightarrow> Err FsExist
                          | None \<Rightarrow> Ok (fs\<lparr>fs_names := (fs_names fs)(dst \<mapsto> n)\<rparr>))))))"

definition root_Remove :: "fault \<Rightarrow> fsys \<Rightarrow> string \<Rightarrow> fs_error option \<times> fsys" where
  "root_Remove fault fs p =
     (case fault of Some e \<Rightarrow> (Some (FsFault e), fs)
      | None \<Rightarrow>
          (case fs_resolve fs p of
             None \<Rightarrow> (Some FsUnresolved, fs)
           | Some en \<Rightarrow>
               (case fs_names fs en of
                  None \<Rightarrow> (Some FsNotExist, fs)
                | Some _ \<Rightarrow> (None, fs\<lparr>fs_names := (fs_names fs)(en := None)\<rparr>))))"

text \<open>A write through the only handle of a new file appends; \<open>n\<close> bytes of it are stored.\<close>

definition file_Append :: "nat \<Rightarrow> byte list \<Rightarrow> fsys \<Rightarrow> fsys" where
  "file_Append i bs fs = fs\<lparr>fs_data := (fs_data fs)(i := fs_data fs i @ bs)\<rparr>"

section \<open>Opening the store\<close>

datatype store_error =
    StRootPath
  | StLimit
  | StStat nat
  | StRootKind
  | StOpenRoot nat
  | StVerify nat
  | StRootChanged
  | StInvalid ts_error
  | StReplace
  | StExpectedTooLarge
  | StExists
  | StStatDestination fs_error
  | StParentStat nat
  | StParentKind
  | StRandom
  | StCreate fs_error
  | StStageExhausted
  | StClosed
  | StTooLarge
  | StMoreThanExpected
  | StWrite nat
  | StShortWrite
  | StSizeMismatch
  | StDigestMismatch
  | StSync nat
  | StCloseFile nat
  | StPublish fs_error
  | StCleanup fs_error
  | StNotRegular
  | StOpenDownload nat
  | StChanged
  | StCancel "nat option" "fs_error option"

definition MaxFileTransferStoreBytes :: u64 where
  "MaxFileTransferStoreBytes = 1099511627776"

record file_store =
  st_maxBytes :: u64

text \<open>
  What the operating system says about the root: \<open>Lstat\<close> gives the kind and the identity of
  the directory entry, \<open>OpenRoot\<close> and \<open>Stat\<close> of the opened root give its identity.
\<close>

record root_env =
  re_abs :: "string \<Rightarrow> bool"
  re_lstat :: "string \<Rightarrow> (nat, node \<times> nat) result"
  re_open :: "string \<Rightarrow> nat option"
  re_stat :: "(nat, nat) result"

definition OpenFileTransferStore :: "root_env \<Rightarrow> string \<Rightarrow> u64 \<Rightarrow> (store_error, file_store) result" where
  "OpenFileTransferStore env rootPath0 maxBytes =
     (let rootPath = trim_space rootPath0 in
      if rootPath = [] \<or> \<not> re_abs env rootPath then Err StRootPath
      else if maxBytes = 0 \<or> MaxFileTransferStoreBytes < maxBytes then Err StLimit
      else (case re_lstat env rootPath of
          Err e \<Rightarrow> Err (StStat e)
        | Ok (kind, ident) \<Rightarrow>
            if kind \<noteq> NDir then Err StRootKind
            else (case re_open env rootPath of
                Some e \<Rightarrow> Err (StOpenRoot e)
              | None \<Rightarrow>
                  (case re_stat env of
                     Err e \<Rightarrow> Err (StVerify e)
                   | Ok after \<Rightarrow>
                       if after \<noteq> ident then Err StRootChanged
                       else Ok \<lparr>st_maxBytes = maxBytes\<rparr>))))"

section \<open>Uploads\<close>

record file_upload =
  up_file :: "nat option"
  up_stage :: string
  up_destination :: string
  up_expectedSize :: u64
  up_hasExpectedSize :: bool
  up_expectedSHA :: string
  up_maxBytes :: u64
  up_digest :: "byte list"
  up_written :: u64
  up_closed :: bool
  up_committed :: bool

text \<open>
  \<open>path.Dir\<close> on a path that passed the protocol's validation: the components before the last
  one, or a dot.
\<close>

fun join_path :: "string list \<Rightarrow> string" where
  "join_path [] = []"
| "join_path [c] = c"
| "join_path (c # cs) = c @ CHR ''/'' # join_path cs"

definition path_Dir :: "string \<Rightarrow> string" where
  "path_Dir p =
     (let parts = split_on CHR ''/'' p in
      if length parts \<le> 1 then ''.'' else join_path (butlast parts))"

definition uploadStageName :: "string \<Rightarrow> byte list option \<Rightarrow> (store_error, string) result" where
  "uploadStageName parent random =
     (case random of
        None \<Rightarrow> Err StRandom
      | Some bs \<Rightarrow>
          let name = ''.wedecent-upload-'' @ hex_encode bs @ ''.tmp'' in
          Ok (if parent = ''.'' then name else parent @ ''/'' @ name))"

record begin_env =
  be_lstat :: fault
  be_parent :: "string \<Rightarrow> (nat, bool) result"
  be_random :: "nat \<Rightarrow> byte list option"
  be_create :: "nat \<Rightarrow> fault"

text \<open>The loop over at most eight staging names; \<open>attempt\<close> counts up to eight.\<close>

fun stage_attempts ::
  "begin_env \<Rightarrow> string \<Rightarrow> nat \<Rightarrow> nat \<Rightarrow> fsys \<Rightarrow> (store_error, string \<times> nat \<times> fsys) result" where
  "stage_attempts env parent attempt 0 fs = Err StStageExhausted"
| "stage_attempts env parent attempt (Suc left) fs =
     (case uploadStageName parent (be_random env attempt) of
        Err e \<Rightarrow> Err e
      | Ok stageName \<Rightarrow>
          (case root_Create (be_create env attempt) fs stageName of
             Err FsExist \<Rightarrow> stage_attempts env parent (attempt + 1) left fs
           | Err e \<Rightarrow> Err (StCreate e)
           | Ok (i, fs') \<Rightarrow> Ok (stageName, i, fs')))"

definition BeginUpload ::
  "file_store \<Rightarrow> begin_env \<Rightarrow> file_upload_open \<Rightarrow> fsys \<Rightarrow> (store_error, file_upload \<times> fsys) result" where
  "BeginUpload store env open fs =
     (case ValidateFileUploadOpen open of
        Err e \<Rightarrow> Err (StInvalid e)
      | Ok _ \<Rightarrow>
          if fu_existing open \<noteq> FileExistingFail then Err StReplace
          else if (case fu_expected_size open of None \<Rightarrow> False | Some n \<Rightarrow> st_maxBytes store < n) then Err StExpectedTooLarge
          else (case root_Lstat (be_lstat env) fs (fu_path open) of
              Ok _ \<Rightarrow> Err StExists
            | Err e \<Rightarrow>
                if e \<noteq> FsNotExist then Err (StStatDestination e)
                else
                  let parent = path_Dir (fu_path open) in
                  (case be_parent env parent of
                     Err e \<Rightarrow> Err (StParentStat e)
                   | Ok isDir \<Rightarrow>
                       if \<not> isDir then Err StParentKind
                       else (case stage_attempts env parent 0 8 fs of
                           Err e \<Rightarrow> Err e
                         | Ok (stageName, i, fs') \<Rightarrow>
                             Ok (\<lparr>up_file = Some i, up_stage = stageName, up_destination = fu_path open,
                                  up_expectedSize = (case fu_expected_size open of None \<Rightarrow> 0 | Some n \<Rightarrow> n),
                                  up_hasExpectedSize = (fu_expected_size open \<noteq> None),
                                  up_expectedSHA = fu_sha256 open, up_maxBytes = st_maxBytes store,
                                  up_digest = [], up_written = 0, up_closed = False, up_committed = False\<rparr>,
                                 fs')))))"

definition upload_failLocked :: "fault \<Rightarrow> file_upload \<times> fsys \<Rightarrow> file_upload \<times> fsys" where
  "upload_failLocked rm s =
     (case s of (u, fs) \<Rightarrow> (u\<lparr>up_closed := True, up_file := None\<rparr>, snd (root_Remove rm fs (up_stage u))))"

text \<open>The answer of the operating system to a write: how much it took, and an error.\<close>

record write_env =
  we_taken :: nat
  we_error :: "nat option"
  we_remove :: fault

definition upload_Write ::
  "write_env \<Rightarrow> byte list \<Rightarrow> file_upload \<times> fsys \<Rightarrow> (nat \<times> store_error option) \<times> (file_upload \<times> fsys)" where
  "upload_Write env data s =
     (case s of (u, fs) \<Rightarrow>
        if up_closed u then ((0, Some StClosed), s)
        else if data = [] then ((0, None), s)
        else if unat (up_maxBytes u - up_written u) < length data
        then ((0, Some StTooLarge), upload_failLocked (we_remove env) s)
        else if up_hasExpectedSize u \<and> unat (up_expectedSize u - up_written u) < length data
        then ((0, Some StMoreThanExpected), upload_failLocked (we_remove env) s)
        else
          let n = min (we_taken env) (length data);
              fs1 = (case up_file u of None \<Rightarrow> fs | Some i \<Rightarrow> file_Append i (take n data) fs);
              u1 = u\<lparr>up_written := up_written u + of_nat n, up_digest := up_digest u @ take n data\<rparr>
          in
            (case we_error env of
               Some e \<Rightarrow> ((n, Some (StWrite e)), upload_failLocked (we_remove env) (u1, fs1))
             | None \<Rightarrow>
                 if n \<noteq> length data then ((n, Some StShortWrite), upload_failLocked (we_remove env) (u1, fs1))
                 else ((n, None), (u1, fs1))))"

record commit_env =
  ce_sync :: fault
  ce_close :: fault
  ce_link :: fault
  ce_remove :: fault

definition upload_Commit ::
  "(byte list \<Rightarrow> byte list) \<Rightarrow> commit_env \<Rightarrow> file_upload \<times> fsys \<Rightarrow> store_error option \<times> (file_upload \<times> fsys)" where
  "upload_Commit sha256 env s =
     (case s of (u, fs) \<Rightarrow>
        if up_committed u then (None, s)
        else if up_closed u then (Some StClosed, s)
        else if up_hasExpectedSize u \<and> up_written u \<noteq> up_expectedSize u
        then (Some StSizeMismatch, upload_failLocked (ce_remove env) s)
        else if up_expectedSHA u \<noteq> [] \<and> hex_encode (sha256 (up_digest u)) \<noteq> up_expectedSHA u
        then (Some StDigestMismatch, upload_failLocked (ce_remove env) s)
        else (case ce_sync env of
            Some e \<Rightarrow> (Some (StSync e), upload_failLocked (ce_remove env) s)
          | None \<Rightarrow>
              (case ce_close env of
                 Some e \<Rightarrow>
                   (Some (StCloseFile e), (u\<lparr>up_file := None, up_closed := True\<rparr>,
                      snd (root_Remove (ce_remove env) fs (up_stage u))))
               | None \<Rightarrow>
                   (case root_Link (ce_link env) fs (up_stage u) (up_destination u) of
                      Err e \<Rightarrow>
                        (Some (StPublish e), (u\<lparr>up_file := None, up_closed := True\<rparr>,
                           snd (root_Remove (ce_remove env) fs (up_stage u))))
                    | Ok fs1 \<Rightarrow>
                        (case root_Remove (ce_remove env) fs1 (up_stage u) of
                           (e, fs2) \<Rightarrow>
                             (map_option StCleanup e,
                              (u\<lparr>up_file := None, up_committed := True, up_closed := True\<rparr>, fs2)))))))"

record cancel_env =
  xe_close :: fault
  xe_remove :: fault

definition upload_Cancel :: "cancel_env \<Rightarrow> file_upload \<times> fsys \<Rightarrow> store_error option \<times> (file_upload \<times> fsys)" where
  "upload_Cancel env s =
     (case s of (u, fs) \<Rightarrow>
        if up_committed u \<or> up_closed u then (None, s)
        else
          let closeErr = (if up_file u \<noteq> None then xe_close env else None) in
          (case root_Remove (xe_remove env) fs (up_stage u) of
             (e, fs1) \<Rightarrow>
               let removeErr = (if e = Some FsNotExist then None else e) in
               (if closeErr = None \<and> removeErr = None then None else Some (StCancel closeErr removeErr),
                (u\<lparr>up_closed := True, up_file := None\<rparr>, fs1))))"

section \<open>Downloads\<close>

record file_download =
  dl_remaining :: u64
  dl_closed :: bool

text \<open>
  The target is looked up twice, before and after it is opened, and other processes may
  change the tree in between: \<open>fs1\<close> answers \<open>Lstat\<close>, \<open>fs2\<close> the open and the \<open>Stat\<close> of
  the opened file.  \<open>os.Root\<close> refuses to open what it cannot resolve.
\<close>

record download_env =
  de_lstat :: fault
  de_open :: fault
  de_stat :: fault

definition OpenDownload ::
  "file_store \<Rightarrow> download_env \<Rightarrow> (entry \<Rightarrow> (nat, node) result) \<Rightarrow> file_download_open \<Rightarrow> fsys \<Rightarrow> fsys \<Rightarrow>
     (store_error, file_download \<times> u64 \<times> nat) result" where
  "OpenDownload store env follow open fs1 fs2 =
     (case ValidateFileDownloadOpen open of
        Err e \<Rightarrow> Err (StInvalid e)
      | Ok _ \<Rightarrow>
          (case root_Lstat (de_lstat env) fs1 (fd_path open) of
             Err e \<Rightarrow> Err (StStatDestination e)
           | Ok observed \<Rightarrow>
               (case observed of
                  NFile i \<Rightarrow>
                    if unat (st_maxBytes store) < length (fs_data fs1 i) then Err StTooLarge
                    else (case de_open env of
                        Some e \<Rightarrow> Err (StOpenDownload e)
                      | None \<Rightarrow>
                          (case fs_resolve fs2 (fd_path open) of
                             None \<Rightarrow> Err (StOpenDownload 0)
                           | Some en \<Rightarrow>
                               (case (case fs_names fs2 en of
                                        Some NSymlink \<Rightarrow> follow en
                                      | Some n \<Rightarrow> Ok n
                                      | None \<Rightarrow> Err 0) of
                                  Err e \<Rightarrow> Err (StOpenDownload e)
                                | Ok opened \<Rightarrow>
                                    (case de_stat env of Some e \<Rightarrow> Err (StVerify e) | None \<Rightarrow>
                                    if opened \<noteq> NFile i then Err StChanged
                                    else if unat (st_maxBytes store) < length (fs_data fs2 i) then Err StTooLarge
                                    else
                                      let size = of_nat (length (fs_data fs2 i)) in
                                      Ok (\<lparr>dl_remaining = size, dl_closed = False\<rparr>, size, i)))))
                | _ \<Rightarrow> Err StNotRegular)))"

text \<open>
  \<open>Read\<close> into a buffer of \<open>len\<close> bytes; \<open>answer\<close> is what the file returns for the
  (possibly shortened) buffer.
\<close>

definition download_Read ::
  "(nat \<Rightarrow> byte list \<times> io_error option) \<Rightarrow> nat \<Rightarrow> file_download \<Rightarrow> (byte list \<times> io_error option) \<times> file_download" where
  "download_Read answer len d =
     (if dl_closed d then (([], Some (IoOther 0)), d)
      else if dl_remaining d = 0 then (([], Some IoEOF), d)
      else
        let asked = min len (unat (dl_remaining d));
            (got, err) = answer asked;
            bs = take asked got;
            remaining = dl_remaining d - of_nat (length bs);
            d' = d\<lparr>dl_remaining := remaining\<rparr>
        in
          if err = Some IoEOF \<and> 0 < remaining then ((bs, Some IoUnexpectedEOF), d')
          else if bs \<noteq> [] \<and> remaining = 0 \<and> err = Some IoEOF then ((bs, None), d')
          else ((bs, err), d'))"

definition download_Close :: "file_download \<Rightarrow> file_download" where
  "download_Close d = d\<lparr>dl_closed := True\<rparr>"

section \<open>What others see of the tree\<close>

datatype vnode =
    VFile "byte list"
  | VDir
  | VSymlink

fun view_node :: "(nat \<Rightarrow> byte list) \<Rightarrow> node \<Rightarrow> vnode" where
  "view_node data (NFile i) = VFile (data i)"
| "view_node data NDir = VDir"
| "view_node data NSymlink = VSymlink"

definition view :: "fsys \<Rightarrow> entry \<rightharpoonup> vnode" where
  "view fs en = map_option (view_node (fs_data fs)) (fs_names fs en)"

text \<open>The tree without the private staging entry of an upload.\<close>

definition visible :: "entry \<Rightarrow> fsys \<Rightarrow> entry \<rightharpoonup> vnode" where
  "visible se fs = (view fs)(se := None)"

definition upload_counts :: "file_upload \<Rightarrow> bool" where
  "upload_counts u \<longleftrightarrow>
     unat (up_written u) = length (up_digest u) \<and> up_written u \<le> up_maxBytes u \<and>
     (up_hasExpectedSize u \<longrightarrow> up_written u \<le> up_expectedSize u) \<and>
     (up_committed u \<longrightarrow> up_closed u) \<and> (up_closed u \<longrightarrow> up_file u = None)"

text \<open>While an upload is open, its staging entry names its own file and nothing else does.\<close>

definition staged :: "entry \<Rightarrow> file_upload \<Rightarrow> fsys \<Rightarrow> bool" where
  "staged se u fs \<longleftrightarrow>
     fs_resolve fs (up_stage u) = Some se \<and>
     (\<not> up_closed u \<longrightarrow>
        (\<exists>i. up_file u = Some i \<and> fs_names fs se = Some (NFile i) \<and> fs_data fs i = up_digest u \<and>
           (\<forall>en. fs_names fs en = Some (NFile i) \<longrightarrow> en = se)))"

definition upload_inv :: "entry \<Rightarrow> file_upload \<times> fsys \<Rightarrow> bool" where
  "upload_inv se s \<longleftrightarrow> upload_counts (fst s) \<and> staged se (fst s) (snd s)"

lemma stagedE:
  assumes "staged se u fs" "\<not> up_closed u"
  obtains i where "fs_resolve fs (up_stage u) = Some se" "up_file u = Some i" "fs_names fs se = Some (NFile i)"
    "fs_data fs i = up_digest u" "\<forall>en. fs_names fs en = Some (NFile i) \<longrightarrow> en = se"
  using assms unfolding staged_def by blast

lemma staged_closed: "up_closed u \<Longrightarrow> staged se u fs \<longleftrightarrow> fs_resolve fs (up_stage u) = Some se"
  by (simp add: staged_def)

lemma root_Remove_stage:
  assumes "fs_resolve fs p = Some se" "root_Remove rm fs p = (e, fs')"
  shows "fs_resolve fs' = fs_resolve fs \<and> visible se fs' = visible se fs \<and> fs_data fs' = fs_data fs \<and>
     (\<forall>en. en \<noteq> se \<longrightarrow> fs_names fs' en = fs_names fs en) \<and>
     (e = None \<or> e = Some FsNotExist \<longrightarrow> fs_names fs' se = None)"
  using assms
  by (auto simp: root_Remove_def visible_def view_def fun_eq_iff split: option.splits if_splits)

lemma upload_failLocked_keeps:
  assumes "upload_counts u" "fs_resolve fs (up_stage u) = Some se"
    and "upload_failLocked rm (u, fs) = (u', fs')"
  shows "upload_inv se (u', fs')" "visible se fs' = visible se fs" "up_closed u'" "up_committed u' = up_committed u"
    "up_destination u' = up_destination u"
proof -
  obtain e fs1 where r: "root_Remove rm fs (up_stage u) = (e, fs1)" by fastforce
  have eq: "u' = u\<lparr>up_closed := True, up_file := None\<rparr>" "fs' = fs1"
    using assms(3) r by (auto simp: upload_failLocked_def)
  show "upload_inv se (u', fs')" "visible se fs' = visible se fs" "up_closed u'" "up_committed u' = up_committed u"
    "up_destination u' = up_destination u"
    using assms(1,2) root_Remove_stage [OF assms(2) r]
    by (simp_all add: eq upload_inv_def upload_counts_def staged_closed)
qed

lemma file_Append_visible:
  assumes "\<And>en. fs_names fs en = Some (NFile i) \<Longrightarrow> en = se"
  shows "visible se (file_Append i bs fs) = visible se fs"
proof -
  have node: "view_node (fs_data (file_Append i bs fs)) n = view_node (fs_data fs) n" if "n \<noteq> NFile i" for n
    using that by (cases n) (auto simp: file_Append_def)
  have names: "fs_names (file_Append i bs fs) = fs_names fs" by (simp add: file_Append_def)
  have "view (file_Append i bs fs) en = view fs en" if "en \<noteq> se" for en
    unfolding view_def names
  proof (intro option.map_cong refl node notI)
    fix z assume "z \<in> set_option (fs_names fs en)" "z = NFile i"
    with assms have "en = se" by simp
    with that show False by simp
  qed
  then show ?thesis by (simp add: visible_def fun_eq_iff)
qed

lemma unat_add_bounded:
  assumes "b \<le> (a :: u64)" "n \<le> unat (a - b)"
  shows "unat (b + of_nat n) = unat b + n \<and> b + of_nat n \<le> a"
proof -
  have le: "unat b + n \<le> unat a" using assms by (simp add: unat_sub word_le_nat_alt)
  then have "unat b + n < 18446744073709551616" using unat_u64_less [of a] by simp
  moreover have "unat (of_nat n :: u64) = n" using calculation by (simp add: unat_of_nat)
  ultimately have "unat (b + of_nat n) = unat b + n" by (simp add: unat_word_ariths)
  with le show ?thesis by (simp add: word_le_nat_alt)
qed

section \<open>The steps of an upload\<close>

definition same_target :: "file_upload \<Rightarrow> file_upload \<Rightarrow> bool" where
  "same_target u v \<longleftrightarrow>
     up_stage v = up_stage u \<and> up_destination v = up_destination u \<and> up_expectedSize v = up_expectedSize u \<and>
     up_hasExpectedSize v = up_hasExpectedSize u \<and> up_expectedSHA v = up_expectedSHA u \<and>
     up_maxBytes v = up_maxBytes u"

lemma same_target_trans: "same_target u v \<Longrightarrow> same_target v w \<Longrightarrow> same_target u w"
  by (simp add: same_target_def)

lemma fail_target:
  "upload_failLocked rm (u, fs) = (u', fs') \<Longrightarrow> same_target u u' \<and> up_digest u' = up_digest u"
  by (auto simp: upload_failLocked_def same_target_def)

lemma append_staged:
  assumes "upload_inv se (u, fs)" "\<not> up_closed u" "data \<noteq> []"
    and "length data \<le> unat (up_maxBytes u - up_written u)"
    and "up_hasExpectedSize u \<longrightarrow> length data \<le> unat (up_expectedSize u - up_written u)"
    and "n \<le> length data"
  defines "u1 \<equiv> u\<lparr>up_written := up_written u + of_nat n, up_digest := up_digest u @ take n data\<rparr>"
    and "fs1 \<equiv> (case up_file u of None \<Rightarrow> fs | Some i \<Rightarrow> file_Append i (take n data) fs)"
  shows "upload_inv se (u1, fs1) \<and> visible se fs1 = visible se fs \<and> fs_resolve fs1 = fs_resolve fs"
proof -
  from assms(1) have c: "upload_counts u" and st: "staged se u fs" by (simp_all add: upload_inv_def)
  from st assms(2) obtain i where i: "fs_resolve fs (up_stage u) = Some se" "up_file u = Some i"
    "fs_names fs se = Some (NFile i)" "fs_data fs i = up_digest u"
    and only: "\<forall>en. fs_names fs en = Some (NFile i) \<longrightarrow> en = se" by (rule stagedE)
  have f1: "fs1 = file_Append i (take n data) fs" using i(2) by (simp add: fs1_def)
  have m: "unat (up_written u + of_nat n) = unat (up_written u) + n \<and> up_written u + of_nat n \<le> up_maxBytes u"
    using c assms(4,6) by (intro unat_add_bounded) (simp_all add: upload_counts_def)
  have x: "up_hasExpectedSize u \<longrightarrow> up_written u + of_nat n \<le> up_expectedSize u"
    using c assms(5,6) unat_add_bounded [of "up_written u" "up_expectedSize u" n]
    unfolding upload_counts_def by (meson le_trans)
  have "upload_counts u1" using c m x assms(2,6) by (simp add: upload_counts_def u1_def)
  moreover have "staged se u1 fs1"
  proof -
    have "up_stage u1 = up_stage u" "up_file u1 = Some i" "fs_names fs1 = fs_names fs" "fs_resolve fs1 = fs_resolve fs"
      "fs_data fs1 i = up_digest u1" by (simp_all add: u1_def f1 file_Append_def i)
    with i(1,3) only show ?thesis unfolding staged_def by metis
  qed
  moreover have "visible se fs1 = visible se fs" unfolding f1 by (rule file_Append_visible) (use only in blast)
  moreover have "fs_resolve fs1 = fs_resolve fs" by (simp add: f1 file_Append_def)
  ultimately show ?thesis by (simp add: upload_inv_def)
qed

lemma upload_fail_after:
  assumes "upload_inv se (u, fs)" "upload_failLocked rm (u, fs) = (u', fs')"
  shows "upload_inv se (u', fs') \<and> visible se fs' = visible se fs \<and> up_closed u' \<and> up_committed u' = up_committed u"
  using upload_failLocked_keeps [OF _ _ assms(2)] assms(1) by (simp add: upload_inv_def staged_def)

lemma upload_Write_cases:
  assumes "upload_Write env data (u, fs) = ((n, e), (u', fs'))"
  obtains (idle) "n = 0" "u' = u" "fs' = fs" "up_closed u \<or> data = []" "e = None \<longrightarrow> data = []"
  | (refused) "n = 0" "e \<noteq> None" "upload_failLocked (we_remove env) (u, fs) = (u', fs')"
  | (stored) u1 fs1 where "\<not> up_closed u" "data \<noteq> []" "length data \<le> unat (up_maxBytes u - up_written u)"
      "up_hasExpectedSize u \<longrightarrow> length data \<le> unat (up_expectedSize u - up_written u)" "n \<le> length data"
      "u1 = u\<lparr>up_written := up_written u + of_nat n, up_digest := up_digest u @ take n data\<rparr>"
      "fs1 = (case up_file u of None \<Rightarrow> fs | Some i \<Rightarrow> file_Append i (take n data) fs)"
      "if e = None then n = length data \<and> (u', fs') = (u1, fs1)
       else upload_failLocked (we_remove env) (u1, fs1) = (u', fs')"
proof -
  let ?n = "min (we_taken env) (length data)"
  let ?u1 = "u\<lparr>up_written := up_written u + of_nat ?n, up_digest := up_digest u @ take ?n data\<rparr>"
  let ?fs1 = "case up_file u of None \<Rightarrow> fs | Some i \<Rightarrow> file_Append i (take ?n data) fs"
  consider "up_closed u \<or> data = []"
    | "\<not> up_closed u" "data \<noteq> []" "unat (up_maxBytes u - up_written u) < length data \<or>
         up_hasExpectedSize u \<and> unat (up_expectedSize u - up_written u) < length data"
    | "\<not> up_closed u" "data \<noteq> []" "length data \<le> unat (up_maxBytes u - up_written u)"
      "up_hasExpectedSize u \<longrightarrow> length data \<le> unat (up_expectedSize u - up_written u)"
    by (meson not_le)
  then show ?thesis
  proof cases
    case 1
    with assms have "n = 0" "u' = u" "fs' = fs" "e = None \<longrightarrow> data = []"
      by (auto simp: upload_Write_def split: if_splits)
    with 1 show ?thesis using idle by blast
  next
    case 2
    with assms have "n = 0" "e \<noteq> None" "upload_failLocked (we_remove env) (u, fs) = (u', fs')"
      by (auto simp: upload_Write_def split: if_splits)
    then show ?thesis by (rule refused)
  next
    case 3
    then have g: "\<not> unat (up_maxBytes u - up_written u) < length data"
      "\<not> (up_hasExpectedSize u \<and> unat (up_expectedSize u - up_written u) < length data)" by auto
    have w: "upload_Write env data (u, fs) =
        (case we_error env of
           Some e \<Rightarrow> ((?n, Some (StWrite e)), upload_failLocked (we_remove env) (?u1, ?fs1))
         | None \<Rightarrow>
             if ?n \<noteq> length data then ((?n, Some StShortWrite), upload_failLocked (we_remove env) (?u1, ?fs1))
             else ((?n, None), (?u1, ?fs1)))"
      unfolding upload_Write_def Let_def prod.case if_not_P [OF 3(1)] if_not_P [OF 3(2)] if_not_P [OF g(1)] if_not_P [OF g(2)]
      by (rule refl)
    have n: "n = ?n" using assms unfolding w by (simp split: option.splits if_splits)
    have "if e = None then ?n = length data \<and> (u', fs') = (?u1, ?fs1)
       else upload_failLocked (we_remove env) (?u1, ?fs1) = (u', fs')"
      using assms unfolding w by (auto split: option.splits if_splits)
    with 3 show ?thesis by (intro stored [of ?u1 ?fs1, unfolded n]) simp_all
  qed
qed

lemma upload_Write_step:
  assumes "upload_inv se (u, fs)" "upload_Write env data (u, fs) = ((n, e), (u', fs'))"
  shows "upload_inv se (u', fs') \<and> visible se fs' = visible se fs \<and> same_target u u' \<and>
     up_committed u' = up_committed u \<and> up_digest u' = up_digest u @ take n data \<and> (e = None \<longrightarrow> n = length data)"
  using assms(2)
proof (cases rule: upload_Write_cases)
  case idle
  then show ?thesis using assms(1) by (auto simp: same_target_def)
next
  case refused
  then show ?thesis using upload_fail_after [OF assms(1)] fail_target by auto
next
  case (stored u1 fs1)
  have s: "upload_inv se (u1, fs1) \<and> visible se fs1 = visible se fs \<and> fs_resolve fs1 = fs_resolve fs"
    unfolding stored(6,7) by (rule append_staged [OF assms(1) stored(1-5)])
  have t: "same_target u u1" "up_digest u1 = up_digest u @ take n data" "up_committed u1 = up_committed u"
    by (simp_all add: stored(6) same_target_def)
  show ?thesis
  proof (cases e)
    case None
    then show ?thesis using s t stored(8) by simp
  next
    case (Some x)
    then have f: "upload_failLocked (we_remove env) (u1, fs1) = (u', fs')" using stored(8) by simp
    with s upload_fail_after [OF _ f] fail_target [OF f] t Some show ?thesis
      by (auto intro: same_target_trans)
  qed
qed

lemma upload_Cancel_step:
  assumes "upload_inv se (u, fs)" "upload_Cancel env (u, fs) = (e, (u', fs'))"
  shows "upload_inv se (u', fs') \<and> visible se fs' = visible se fs \<and> same_target u u' \<and>
     up_committed u' = up_committed u \<and> up_digest u' = up_digest u \<and> up_closed u' \<and>
     (\<not> up_closed u \<and> e = None \<longrightarrow> view fs' se = None)"
proof (cases "up_closed u")
  case True
  then show ?thesis using assms by (simp add: upload_Cancel_def same_target_def)
next
  case False
  have inv: "upload_counts u" "fs_resolve fs (up_stage u) = Some se"
    using assms(1) by (simp_all add: upload_inv_def staged_def)
  have nc: "\<not> up_committed u" using False inv(1) by (simp add: upload_counts_def)
  obtain r fs1 where r: "root_Remove (xe_remove env) fs (up_stage u) = (r, fs1)" by fastforce
  have out: "u' = u\<lparr>up_closed := True, up_file := None\<rparr>" "fs' = fs1" "e = None \<longrightarrow> r = None \<or> r = Some FsNotExist"
    using assms(2) False nc r by (auto simp: upload_Cancel_def Let_def split: if_splits)
  note st = root_Remove_stage [OF inv(2) r]
  have "e = None \<longrightarrow> view fs' se = None" using out st by (auto simp: view_def)
  then show ?thesis
    using inv nc out(1,2) st
    by (simp add: upload_inv_def upload_counts_def staged_closed same_target_def)
qed

lemma root_Link_staged:
  assumes "staged se u fs" "\<not> up_closed u" "root_Link l fs (up_stage u) p = Ok fs1"
  obtains d where "fs_resolve fs p = Some d" "d \<noteq> se" "fs_names fs d = None"
    "fs_resolve fs1 = fs_resolve fs" "visible se fs1 = (visible se fs)(d \<mapsto> VFile (up_digest u))"
proof -
  from assms(1,2) obtain i where i: "fs_resolve fs (up_stage u) = Some se" "fs_names fs se = Some (NFile i)"
    "fs_data fs i = up_digest u" by (rule stagedE)
  from assms(3) i obtain d where d: "fs_resolve fs p = Some d" "fs_names fs d = None"
    "fs1 = fs\<lparr>fs_names := (fs_names fs)(d \<mapsto> NFile i)\<rparr>"
    by (auto simp: root_Link_def split: option.splits)
  have "d \<noteq> se" using d(2) i(2) by auto
  with d i show ?thesis by (intro that [of d]) (auto simp: visible_def view_def fun_eq_iff)
qed

lemma upload_Commit_cases:
  assumes "upload_Commit sha256 env (u, fs) = (e, (u', fs'))" "\<not> up_committed u"
  obtains (closed) "e \<noteq> None" "u' = u" "fs' = fs"
  | (failed) "e \<noteq> None" "\<not> up_closed u" "u' = u\<lparr>up_closed := True, up_file := None\<rparr>"
      "fs' = snd (root_Remove (ce_remove env) fs (up_stage u))"
  | (published) fs1 r where "\<not> up_closed u" "up_hasExpectedSize u \<longrightarrow> up_written u = up_expectedSize u"
      "up_expectedSHA u \<noteq> [] \<longrightarrow> hex_encode (sha256 (up_digest u)) = up_expectedSHA u"
      "root_Link (ce_link env) fs (up_stage u) (up_destination u) = Ok fs1"
      "root_Remove (ce_remove env) fs1 (up_stage u) = (r, fs')" "e = None \<longleftrightarrow> r = None"
      "u' = u\<lparr>up_file := None, up_committed := True, up_closed := True\<rparr>"
proof -
  let ?rejected = "up_hasExpectedSize u \<and> up_written u \<noteq> up_expectedSize u \<or>
     up_expectedSHA u \<noteq> [] \<and> hex_encode (sha256 (up_digest u)) \<noteq> up_expectedSHA u \<or>
     ce_sync env \<noteq> None \<or> ce_close env \<noteq> None"
  consider "up_closed u" | "\<not> up_closed u" "?rejected"
    | e1 where "\<not> up_closed u" "\<not> ?rejected" "root_Link (ce_link env) fs (up_stage u) (up_destination u) = Err e1"
    | fs1 where "\<not> up_closed u" "\<not> ?rejected" "root_Link (ce_link env) fs (up_stage u) (up_destination u) = Ok fs1"
    by (metis sum.exhaust)
  then show ?thesis
  proof cases
    case 1
    with assms show ?thesis by (intro closed) (auto simp: upload_Commit_def)
  next
    case 2
    with assms have "e \<noteq> None \<and> u' = u\<lparr>up_closed := True, up_file := None\<rparr> \<and>
        fs' = snd (root_Remove (ce_remove env) fs (up_stage u))"
      by (auto simp: upload_Commit_def upload_failLocked_def split: if_splits option.splits)
    with 2 show ?thesis by (intro failed) simp_all
  next
    case 3
    with assms have "e \<noteq> None \<and> u' = u\<lparr>up_closed := True, up_file := None\<rparr> \<and>
        fs' = snd (root_Remove (ce_remove env) fs (up_stage u))"
      by (auto simp: upload_Commit_def)
    with 3 show ?thesis by (intro failed) simp_all
  next
    case 4
    obtain r fs2 where r: "root_Remove (ce_remove env) fs1 (up_stage u) = (r, fs2)" by fastforce
    with assms 4 have "e = map_option StCleanup r \<and> fs' = fs2 \<and>
        u' = u\<lparr>up_file := None, up_committed := True, up_closed := True\<rparr>"
      by (auto simp: upload_Commit_def)
    with 4 r show ?thesis by (intro published [of fs1 r]) auto
  qed
qed

lemma upload_Commit_step:
  assumes "upload_inv se (u, fs)" "upload_Commit sha256 env (u, fs) = (e, (u', fs'))"
  shows "upload_inv se (u', fs') \<and> same_target u u' \<and> up_digest u' = up_digest u"
proof (cases "up_committed u")
  case True
  then show ?thesis using assms by (simp add: upload_Commit_def same_target_def)
next
  case False
  have inv: "upload_counts u" "staged se u fs" "fs_resolve fs (up_stage u) = Some se"
    using assms(1) by (simp_all add: upload_inv_def staged_def)
  from assms(2) False show ?thesis
  proof (cases rule: upload_Commit_cases)
    case closed
    then show ?thesis using assms(1) by (simp add: same_target_def)
  next
    case failed
    obtain r fs1 where "root_Remove (ce_remove env) fs (up_stage u) = (r, fs1)" by fastforce
    with failed inv root_Remove_stage [OF inv(3) this] show ?thesis
      by (simp add: upload_inv_def upload_counts_def staged_closed same_target_def)
  next
    case (published fs1 r)
    have "fs_resolve fs1 (up_stage u) = Some se"
      using root_Link_staged [OF inv(2) published(1,4)] inv(3) by metis
    with published inv root_Remove_stage [OF this published(5)] show ?thesis
      by (simp add: upload_inv_def upload_counts_def staged_closed same_target_def)
  qed
qed

section \<open>Whole uploads\<close>

text \<open>
  What other processes may do between two steps: anything to the tree, except touching the
  private staging entry and its file.
\<close>

definition others_ok :: "entry \<Rightarrow> file_upload \<Rightarrow> fsys \<Rightarrow> fsys \<Rightarrow> bool" where
  "others_ok se u fs fs' \<longleftrightarrow>
     fs_resolve fs' (up_stage u) = Some se \<and> fs_names fs' se = fs_names fs se \<and>
     (case up_file u of
        None \<Rightarrow> True
      | Some i \<Rightarrow> fs_data fs' i = fs_data fs i \<and> (\<forall>en. fs_names fs' en = Some (NFile i) \<longrightarrow> en = se))"

text \<open>The states of an upload, with the bytes it has stored so far.\<close>

inductive upload_reach ::
  "(byte list \<Rightarrow> byte list) \<Rightarrow> entry \<Rightarrow> file_upload \<times> fsys \<Rightarrow> byte list \<Rightarrow> file_upload \<times> fsys \<Rightarrow> bool"
  for sha256 se s0 where
  begun: "upload_reach sha256 se s0 [] s0"
| wrote: "upload_reach sha256 se s0 bs s \<Longrightarrow> upload_Write env data s = ((n, e), s') \<Longrightarrow>
     upload_reach sha256 se s0 (bs @ take n data) s'"
| committed: "upload_reach sha256 se s0 bs s \<Longrightarrow> upload_Commit sha256 cenv s = (e, s') \<Longrightarrow>
     upload_reach sha256 se s0 bs s'"
| cancelled: "upload_reach sha256 se s0 bs s \<Longrightarrow> upload_Cancel xenv s = (e, s') \<Longrightarrow>
     upload_reach sha256 se s0 bs s'"
| others: "upload_reach sha256 se s0 bs (u, fs) \<Longrightarrow> others_ok se u fs fs' \<Longrightarrow>
     upload_reach sha256 se s0 bs (u, fs')"

lemma stagedI:
  "fs_resolve fs (up_stage u) = Some se \<Longrightarrow> up_file u = Some i \<Longrightarrow> fs_names fs se = Some (NFile i) \<Longrightarrow>
   fs_data fs i = up_digest u \<Longrightarrow> \<forall>en. fs_names fs en = Some (NFile i) \<longrightarrow> en = se \<Longrightarrow> staged se u fs"
  unfolding staged_def by blast

lemma others_keep_inv:
  assumes "upload_inv se (u, fs)" "others_ok se u fs fs'"
  shows "upload_inv se (u, fs')"
proof -
  have c: "upload_counts u" and st: "staged se u fs" using assms(1) by (simp_all add: upload_inv_def)
  have "staged se u fs'"
  proof (cases "up_closed u")
    case True
    then show ?thesis using assms(2) by (simp add: staged_closed others_ok_def)
  next
    case False
    with st obtain i where i: "up_file u = Some i" "fs_names fs se = Some (NFile i)" "fs_data fs i = up_digest u"
      by (rule stagedE)
    have o: "fs_resolve fs' (up_stage u) = Some se" "fs_names fs' se = fs_names fs se" "fs_data fs' i = fs_data fs i"
      "\<forall>en. fs_names fs' en = Some (NFile i) \<longrightarrow> en = se"
      using assms(2) unfolding others_ok_def i(1) option.case by blast+
    from o(1) i(1) show ?thesis by (rule stagedI) (use o i in blast | simp add: o i)+
  qed
  with c show ?thesis by (simp add: upload_inv_def)
qed

lemma upload_reach_inv:
  assumes "upload_reach sha256 se s0 bs s" "upload_inv se s0" "up_digest (fst s0) = []"
  shows "upload_inv se s \<and> up_digest (fst s) = bs \<and> same_target (fst s0) (fst s)"
  using assms
proof (induction rule: upload_reach.induct)
  case begun
  then show ?case by (simp add: same_target_def)
next
  case (wrote bs s env data n e s')
  then show ?case using upload_Write_step [of se "fst s" "snd s" env data n e "fst s'" "snd s'"]
    by (auto intro: same_target_trans)
next
  case (committed bs s cenv e s')
  then show ?case using upload_Commit_step [of se "fst s" "snd s" sha256 cenv e "fst s'" "snd s'"]
    by (auto intro: same_target_trans)
next
  case (cancelled bs s xenv e s')
  then show ?case using upload_Cancel_step [of se "fst s" "snd s" xenv e "fst s'" "snd s'"]
    by (auto intro: same_target_trans)
next
  case (others bs u fs fs')
  then show ?case using others_keep_inv by auto
qed

lemma stage_attempts_Ok:
  "stage_attempts env parent k left fs = Ok (p, i, fs') \<Longrightarrow> \<exists>j. root_Create (be_create env j) fs p = Ok (i, fs')"
  by (induction env parent k left fs rule: stage_attempts.induct)
    (auto split: sum.splits fs_error.splits)

lemma root_Create_Ok:
  assumes "root_Create f fs p = Ok (i, fs')" "fs_ok fs"
  obtains se where "fs_resolve fs p = Some se" "fs_names fs se = None" "fs_resolve fs' = fs_resolve fs"
    "fs_names fs' = (fs_names fs)(se \<mapsto> NFile i)" "fs_data fs' i = []" "visible se fs' = visible se fs"
    "\<forall>en. fs_names fs' en = Some (NFile i) \<longrightarrow> en = se"
proof -
  from assms(1) obtain se where se: "fs_resolve fs p = Some se" "fs_names fs se = None" "i = fs_next fs"
    "fs' = fs\<lparr>fs_names := (fs_names fs)(se \<mapsto> NFile i), fs_data := (fs_data fs)(i := []), fs_next := i + 1\<rparr>"
    by (auto simp: root_Create_def Let_def split: option.splits)
  have old: "n \<noteq> NFile i" if "fs_names fs en = Some n" for en n
    using that assms(2) se(3) by (auto simp: fs_ok_def)
  have "view_node (fs_data fs') n = view_node (fs_data fs) n" if "n \<noteq> NFile i" for n
    using that by (cases n) (auto simp: se(4))
  then have "view fs' en = view fs en" if "en \<noteq> se" for en
    using that old [of en] by (cases "fs_names fs en") (auto simp: view_def se(4))
  then have "visible se fs' = visible se fs" by (auto simp: visible_def)
  then show ?thesis using se old by (intro that [of se]) (auto split: if_splits)
qed

lemma BeginUpload_Ok:
  assumes "BeginUpload store env open fs = Ok (u, fs')" "fs_ok fs"
  obtains se where "upload_inv se (u, fs')" "visible se fs' = visible se fs" "fs_names fs se = None"
    "fs_resolve fs' = fs_resolve fs" "up_destination u = fu_path open" "up_maxBytes u = st_maxBytes store"
    "up_expectedSHA u = fu_sha256 open" "up_digest u = []" "\<not> up_committed u" "\<not> up_closed u"
    "up_hasExpectedSize u \<longleftrightarrow> fu_expected_size open \<noteq> None"
    "\<forall>n. fu_expected_size open = Some n \<longrightarrow> up_expectedSize u = n"
    "fs_resolve fs (up_stage u) = Some se"
proof -
  from assms(1) obtain p i where sa: "stage_attempts env (path_Dir (fu_path open)) 0 8 fs = Ok (p, i, fs')"
    and u: "u = \<lparr>up_file = Some i, up_stage = p, up_destination = fu_path open,
       up_expectedSize = (case fu_expected_size open of None \<Rightarrow> 0 | Some n \<Rightarrow> n),
       up_hasExpectedSize = (fu_expected_size open \<noteq> None),
       up_expectedSHA = fu_sha256 open, up_maxBytes = st_maxBytes store,
       up_digest = [], up_written = 0, up_closed = False, up_committed = False\<rparr>"
    by (auto simp: BeginUpload_def Let_def split: sum.splits if_splits)
  from stage_attempts_Ok [OF sa] obtain j where "root_Create (be_create env j) fs p = Ok (i, fs')" by blast
  then obtain se where se: "fs_resolve fs p = Some se" "fs_names fs se = None" "fs_resolve fs' = fs_resolve fs"
    "fs_names fs' = (fs_names fs)(se \<mapsto> NFile i)" "fs_data fs' i = []" "visible se fs' = visible se fs"
    "\<forall>en. fs_names fs' en = Some (NFile i) \<longrightarrow> en = se"
    using assms(2) by (rule root_Create_Ok)
  have "upload_counts u" by (simp add: upload_counts_def u)
  moreover have "staged se u fs'"
    by (rule stagedI [of _ _ _ i]) (use se(7) in blast | simp add: u se(1,3,4,5))+
  ultimately have "upload_inv se (u, fs')" by (simp add: upload_inv_def)
  then show ?thesis using se(1,2,3,6) by (intro that [of se]) (simp_all add: u)
qed

section \<open>What a commit publishes\<close>

lemma upload_Commit_visible:
  assumes "upload_inv se (u, fs)" "\<not> up_committed u" "upload_Commit sha256 cenv (u, fs) = (e, (u', fs'))"
  shows "(\<not> up_committed u' \<longrightarrow> e \<noteq> None \<and> visible se fs' = visible se fs) \<and>
     (up_committed u' \<longrightarrow>
        up_closed u' \<and>
        (\<exists>d. fs_resolve fs (up_destination u) = Some d \<and> view fs d = None \<and>
           visible se fs' = (visible se fs)(d \<mapsto> VFile (up_digest u))) \<and>
        length (up_digest u) \<le> unat (up_maxBytes u) \<and>
        (up_hasExpectedSize u \<longrightarrow> length (up_digest u) = unat (up_expectedSize u)) \<and>
        (up_expectedSHA u \<noteq> [] \<longrightarrow> hex_encode (sha256 (up_digest u)) = up_expectedSHA u) \<and>
        (e = None \<longrightarrow> view fs' se = None))"
proof -
  from assms(1) have inv: "upload_counts u" "staged se u fs" "fs_resolve fs (up_stage u) = Some se"
    by (simp_all add: upload_inv_def staged_def)
  from assms(3,2) show ?thesis
  proof (cases rule: upload_Commit_cases)
    case closed
    then show ?thesis using assms(2) by simp
  next
    case failed
    obtain x fs2 where "root_Remove (ce_remove cenv) fs (up_stage u) = (x, fs2)" by fastforce
    with failed root_Remove_stage [OF inv(3) this] assms(2) show ?thesis by simp
  next
    case (published fs2 x)
    obtain d where d: "fs_resolve fs (up_destination u) = Some d" "d \<noteq> se" "fs_names fs d = None"
      "fs_resolve fs2 = fs_resolve fs" "visible se fs2 = (visible se fs)(d \<mapsto> VFile (up_digest u))"
      using inv(2) published(1,4) by (rule root_Link_staged)
    have rm: "visible se fs' = visible se fs2" "x = None \<longrightarrow> fs_names fs' se = None"
      using root_Remove_stage [OF _ published(5)] d(4) inv(3) by auto
    have "length (up_digest u) = unat (up_written u)" "up_written u \<le> up_maxBytes u"
      using inv(1) by (simp_all add: upload_counts_def)
    then show ?thesis
      using published(2,3,6,7) d rm by (auto simp: view_def word_le_nat_alt)
  qed
qed

section \<open>Several uploads at once\<close>

text \<open>
  What a step of one upload, with staging entry \<open>se\<close> and file \<open>i\<close>, changes in the tree: its own
  entry, its own file, and at most one new name for that file.
\<close>

definition private_change :: "entry \<Rightarrow> nat \<Rightarrow> fsys \<Rightarrow> fsys \<Rightarrow> bool" where
  "private_change se i fs fs' \<longleftrightarrow>
     fs_resolve fs' = fs_resolve fs \<and>
     (\<forall>en n. en \<noteq> se \<and> fs_names fs en = Some n \<longrightarrow> fs_names fs' en = Some n) \<and>
     (\<forall>j. j \<noteq> i \<longrightarrow> fs_data fs' j = fs_data fs j) \<and>
     (\<forall>en j. fs_names fs' en = Some (NFile j) \<longrightarrow> j = i \<or> fs_names fs en = Some (NFile j)) \<and>
     (fs_ok fs \<longrightarrow> fs_ok fs')"

lemma private_change_refl: "private_change se i fs fs"
  by (simp add: private_change_def)

lemma private_change_trans:
  assumes "private_change se i fs fs1" "private_change se i fs1 fs2"
  shows "private_change se i fs fs2"
  using assms unfolding private_change_def by (metis (no_types, lifting))

lemma private_change_others:
  assumes "private_change se i fs fs'" "staged te v fs" "\<not> up_closed v" "te \<noteq> se" "up_file v \<noteq> Some i"
  shows "staged te v fs'"
proof -
  from assms(2,3) obtain j where j: "fs_resolve fs (up_stage v) = Some te" "up_file v = Some j"
    "fs_names fs te = Some (NFile j)" "fs_data fs j = up_digest v" "\<forall>en. fs_names fs en = Some (NFile j) \<longrightarrow> en = te"
    by (rule stagedE)
  have "j \<noteq> i" using assms(5) j(2) by auto
  show ?thesis
  proof (rule stagedI [of _ _ _ j])
    show "fs_resolve fs' (up_stage v) = Some te" using assms(1) j(1) by (simp add: private_change_def)
    show "fs_names fs' te = Some (NFile j)" using assms(1,4) j(3) unfolding private_change_def by blast
    show "fs_data fs' j = up_digest v" using assms(1) j(4) \<open>j \<noteq> i\<close> by (simp add: private_change_def)
    show "\<forall>en. fs_names fs' en = Some (NFile j) \<longrightarrow> en = te"
      using assms(1) j(5) \<open>j \<noteq> i\<close> unfolding private_change_def by blast
  qed (rule j(2))
qed

lemma private_Remove: "fs_resolve fs p = Some se \<Longrightarrow> private_change se i fs (snd (root_Remove rm fs p))"
  by (auto simp: private_change_def root_Remove_def fs_ok_def split: option.splits if_splits)

lemma private_Append: "private_change se i fs (file_Append i bs fs)"
  by (auto simp: private_change_def file_Append_def fs_ok_def)

lemma private_Link:
  assumes "root_Link l fs p q = Ok fs1" "fs_resolve fs p = Some se" "fs_names fs se = Some (NFile i)"
  shows "private_change se i fs fs1"
  using assms by (auto simp: private_change_def root_Link_def fs_ok_def split: option.splits if_splits)

lemma private_Create:
  "root_Create f fs p = Ok (i, fs') \<Longrightarrow> fs_resolve fs p = Some se \<Longrightarrow> private_change se i fs fs'"
  by (auto simp: private_change_def root_Create_def fs_ok_def Let_def split: option.splits if_splits)
    (metis less_Suc_eq)

lemma private_failLocked:
  "upload_failLocked rm (u, fs) = (u', fs') \<Longrightarrow> fs_resolve fs (up_stage u) = Some se \<Longrightarrow> private_change se i fs fs'"
  using private_Remove [of fs "up_stage u" se i rm] by (auto simp: upload_failLocked_def)

lemma private_Write:
  assumes "upload_Write env data (u, fs) = ((n, e), (u', fs'))" "fs_resolve fs (up_stage u) = Some se" "up_file u = Some i"
  shows "private_change se i fs fs'"
  using assms(1)
proof (cases rule: upload_Write_cases)
  case idle
  then show ?thesis by (simp add: private_change_refl)
next
  case refused
  then show ?thesis using private_failLocked assms(2) by blast
next
  case (stored u1 fs1)
  have f1: "fs1 = file_Append i (take n data) fs" using stored(7) assms(3) by simp
  have a: "private_change se i fs fs1" unfolding f1 by (rule private_Append)
  show ?thesis
  proof (cases e)
    case None
    then show ?thesis using stored(8) a by simp
  next
    case (Some x)
    then have "upload_failLocked (we_remove env) (u1, fs1) = (u', fs')" using stored(8) by simp
    moreover have "fs_resolve fs1 (up_stage u1) = Some se" using assms(2) by (simp add: f1 stored(6) file_Append_def)
    ultimately show ?thesis using private_change_trans [OF a private_failLocked] by blast
  qed
qed

lemma private_Cancel:
  assumes "upload_Cancel env (u, fs) = (e, (u', fs'))" "fs_resolve fs (up_stage u) = Some se"
  shows "private_change se i fs fs'"
  using assms private_Remove [OF assms(2), of i "xe_remove env"]
  by (auto simp: upload_Cancel_def Let_def private_change_refl split: if_splits prod.splits)

lemma private_Commit:
  assumes "upload_Commit sha256 env (u, fs) = (e, (u', fs'))" "staged se u fs" "\<not> up_closed u" "\<not> up_committed u" "up_file u = Some i"
  shows "private_change se i fs fs'"
  using assms(1,4)
proof (cases rule: upload_Commit_cases)
  case closed
  then show ?thesis by (simp add: private_change_refl)
next
  case failed
  then show ?thesis using private_Remove [of fs "up_stage u" se i] assms(2) by (simp add: staged_def)
next
  case (published fs1 r)
  from assms(2,3) obtain j where "fs_resolve fs (up_stage u) = Some se" "up_file u = Some j" "fs_names fs se = Some (NFile j)"
    by (rule stagedE)
  with assms(5) have st: "fs_resolve fs (up_stage u) = Some se" "fs_names fs se = Some (NFile i)" by simp_all
  have l: "private_change se i fs fs1" using published(4) st by (rule private_Link)
  have "fs_resolve fs1 (up_stage u) = Some se" using l st(1) by (simp add: private_change_def)
  from private_Remove [OF this, of i "ce_remove env"] published(5) have "private_change se i fs1 fs'" by simp
  with l show ?thesis by (rule private_change_trans)
qed

lemma BeginUpload_private:
  assumes "BeginUpload store env open fs = Ok (u, fs')" "fs_ok fs"
  obtains se i where "staged se u fs'" "upload_counts u" "up_file u = Some i" "\<not> up_closed u" "up_digest u = []"
    "private_change se i fs fs'" "fs_names fs se = None" "\<forall>en. fs_names fs en \<noteq> Some (NFile i)"
    "fs_resolve fs (up_stage u) = Some se"
proof -
  from assms obtain se where b: "upload_inv se (u, fs')" "fs_names fs se = None" "up_digest u = []" "\<not> up_closed u"
    "fs_resolve fs (up_stage u) = Some se" by (rule BeginUpload_Ok)
  from assms(1) obtain i where sa: "stage_attempts env (path_Dir (fu_path open)) 0 8 fs = Ok (up_stage u, i, fs')"
    and i: "up_file u = Some i"
    by (auto simp: BeginUpload_def Let_def split: sum.splits if_splits)
  from stage_attempts_Ok [OF sa] obtain j where cr: "root_Create (be_create env j) fs (up_stage u) = Ok (i, fs')" by blast
  from private_Create [OF cr b(5)] have pc: "private_change se i fs fs'" .
  have "i = fs_next fs" using cr by (auto simp: root_Create_def Let_def split: option.splits)
  then have fresh: "\<forall>en. fs_names fs en \<noteq> Some (NFile i)" using assms(2) by (auto simp: fs_ok_def)
  show ?thesis
    using b(1) by (intro that [OF _ _ i b(4,3) pc b(2) fresh b(5)]) (simp_all add: upload_inv_def)
qed

section \<open>Reading a download to its end\<close>

fun download_run ::
  "(nat \<times> (nat \<Rightarrow> byte list \<times> io_error option)) list \<Rightarrow> file_download \<Rightarrow> byte list \<times> io_error option \<times> file_download" where
  "download_run [] d = ([], None, d)"
| "download_run ((len, answer) # rs) d =
     (case download_Read answer len d of
        ((bs, Some e), d') \<Rightarrow> (bs, Some e, d')
      | ((bs, None), d') \<Rightarrow> (case download_run rs d' of (bs', e, d2) \<Rightarrow> (bs @ bs', e, d2)))"

lemma unat_sub_of_nat:
  assumes "n \<le> unat (w :: u64)"
  shows "unat (w - of_nat n) = unat w - n"
proof -
  have "unat (of_nat n :: u64) = n" using assms unat_u64_less [of w] by (simp add: unat_of_nat)
  then show ?thesis using assms unat_sub [of "of_nat n" w] by (simp add: word_le_nat_alt)
qed

lemma download_Read_count:
  assumes "download_Read answer len d = ((bs, e), d')"
  shows "length bs + unat (dl_remaining d') = unat (dl_remaining d) \<and> dl_closed d' = dl_closed d \<and>
     (e = Some IoEOF \<longrightarrow> dl_remaining d = 0 \<and> bs = [])"
proof (cases "dl_closed d \<or> dl_remaining d = 0")
  case True
  then show ?thesis using assms by (cases "dl_closed d") (auto simp: download_Read_def)
next
  case False
  obtain got err where g: "answer (min len (unat (dl_remaining d))) = (got, err)" by fastforce
  let ?bs = "take (min len (unat (dl_remaining d))) got"
  have le: "length ?bs \<le> unat (dl_remaining d)" by simp
  have out: "bs = ?bs" "d' = d\<lparr>dl_remaining := dl_remaining d - of_nat (length ?bs)\<rparr>" "e = Some IoEOF \<longrightarrow> False"
    using assms False unfolding download_Read_def by (auto simp: g Let_def word_gt_0 split: if_splits)
  have "unat (dl_remaining d - of_nat (length ?bs)) = unat (dl_remaining d) - length ?bs"
    using unat_sub_of_nat [OF le] .
  with out le False show ?thesis by auto
qed

lemma download_run_count:
  "download_run rs d = (bs, e, d') \<Longrightarrow>
     length bs + unat (dl_remaining d') = unat (dl_remaining d) \<and>
     (e = Some IoEOF \<longrightarrow> length bs = unat (dl_remaining d))"
proof (induction rs arbitrary: d bs e d')
  case (Cons r rs)
  obtain len answer where r: "r = (len, answer)" by fastforce
  obtain b1 e1 d1 where s: "download_Read answer len d = ((b1, e1), d1)" by (metis prod.collapse)
  note c = download_Read_count [OF s]
  show ?case
  proof (cases e1)
    case None
    obtain b2 e2 d2 where t: "download_run rs d1 = (b2, e2, d2)" by (metis prod.collapse)
    have "bs = b1 @ b2" "e = e2" "d' = d2" using Cons.prems by (simp_all add: r s None t)
    with Cons.IH [OF t] c show ?thesis by auto
  next
    case (Some x)
    then show ?thesis using Cons.prems c by (auto simp: r s)
  qed
qed simp

section \<open>Properties\<close>

text \<open>
  Claim C14. What an upload does to the tree that others see.  After any sequence of writes, failed
  or short, cancellations, commits and changes by other processes, a commit either publishes
  or leaves the visible tree as it is and reports an error.  When it publishes, exactly one
  entry appears, under the requested path, which named nothing before: a file with exactly the
  bytes stored by the writes, within the store's limit, of the announced length and with the
  announced digest.  When it also reports success, the staging entry is gone.
\<close>

theorem published_upload_exact:
  assumes "BeginUpload store env open fs0 = Ok (u0, fs1)" and "fs_ok fs0"
    and "fs_resolve fs0 (up_stage u0) = Some se"
    and "upload_reach sha256 se (u0, fs1) bs (u, fs)" and "\<not> up_committed u"
    and "upload_Commit sha256 cenv (u, fs) = (e, (u', fs'))"
  shows "(\<not> up_committed u' \<longrightarrow> e \<noteq> None \<and> visible se fs' = visible se fs) \<and>
     (up_committed u' \<longrightarrow>
        (\<exists>d. fs_resolve fs (fu_path open) = Some d \<and> view fs d = None \<and>
           visible se fs' = (visible se fs)(d \<mapsto> VFile bs)) \<and>
        length bs \<le> unat (st_maxBytes store) \<and>
        (\<forall>n. fu_expected_size open = Some n \<longrightarrow> length bs = unat n) \<and>
        (fu_sha256 open \<noteq> [] \<longrightarrow> hex_encode (sha256 bs) = fu_sha256 open) \<and>
        (e = None \<longrightarrow> view fs' se = None))"
proof -
  from assms(1,2) obtain se0 where b: "upload_inv se0 (u0, fs1)" "up_destination u0 = fu_path open"
    "up_maxBytes u0 = st_maxBytes store" "up_expectedSHA u0 = fu_sha256 open" "up_digest u0 = []"
    "up_hasExpectedSize u0 \<longleftrightarrow> fu_expected_size open \<noteq> None"
    "\<forall>n. fu_expected_size open = Some n \<longrightarrow> up_expectedSize u0 = n" "fs_resolve fs0 (up_stage u0) = Some se0"
    by (elim BeginUpload_Ok) blast
  have "se0 = se" using b(8) assms(3) by simp
  then have r: "upload_inv se (u, fs)" "up_digest u = bs" "same_target u0 u"
    using upload_reach_inv [OF assms(4)] b by auto
  from upload_Commit_visible [OF r(1) assms(5,6)] show ?thesis
    using r(2,3) b(2-7) by (auto simp: same_target_def)
qed



text \<open>One upload of three bytes into an empty tree, and the download of a file of three bytes.\<close>

definition sample_fs :: fsys where
  "sample_fs = \<lparr>fs_resolve = Some, fs_names = Map.empty, fs_data = (\<lambda>_. []), fs_next = 0\<rparr>"

definition sample_upload_open :: file_upload_open where
  "sample_upload_open = \<lparr>fu_path = ''docs/a.txt'', fu_expected_size = Some 3, fu_sha256 = [], fu_existing = FileExistingFail\<rparr>"

definition sample_stage :: string where
  "sample_stage = ''docs'' @ ''/'' @ ''.wedecent-upload-'' @ hex_encode [0] @ ''.tmp''"

definition sample_begin :: begin_env where
  "sample_begin = \<lparr>be_lstat = None, be_parent = (\<lambda>_. Ok True), be_random = (\<lambda>_. Some [0]), be_create = (\<lambda>_. None)\<rparr>"

definition sample_upload :: file_upload where
  "sample_upload = \<lparr>up_file = Some 0, up_stage = sample_stage, up_destination = ''docs/a.txt'', up_expectedSize = 3,
     up_hasExpectedSize = True, up_expectedSHA = [], up_maxBytes = 10, up_digest = [], up_written = 0,
     up_closed = False, up_committed = False\<rparr>"

definition sample_staged :: fsys where
  "sample_staged = sample_fs\<lparr>fs_names := [sample_stage \<mapsto> NFile 0], fs_data := (\<lambda>_. [])(0 := []), fs_next := 1\<rparr>"

lemma sample_begun: "BeginUpload \<lparr>st_maxBytes = 10\<rparr> sample_begin sample_upload_open sample_fs = Ok (sample_upload, sample_staged)"
proof -
  have v: "ValidateFileUploadOpen sample_upload_open = Ok ()"
    by (simp add: ValidateFileUploadOpen_def sample_upload_open_def FileExistingFail_def example_path_valid)
  have n: "uploadStageName (path_Dir ''docs/a.txt'') (Some [0]) = Ok sample_stage"
    by (simp add: uploadStageName_def path_Dir_def Let_def sample_stage_def)
  have c: "root_Create None sample_fs sample_stage = Ok (0, sample_staged)"
    by (simp add: root_Create_def sample_fs_def sample_staged_def)
  have "stage_attempts sample_begin (path_Dir ''docs/a.txt'') 0 8 sample_fs = Ok (sample_stage, 0, sample_staged)"
    by (simp add: numeral_eq_Suc sample_begin_def n c)
  then show ?thesis
    using v
    by (simp add: BeginUpload_def root_Lstat_def sample_begin_def sample_upload_open_def sample_fs_def sample_upload_def)
qed

lemma sample_fs_ok: "fs_ok sample_fs" by (simp add: fs_ok_def sample_fs_def)

lemma sample_stage_resolves: "fs_resolve sample_fs (up_stage sample_upload) = Some sample_stage"
  by (simp add: sample_fs_def sample_upload_def)

definition sample_uploaded :: file_upload where
  "sample_uploaded = sample_upload\<lparr>up_written := 3, up_digest := [7, 8, 9]\<rparr>"

definition sample_written :: fsys where
  "sample_written = file_Append 0 [7, 8, 9] sample_staged"

lemma sample_write:
  "upload_Write \<lparr>we_taken = 3, we_error = None, we_remove = None\<rparr> [7, 8, 9] (sample_upload, sample_staged) =
     ((3, None), (sample_uploaded, sample_written))"
  by (simp add: upload_Write_def sample_upload_def sample_uploaded_def sample_written_def)

lemma sample_reached:
  "upload_reach sha256 sample_stage (sample_upload, sample_staged) [7, 8, 9] (sample_uploaded, sample_written)"
  using upload_reach.wrote [OF upload_reach.begun sample_write] by simp

definition sample_commit :: commit_env where
  "sample_commit = \<lparr>ce_sync = None, ce_close = None, ce_link = None, ce_remove = None\<rparr>"

lemma sample_published:
  "\<exists>u' fs'. upload_Commit sha256 sample_commit (sample_uploaded, sample_written) = (None, (u', fs')) \<and> up_committed u'"
  by (simp add: upload_Commit_def sample_uploaded_def sample_upload_def sample_written_def sample_commit_def
      root_Link_def root_Remove_def sample_staged_def sample_fs_def file_Append_def sample_stage_def)

theorem published_upload_exact_witness:
  "\<exists>u' fs'. upload_Commit (\<lambda>bs. bs) sample_commit (sample_uploaded, sample_written) = (None, (u', fs')) \<and>
     view fs' ''docs/a.txt'' = Some (VFile [7, 8, 9]) \<and> view fs' sample_stage = None"
proof -
  obtain u' fs' where c: "upload_Commit (\<lambda>bs. bs) sample_commit (sample_uploaded, sample_written) = (None, (u', fs'))"
    and p: "up_committed u'" using sample_published by blast
  have nc: "\<not> up_committed sample_uploaded" by (simp add: sample_uploaded_def sample_upload_def)
  have r: "fs_resolve sample_written (fu_path sample_upload_open) = Some ''docs/a.txt''"
    by (simp add: sample_written_def file_Append_def sample_staged_def sample_fs_def sample_upload_open_def)
  from published_upload_exact [OF sample_begun sample_fs_ok sample_stage_resolves sample_reached nc c] p r
  have v: "visible sample_stage fs' = (visible sample_stage sample_written)(''docs/a.txt'' \<mapsto> VFile [7, 8, 9])"
    and s: "view fs' sample_stage = None"
    by auto
  have "visible sample_stage fs' ''docs/a.txt'' = Some (VFile [7, 8, 9])" using v by simp
  then have "view fs' ''docs/a.txt'' = Some (VFile [7, 8, 9])"
    by (simp add: visible_def split: if_splits)
  with c s show ?thesis by blast
qed



end
