(* ===== verification/File_Server.thy ===== *)
theory File_Server
  imports Terminal_Server File_Store
begin

text \<open>
  The agent's file stream engine (\<open>internal/session/typed_file_server.go\<close>) with the operation
  policy (\<open>file_transfer_policy.go\<close>), on top of the store of \<open>File_Store\<close> and the shared stream
  registry of \<open>Stream_Registry\<close>.  As in the terminal engine, children live in a store indexed by
  the stream identifier and the table is the set of identifiers currently mapped.  The log
  records, in order, the authorization decisions, the bytes stored by uploads, the downloads
  opened and the frames sent.
\<close>

section \<open>The operation policy\<close>

type_synonym file_direction = string

definition FileTransferUpload :: file_direction where "FileTransferUpload = ''upload''"
definition FileTransferDownload :: file_direction where "FileTransferDownload = ''download''"

record file_auth_request =
  fa_peer :: string
  fa_direction :: file_direction
  fa_path :: string

datatype policy_error =
    PolCancelled
  | PolPeer
  | PolUpload
  | PolDownload
  | PolPath ts_error
  | PolDirection
  | PolNotConfigured
  | PolOther nat

record static_authorizer =
  au_upload :: bool
  au_download :: bool

definition static_AuthorizeFileTransfer ::
  "static_authorizer \<Rightarrow> bool \<Rightarrow> file_auth_request \<Rightarrow> policy_error option" where
  "static_AuthorizeFileTransfer a cancelled req =
     (if cancelled then Some PolCancelled
      else if blank (fa_peer req) then Some PolPeer
      else if fa_direction req = FileTransferUpload then
        (if \<not> au_upload a then Some PolUpload
         else (case ValidateFileUploadOpen \<lparr>fu_path = fa_path req, fu_expected_size = None, fu_sha256 = [],
                 fu_existing = FileExistingFail\<rparr> of
             Err e \<Rightarrow> Some (PolPath e)
           | Ok _ \<Rightarrow> None))
      else if fa_direction req = FileTransferDownload then
        (if \<not> au_download a then Some PolDownload
         else (case ValidateFileDownloadOpen \<lparr>fd_path = fa_path req\<rparr> of
             Err e \<Rightarrow> Some (PolPath e)
           | Ok _ \<Rightarrow> None))
      else Some PolDirection)"

record file_runtime =
  ft_store :: "file_store option"
  ft_authorizer :: "(file_auth_request \<Rightarrow> policy_error option) option"

definition runtime_Ready :: "file_runtime option \<Rightarrow> bool" where
  "runtime_Ready r = (case r of None \<Rightarrow> False | Some rt \<Rightarrow> ft_store rt \<noteq> None \<and> ft_authorizer rt \<noteq> None)"

definition runtime_Authorize ::
  "file_runtime option \<Rightarrow> string \<Rightarrow> file_direction \<Rightarrow> string \<Rightarrow> policy_error option" where
  "runtime_Authorize r peer direction path =
     (case r of
        None \<Rightarrow> Some PolNotConfigured
      | Some rt \<Rightarrow>
          (case (ft_store rt, ft_authorizer rt) of
             (Some _, Some authorize) \<Rightarrow> authorize \<lparr>fa_peer = peer, fa_direction = direction, fa_path = path\<rparr>
           | _ \<Rightarrow> Some PolNotConfigured))"

section \<open>State\<close>

definition typedFileReceiveWindow :: u32 where "typedFileReceiveWindow = 262144"
definition maxFileStreamsPerConnection :: nat where "maxFileStreamsPerConnection = 4"

record file_child =
  fc_kind :: stream_kind
  fc_upload :: "file_upload option"
  fc_download :: "file_download option"
  fc_send :: typed_stream_credit
  fc_recv :: typed_stream_credit
  fc_remaining :: u64
  fc_done :: bool
  fc_forwarding :: bool

datatype file_effect =
    FlAuthorized u32 file_direction string bool
  | FlStored u32 "byte list"
  | FlDownload u32 u64
  | FlSent out_msg

record file_server =
  fsv_registry :: registry
  fsv_children :: "u32 \<rightharpoonup> file_child"
  fsv_streams :: "u32 set"
  fsv_active :: nat
  fsv_fs :: fsys
  fsv_log :: "file_effect list"

text \<open>The configuration of the engine and the answers of the outside.\<close>

record fsrv_env =
  ev_runtime :: "file_runtime option"
  ev_peer :: string
  ev_send :: "out_msg \<Rightarrow> bool"
  ev_begin :: "u32 \<Rightarrow> begin_env"
  ev_write :: "u32 \<Rightarrow> byte list \<Rightarrow> write_env"
  ev_commit :: "u32 \<Rightarrow> commit_env"
  ev_cancel :: "u32 \<Rightarrow> cancel_env"
  ev_download :: "u32 \<Rightarrow> download_env"
  ev_sha256 :: "byte list \<Rightarrow> byte list"

record file_codec =
  q_open :: "byte list \<Rightarrow> (ts_error, stream_open) result"
  q_upload :: "byte list \<Rightarrow> (ts_error, file_upload_open) result"
  q_download :: "byte list \<Rightarrow> (ts_error, file_download_open) result"
  q_update :: "byte list \<Rightarrow> (ts_error, stream_window_update) result"
  q_close :: "byte list \<Rightarrow> (ts_error, stream_close) result"
  q_error :: "byte list \<Rightarrow> (ts_error, stream_error) result"

type_synonym fsv_result = "srv_error option \<times> file_server"

definition newTypedFileServer :: "registry option \<Rightarrow> fsys \<Rightarrow> file_server" where
  "newTypedFileServer r fs =
     \<lparr>fsv_registry = (case r of None \<Rightarrow> newTypedParentStreamRegistry | Some x \<Rightarrow> x),
      fsv_children = Map.empty, fsv_streams = {}, fsv_active = 0, fsv_fs = fs, fsv_log = []\<rparr>"

definition fsv_note :: "file_effect \<Rightarrow> file_server \<Rightarrow> file_server" where
  "fsv_note e s = s\<lparr>fsv_log := fsv_log s @ [e]\<rparr>"

definition fsv_setChild :: "u32 \<Rightarrow> file_child \<Rightarrow> file_server \<Rightarrow> file_server" where
  "fsv_setChild sid c s = s\<lparr>fsv_children := (fsv_children s)(sid \<mapsto> c)\<rparr>"

section \<open>Writing and closing\<close>

definition fsv_writeFrame :: "fsrv_env \<Rightarrow> out_msg \<Rightarrow> file_server \<Rightarrow> fsv_result" where
  "fsv_writeFrame env m s =
     (if ev_send env m then (None, fsv_note (FlSent m) s) else (Some SrvWriteFailed, s))"

definition fsv_sendStreamError :: "fsrv_env \<Rightarrow> u32 \<Rightarrow> string \<Rightarrow> string \<Rightarrow> file_server \<Rightarrow> fsv_result" where
  "fsv_sendStreamError env sid code message s =
     (case ValidateStreamError sid \<lparr>se_code = code, se_message = message\<rparr> of
        Err e \<Rightarrow> (Some (SrvInvalid e), s)
      | Ok _ \<Rightarrow> fsv_writeFrame env (OutError sid code message) s)"

definition fsv_sendClose :: "fsrv_env \<Rightarrow> u32 \<Rightarrow> string \<Rightarrow> file_server \<Rightarrow> fsv_result" where
  "fsv_sendClose env sid reason s =
     (case ValidateStreamClose sid \<lparr>cl_reason = reason\<rparr> of
        Err e \<Rightarrow> (Some (SrvInvalid e), s)
      | Ok _ \<Rightarrow> fsv_writeFrame env (OutClose sid reason) s)"

definition fsv_registryClose :: "u32 \<Rightarrow> stream_kind \<Rightarrow> file_server \<Rightarrow> file_server" where
  "fsv_registryClose sid kind s =
     (case registry_close (fsv_registry s) sid kind of
        Err _ \<Rightarrow> s
      | Ok r \<Rightarrow> s\<lparr>fsv_registry := r\<rparr>)"

text \<open>\<open>child.closeOnce\<close>: the first close cancels the upload and closes the download.\<close>

definition fsv_closeOnce :: "fsrv_env \<Rightarrow> u32 \<Rightarrow> file_child \<Rightarrow> file_server \<Rightarrow> file_server" where
  "fsv_closeOnce env sid c s =
     (if fc_done c then s
      else
        let (up, fs) = (case fc_upload c of
              None \<Rightarrow> (None, fsv_fs s)
            | Some u \<Rightarrow> (case upload_Cancel (ev_cancel env sid) (u, fsv_fs s) of (_, (u', fs')) \<Rightarrow> (Some u', fs')))
        in fsv_setChild sid (c\<lparr>fc_done := True, fc_upload := up, fc_download := map_option download_Close (fc_download c)\<rparr>)
             (s\<lparr>fsv_fs := fs\<rparr>))"

definition fsv_closeChild :: "fsrv_env \<Rightarrow> u32 \<Rightarrow> file_server \<Rightarrow> file_server" where
  "fsv_closeChild env sid s =
     (if sid \<notin> fsv_streams s then s
      else (case fsv_children s sid of
          None \<Rightarrow> s
        | Some c \<Rightarrow>
            fsv_closeOnce env sid c
              (fsv_registryClose sid (fc_kind c)
                (s\<lparr>fsv_streams := fsv_streams s - {sid},
                   fsv_active := (if 0 < fsv_active s then fsv_active s - 1 else 0)\<rparr>))))"

definition fsv_openChild :: "u32 \<Rightarrow> file_server \<Rightarrow> (srv_error, file_child) result" where
  "fsv_openChild sid s =
     (if sid \<notin> fsv_streams s then Err (ProtoNotOpen sid)
      else (case fsv_children s sid of
          None \<Rightarrow> Err (ProtoNotOpen sid)
        | Some c \<Rightarrow> if registry_isOpen (fsv_registry s) sid (fc_kind c) then Ok c else Err (ProtoNotOpen sid)))"

section \<open>Opening a stream\<close>

datatype reserve_outcome =
    Reserved
  | RejectionSent
  | ReserveFailed srv_error

definition fsv_reserve :: "fsrv_env \<Rightarrow> u32 \<Rightarrow> stream_kind \<Rightarrow> file_server \<Rightarrow> reserve_outcome \<times> file_server" where
  "fsv_reserve env sid kind s =
     (case registry_reserve (fsv_registry s) sid kind of
        Err e \<Rightarrow> (ReserveFailed (ProtoRegistry e), s)
      | Ok r \<Rightarrow>
          let s1 = s\<lparr>fsv_registry := r\<rparr> in
          if maxFileStreamsPerConnection \<le> fsv_active s1
          then (case fsv_sendStreamError env sid ''resource_limit'' ''file stream limit reached''
                    (fsv_registryClose sid kind s1) of
                  (Some e, s2) \<Rightarrow> (ReserveFailed e, s2)
                | (None, s2) \<Rightarrow> (RejectionSent, s2))
          else (Reserved, s1\<lparr>fsv_active := fsv_active s1 + 1\<rparr>))"

definition fsv_releaseReservation :: "u32 \<Rightarrow> stream_kind \<Rightarrow> file_server \<Rightarrow> file_server" where
  "fsv_releaseReservation sid kind s =
     (let s1 = fsv_registryClose sid kind s
      in s1\<lparr>fsv_active := (if 0 < fsv_active s1 then fsv_active s1 - 1 else 0)\<rparr>)"

definition fsv_authorize :: "fsrv_env \<Rightarrow> u32 \<Rightarrow> file_direction \<Rightarrow> string \<Rightarrow> file_server \<Rightarrow> bool \<times> file_server" where
  "fsv_authorize env sid direction path s =
     (let ok = runtime_Ready (ev_runtime env) \<and>
            runtime_Authorize (ev_runtime env) (ev_peer env) direction path = None
      in (ok, fsv_note (FlAuthorized sid direction path ok) s))"

definition fsv_activate :: "u32 \<Rightarrow> file_child \<Rightarrow> file_server \<Rightarrow> srv_error option \<times> file_server" where
  "fsv_activate sid c s =
     (let s1 = (fsv_setChild sid c s)\<lparr>fsv_streams := insert sid (fsv_streams s)\<rparr> in
      case registry_accept (fsv_registry s1) sid (fc_kind c) of
        Err e \<Rightarrow> (Some (SrvRegistry e), s1\<lparr>fsv_streams := fsv_streams s1 - {sid}, fsv_children := (fsv_children s1)(sid := None)\<rparr>)
      | Ok r \<Rightarrow> (None, s1\<lparr>fsv_registry := r\<rparr>))"

definition fsv_store :: "fsrv_env \<Rightarrow> file_store" where
  "fsv_store env =
     (case ev_runtime env of
        Some rt \<Rightarrow> (case ft_store rt of Some st \<Rightarrow> st | None \<Rightarrow> \<lparr>st_maxBytes = 0\<rparr>)
      | None \<Rightarrow> \<lparr>st_maxBytes = 0\<rparr>)"

definition fsv_cancelUpload :: "fsrv_env \<Rightarrow> u32 \<Rightarrow> file_upload \<Rightarrow> file_server \<Rightarrow> file_server" where
  "fsv_cancelUpload env sid u s =
     s\<lparr>fsv_fs := snd (snd (upload_Cancel (ev_cancel env sid) (u, fsv_fs s)))\<rparr>"

definition fsv_openUpload :: "fsrv_env \<Rightarrow> u32 \<Rightarrow> file_upload_open \<Rightarrow> file_server \<Rightarrow> fsv_result" where
  "fsv_openUpload env sid metadata s =
     (case fsv_reserve env sid StreamKindFileUpload s of
        (RejectionSent, s1) \<Rightarrow> (None, s1)
      | (ReserveFailed e, s1) \<Rightarrow> (Some e, s1)
      | (Reserved, s1) \<Rightarrow>
          (case fsv_authorize env sid FileTransferUpload (fu_path metadata) s1 of
             (False, s2) \<Rightarrow>
               fsv_sendStreamError env sid ''authorization_denied'' ''file upload is not authorized''
                 (fsv_releaseReservation sid StreamKindFileUpload s2)
           | (True, s2) \<Rightarrow>
               (case BeginUpload (fsv_store env) (ev_begin env sid) metadata (fsv_fs s2) of
                  Err _ \<Rightarrow>
                    fsv_sendStreamError env sid ''file_open_failed'' ''file upload could not start''
                      (fsv_releaseReservation sid StreamKindFileUpload s2)
                | Ok (u, fs) \<Rightarrow>
                    let s3 = s2\<lparr>fsv_fs := fs\<rparr> in
                    (case newTypedStreamCredit typedFileReceiveWindow of
                       Err e \<Rightarrow>
                         (Some (SrvCredit e),
                          fsv_releaseReservation sid StreamKindFileUpload (fsv_cancelUpload env sid u s3))
                     | Ok rc \<Rightarrow>
                         (case fsv_activate sid
                             \<lparr>fc_kind = StreamKindFileUpload, fc_upload = Some u, fc_download = None,
                              fc_send = \<lparr>cr_remaining = 0\<rparr>, fc_recv = rc, fc_remaining = 0, fc_done = False,
                              fc_forwarding = False\<rparr> s3 of
                            (Some e, s4) \<Rightarrow>
                              (Some e,
                               fsv_releaseReservation sid StreamKindFileUpload (fsv_cancelUpload env sid u s4))
                          | (None, s4) \<Rightarrow>
                              (case fsv_writeFrame env (OutAccepted sid typedFileReceiveWindow) s4 of
                                 (Some e, s5) \<Rightarrow> (Some e, fsv_closeChild env sid s5)
                               | (None, s5) \<Rightarrow> (None, s5)))))))"

definition fsv_openDownload ::
  "fsrv_env \<Rightarrow> u32 \<Rightarrow> stream_open \<Rightarrow> file_download_open \<Rightarrow> file_server \<Rightarrow> fsv_result" where
  "fsv_openDownload env sid envelope metadata s =
     (case fsv_reserve env sid StreamKindFileDownload s of
        (RejectionSent, s1) \<Rightarrow> (None, s1)
      | (ReserveFailed e, s1) \<Rightarrow> (Some e, s1)
      | (Reserved, s1) \<Rightarrow>
          (case fsv_authorize env sid FileTransferDownload (fd_path metadata) s1 of
             (False, s2) \<Rightarrow>
               fsv_sendStreamError env sid ''authorization_denied'' ''file download is not authorized''
                 (fsv_releaseReservation sid StreamKindFileDownload s2)
           | (True, s2) \<Rightarrow>
               (case OpenDownload (fsv_store env) (ev_download env sid) (\<lambda>_. Err 0) metadata (fsv_fs s2) (fsv_fs s2) of
                  Err _ \<Rightarrow>
                    fsv_sendStreamError env sid ''file_open_failed'' ''file download could not start''
                      (fsv_releaseReservation sid StreamKindFileDownload s2)
                | Ok (d, sz, _) \<Rightarrow>
                    (case newTypedStreamCredit (so_window envelope) of
                       Err e \<Rightarrow> (Some (SrvCredit e), fsv_releaseReservation sid StreamKindFileDownload s2)
                     | Ok sc \<Rightarrow>
                         (case fsv_activate sid
                             \<lparr>fc_kind = StreamKindFileDownload, fc_upload = None, fc_download = Some d,
                              fc_send = sc, fc_recv = \<lparr>cr_remaining = 0\<rparr>, fc_remaining = sz, fc_done = False,
                              fc_forwarding = False\<rparr> s2 of
                            (Some e, s3) \<Rightarrow> (Some e, fsv_releaseReservation sid StreamKindFileDownload s3)
                          | (None, s3) \<Rightarrow>
                              (case fsv_writeFrame env (OutAccepted sid 1) s3 of
                                 (Some e, s4) \<Rightarrow> (Some e, fsv_closeChild env sid s4)
                               | (None, s4) \<Rightarrow>
                                   (None,
                                    (case fsv_children s4 sid of
                                       None \<Rightarrow> s4
                                     | Some c \<Rightarrow>
                                         fsv_note (FlDownload sid sz)
                                           (fsv_setChild sid (c\<lparr>fc_forwarding := True\<rparr>) s4)))))))))"

definition fsv_open :: "fsrv_env \<Rightarrow> file_codec \<Rightarrow> frame \<Rightarrow> file_server \<Rightarrow> fsv_result" where
  "fsv_open env cd f s =
     (case q_open cd (f_payload f) of
        Err _ \<Rightarrow> (Some ProtoMalformed, s)
      | Ok envelope \<Rightarrow>
          if so_kind envelope = StreamKindFileUpload then
            (case ParseFileUploadStreamOpen (q_upload cd) (f_stream f) envelope of
               Err e \<Rightarrow> (Some (ProtoInvalid e), s)
             | Ok metadata \<Rightarrow> fsv_openUpload env (f_stream f) metadata s)
          else if so_kind envelope = StreamKindFileDownload then
            (case ParseFileDownloadStreamOpen (q_download cd) (f_stream f) envelope of
               Err e \<Rightarrow> (Some (ProtoInvalid e), s)
             | Ok metadata \<Rightarrow> fsv_openDownload env (f_stream f) envelope metadata s)
          else (Some ProtoStreamKind, s))"

section \<open>Frames of an open stream\<close>

definition fsv_data :: "fsrv_env \<Rightarrow> frame \<Rightarrow> file_server \<Rightarrow> fsv_result" where
  "fsv_data env f s =
     (let sid = f_stream f; payload = f_payload f in
      case ValidateStreamData sid payload of
        Err e \<Rightarrow> (Some (ProtoInvalid e), s)
      | Ok _ \<Rightarrow>
          (case fsv_openChild sid s of
             Err e \<Rightarrow> (Some e, s)
           | Ok child \<Rightarrow>
               (case (fc_kind child = StreamKindFileUpload, fc_upload child) of
                  (True, Some u) \<Rightarrow>
                    (case credit_consume (fc_recv child) (of_nat (length payload)) of
                       Err e \<Rightarrow> (Some (ProtoCredit e), s)
                     | Ok rc \<Rightarrow>
                         (case upload_Write (ev_write env sid payload) payload (u, fsv_fs s) of
                            ((n, err), (u', fs')) \<Rightarrow>
                              let s1 = fsv_note (FlStored sid (take n payload))
                                    (fsv_setChild sid (child\<lparr>fc_recv := rc, fc_upload := Some u'\<rparr>) (s\<lparr>fsv_fs := fs'\<rparr>))
                              in
                                if err \<noteq> None \<or> n \<noteq> length payload
                                then fsv_sendStreamError env sid ''upload_write_failed'' ''file upload failed''
                                       (fsv_closeChild env sid s1)
                                else
                                  (case fsv_writeFrame env (OutWindowUpdate sid (of_nat n)) s1 of
                                     (Some e, s2) \<Rightarrow> (Some e, fsv_closeChild env sid s2)
                                   | (None, s2) \<Rightarrow>
                                       (case credit_add rc (of_nat n) of
                                          Err e \<Rightarrow> (Some (SrvCredit e), fsv_closeChild env sid s2)
                                        | Ok rc2 \<Rightarrow>
                                            (None, fsv_setChild sid (child\<lparr>fc_recv := rc2, fc_upload := Some u'\<rparr>) s2)))))
                | _ \<Rightarrow> (Some ProtoStreamKind, s))))"

definition fsv_windowUpdate :: "file_codec \<Rightarrow> frame \<Rightarrow> file_server \<Rightarrow> fsv_result" where
  "fsv_windowUpdate cd f s =
     (case q_update cd (f_payload f) of
        Err _ \<Rightarrow> (Some ProtoMalformed, s)
      | Ok update \<Rightarrow>
          (case ValidateStreamWindowUpdate (f_stream f) update of
             Err e \<Rightarrow> (Some (ProtoInvalid e), s)
           | Ok _ \<Rightarrow>
               (case fsv_openChild (f_stream f) s of
                  Err e \<Rightarrow> (Some e, s)
                | Ok child \<Rightarrow>
                    if fc_kind child \<noteq> StreamKindFileDownload \<or> fc_download child = None
                    then (Some ProtoStreamKind, s)
                    else (case credit_add (fc_send child) (wu_bytes update) of
                        Err e \<Rightarrow> (Some (ProtoCredit e), s)
                      | Ok sc \<Rightarrow> (None, fsv_setChild (f_stream f) (child\<lparr>fc_send := sc\<rparr>) s)))))"

definition fsv_peerClose :: "fsrv_env \<Rightarrow> file_codec \<Rightarrow> frame \<Rightarrow> file_server \<Rightarrow> fsv_result" where
  "fsv_peerClose env cd f s =
     (let sid = f_stream f in
      case q_close cd (f_payload f) of
        Err _ \<Rightarrow> (Some ProtoMalformed, s)
      | Ok cm \<Rightarrow>
          (case ValidateStreamClose sid cm of
             Err e \<Rightarrow> (Some (ProtoInvalid e), s)
           | Ok _ \<Rightarrow>
               (case fsv_openChild sid s of
                  Err e \<Rightarrow> (Some e, s)
                | Ok child \<Rightarrow>
                    (case (fc_kind child = StreamKindFileUpload, fc_upload child) of
                       (True, Some u) \<Rightarrow>
                         (case upload_Commit (ev_sha256 env) (ev_commit env sid) (u, fsv_fs s) of
                            (err, (u', fs')) \<Rightarrow>
                              let s1 = fsv_closeChild env sid
                                    (fsv_setChild sid (child\<lparr>fc_upload := Some u'\<rparr>) (s\<lparr>fsv_fs := fs'\<rparr>))
                              in
                                if err \<noteq> None
                                then fsv_sendStreamError env sid ''upload_commit_failed''
                                       ''file upload validation or commit failed'' s1
                                else fsv_sendClose env sid ''peer_close'' s1)
                     | _ \<Rightarrow>
                         if fc_kind child \<noteq> StreamKindFileDownload then (Some ProtoStreamKind, s)
                         else
                           let s1 = fsv_closeChild env sid s in
                           if fc_remaining child = 0 then (None, s1)
                           else fsv_sendClose env sid ''peer_close'' s1))))"

definition fsv_peerError :: "fsrv_env \<Rightarrow> file_codec \<Rightarrow> frame \<Rightarrow> file_server \<Rightarrow> fsv_result" where
  "fsv_peerError env cd f s =
     (case q_error cd (f_payload f) of
        Err _ \<Rightarrow> (Some ProtoMalformed, s)
      | Ok se \<Rightarrow>
          (case ValidateStreamError (f_stream f) se of
             Err e \<Rightarrow> (Some (ProtoInvalid e), s)
           | Ok _ \<Rightarrow>
               (case fsv_openChild (f_stream f) s of
                  Err e \<Rightarrow> (Some e, s)
                | Ok _ \<Rightarrow> fsv_sendClose env (f_stream f) ''peer_close'' (fsv_closeChild env (f_stream f) s))))"

definition fsv_Handle :: "fsrv_env \<Rightarrow> file_codec \<Rightarrow> frame \<Rightarrow> file_server \<Rightarrow> fsv_result" where
  "fsv_Handle env cd f s =
     (if f_type f = TypeStreamOpen then fsv_open env cd f s
      else if f_type f = TypeStreamData then fsv_data env f s
      else if f_type f = TypeStreamWindowUpdate then fsv_windowUpdate cd f s
      else if f_type f = TypeStreamClose then fsv_peerClose env cd f s
      else if f_type f = TypeStreamError then fsv_peerError env cd f s
      else (Some (ProtoFrameType (f_type f)), s))"

section \<open>Sending a download\<close>

text \<open>
  One pass of the loop of \<open>forwardDownload\<close>.  A pass without credit waits: it leaves the
  state alone, unless the child has been closed.  \<open>answer\<close> is what the file returns to the
  pass's read.  Setting \<open>fc_forwarding\<close> to false is the return of the goroutine.
\<close>

definition fsv_stopForward :: "u32 \<Rightarrow> file_server \<Rightarrow> file_server" where
  "fsv_stopForward sid s =
     (case fsv_children s sid of
        None \<Rightarrow> s
      | Some c \<Rightarrow> fsv_setChild sid (c\<lparr>fc_forwarding := False\<rparr>) s)"

definition fsv_finishDownload :: "fsrv_env \<Rightarrow> u32 \<Rightarrow> file_server \<Rightarrow> file_server" where
  "fsv_finishDownload env sid s =
     fsv_stopForward sid
       (case fsv_sendClose env sid ''download_complete'' s of
          (Some _, s1) \<Rightarrow> fsv_closeChild env sid s1
        | (None, s1) \<Rightarrow> s1)"

definition fsv_abortDownload :: "fsrv_env \<Rightarrow> u32 \<Rightarrow> file_server \<Rightarrow> file_server" where
  "fsv_abortDownload env sid s = fsv_stopForward sid (fsv_closeChild env sid s)"

definition forward_limit :: "u32 \<Rightarrow> u64 \<Rightarrow> nat" where
  "forward_limit available remaining = min (min (unat available) (unat remaining)) MaxTypedStreamChunk"

definition fsv_forwardDownload ::
  "fsrv_env \<Rightarrow> u32 \<Rightarrow> (nat \<Rightarrow> byte list \<times> io_error option) \<Rightarrow> file_server \<Rightarrow> file_server" where
  "fsv_forwardDownload env sid answer s =
     (case fsv_children s sid of
        None \<Rightarrow> s
      | Some c \<Rightarrow>
          (case (fc_forwarding c, fc_download c) of
             (True, Some d) \<Rightarrow>
               if fc_remaining c = 0 then fsv_finishDownload env sid s
               else if credit_available (fc_send c) = 0 then (if fc_done c then fsv_stopForward sid s else s)
               else
                 (case download_Read answer (forward_limit (credit_available (fc_send c)) (fc_remaining c)) d of
                    ((bs, err), d') \<Rightarrow>
                      let s1 = fsv_setChild sid (c\<lparr>fc_download := Some d'\<rparr>) s in
                      if fc_done c then fsv_stopForward sid s1
                      else if bs = [] then
                        (case err of
                           None \<Rightarrow> s1
                         | Some IoEOF \<Rightarrow> fsv_finishDownload env sid s1
                         | Some _ \<Rightarrow>
                             fsv_stopForward sid
                               (snd (fsv_sendStreamError env sid ''download_read_failed'' ''file download failed''
                                  (fsv_closeChild env sid s1))))
                      else
                        let remaining = (if length bs \<le> unat (fc_remaining c)
                              then fc_remaining c - of_nat (length bs) else fc_remaining c)
                        in
                        (case credit_consume (fc_send c) (of_nat (length bs)) of
                           Err _ \<Rightarrow>
                             fsv_abortDownload env sid
                               (fsv_setChild sid (c\<lparr>fc_download := Some d', fc_remaining := remaining\<rparr>) s)
                         | Ok sc \<Rightarrow>
                             (case fsv_writeFrame env (OutData sid bs)
                                 (fsv_setChild sid (c\<lparr>fc_download := Some d', fc_remaining := remaining, fc_send := sc\<rparr>) s) of
                                (Some _, s2) \<Rightarrow> fsv_abortDownload env sid s2
                              | (None, s2) \<Rightarrow>
                                  (case err of
                                     None \<Rightarrow> if remaining = 0 then fsv_finishDownload env sid s2 else s2
                                   | Some IoEOF \<Rightarrow> fsv_finishDownload env sid s2
                                   | Some _ \<Rightarrow>
                                       fsv_stopForward sid
                                         (snd (fsv_sendStreamError env sid ''download_read_failed''
                                            ''file download failed'' (fsv_closeChild env sid s2)))))))
           | _ \<Rightarrow> s))"

definition fsv_CloseAll :: "fsrv_env \<Rightarrow> file_server \<Rightarrow> file_server" where
  "fsv_CloseAll env s = fold (fsv_closeChild env) (sorted_list_of_set (fsv_streams s)) s"

section \<open>The invariant\<close>

definition upload_of :: "file_server \<Rightarrow> u32 \<Rightarrow> file_upload option" where
  "upload_of s sid = (case fsv_children s sid of None \<Rightarrow> None | Some c \<Rightarrow> fc_upload c)"

fun stored :: "u32 \<Rightarrow> file_effect list \<Rightarrow> byte list" where
  "stored sid [] = []"
| "stored sid (FlStored t bs # es) = (if t = sid then bs @ stored sid es else stored sid es)"
| "stored sid (e # es) = stored sid es"

lemma stored_append [simp]: "stored sid (xs @ ys) = stored sid xs @ stored sid ys"
  by (induction sid xs rule: stored.induct) auto

text \<open>The table and the shared registry agree, and every child outside the table is closed.\<close>

definition table_ok :: "file_server \<Rightarrow> bool" where
  "table_ok s \<longleftrightarrow>
     registry_inv (fsv_registry s) \<and> finite (fsv_streams s) \<and> fsv_active s = card (fsv_streams s) \<and>
     fsv_active s \<le> maxFileStreamsPerConnection \<and>
     (\<forall>sid \<in> fsv_streams s. \<exists>c. fsv_children s sid = Some c \<and> \<not> fc_done c \<and>
        fc_kind c \<in> {StreamKindFileUpload, StreamKindFileDownload} \<and>
        fsv_registry s sid = Some \<lparr>sr_kind = fc_kind c, sr_state = StreamOpen\<rparr>) \<and>
     (\<forall>sid c. fsv_children s sid = Some c \<and> sid \<notin> fsv_streams s \<longrightarrow>
        fc_done c \<and> (\<forall>u. fc_upload c = Some u \<longrightarrow> up_closed u)) \<and>
     live_streams (fsv_registry s) StreamKindFileUpload \<union> live_streams (fsv_registry s) StreamKindFileDownload
       \<subseteq> fsv_streams s \<and>
     (\<forall>sid. fsv_registry s sid = None \<longrightarrow> fsv_children s sid = None)"

text \<open>
  Every upload's file holds exactly the bytes logged for its stream, open uploads own
  different staging entries, and a stream without a child has stored nothing.
\<close>

definition uploads_ok :: "file_server \<Rightarrow> bool" where
  "uploads_ok s \<longleftrightarrow>
     fs_ok (fsv_fs s) \<and>
     (\<forall>sid u. upload_of s sid = Some u \<longrightarrow>
        upload_counts u \<and> up_digest u = stored sid (fsv_log s) \<and>
        (\<not> up_closed u \<longrightarrow> (\<exists>se. staged se u (fsv_fs s)))) \<and>
     (\<forall>a b u v. a \<noteq> b \<and> upload_of s a = Some u \<and> upload_of s b = Some v \<and> \<not> up_closed u \<and> \<not> up_closed v \<longrightarrow>
        fs_resolve (fsv_fs s) (up_stage u) \<noteq> fs_resolve (fsv_fs s) (up_stage v)) \<and>
     (\<forall>sid. fsv_children s sid = None \<longrightarrow> stored sid (fsv_log s) = [])"

definition fsv_inv :: "file_server \<Rightarrow> bool" where
  "fsv_inv s \<longleftrightarrow> table_ok s \<and> uploads_ok s"

lemma uploads_okD:
  assumes "uploads_ok s"
  shows "fs_ok (fsv_fs s)"
    and "upload_of s sid = Some u \<Longrightarrow> upload_counts u"
    and "upload_of s sid = Some u \<Longrightarrow> up_digest u = stored sid (fsv_log s)"
    and "upload_of s sid = Some u \<Longrightarrow> \<not> up_closed u \<Longrightarrow> \<exists>se. staged se u (fsv_fs s)"
    and "a \<noteq> b \<Longrightarrow> upload_of s a = Some u1 \<Longrightarrow> upload_of s b = Some u2 \<Longrightarrow> \<not> up_closed u1 \<Longrightarrow> \<not> up_closed u2 \<Longrightarrow>
      fs_resolve (fsv_fs s) (up_stage u1) \<noteq> fs_resolve (fsv_fs s) (up_stage u2)"
    and "fsv_children s sid = None \<Longrightarrow> stored sid (fsv_log s) = []"
  using assms unfolding uploads_ok_def by blast+

lemma staged_files_differ:
  assumes "staged se u fs" "staged te v fs" "\<not> up_closed u" "\<not> up_closed v"
    and "fs_resolve fs (up_stage u) \<noteq> fs_resolve fs (up_stage v)"
  shows "te \<noteq> se \<and> up_file v \<noteq> up_file u"
proof -
  from assms(1,3) obtain i where i: "fs_resolve fs (up_stage u) = Some se" "up_file u = Some i"
    "\<forall>en. fs_names fs en = Some (NFile i) \<longrightarrow> en = se" by (rule stagedE)
  from assms(2,4) obtain j where j: "fs_resolve fs (up_stage v) = Some te" "up_file v = Some j"
    "fs_names fs te = Some (NFile j)" by (rule stagedE)
  have "te \<noteq> se" using assms(5) i(1) j(1) by auto
  moreover have "i \<noteq> j" using i(3) j(3) calculation by blast
  ultimately show ?thesis using i(2) j(2) by simp
qed

text \<open>One upload takes a step that changes only what is its own; all others keep their files.\<close>

lemma uploads_ok_update:
  assumes ok: "uploads_ok s" and u: "upload_of s sid = Some u"
    and u': "upload_counts u'" "up_digest u' = stored sid (fsv_log s')" "up_stage u' = up_stage u"
    and opn: "\<And>se i. \<not> up_closed u \<Longrightarrow> staged se u (fsv_fs s) \<Longrightarrow> up_file u = Some i \<Longrightarrow>
      private_change se i (fsv_fs s) (fsv_fs s') \<and> (\<not> up_closed u' \<longrightarrow> staged se u' (fsv_fs s'))"
    and cls: "up_closed u \<Longrightarrow> up_closed u' \<and> fsv_fs s' = fsv_fs s"
    and up: "upload_of s' = (upload_of s)(sid \<mapsto> u')"
    and log: "\<And>t. t \<noteq> sid \<Longrightarrow> stored t (fsv_log s') = stored t (fsv_log s)"
    and ch: "\<And>t. fsv_children s' t = None \<longleftrightarrow> fsv_children s t = None"
  shows "uploads_ok s'"
proof -
  have res: "fs_ok (fsv_fs s') \<and> fs_resolve (fsv_fs s') = fs_resolve (fsv_fs s) \<and>
      (\<forall>t v. t \<noteq> sid \<and> upload_of s t = Some v \<and> \<not> up_closed v \<longrightarrow> (\<exists>te. staged te v (fsv_fs s'))) \<and>
      (\<not> up_closed u' \<longrightarrow> \<not> up_closed u \<and> (\<exists>se. staged se u' (fsv_fs s')))"
  proof (cases "up_closed u")
    case True
    have "\<forall>t v. t \<noteq> sid \<and> upload_of s t = Some v \<and> \<not> up_closed v \<longrightarrow> (\<exists>te. staged te v (fsv_fs s))"
      using uploads_okD(4) [OF ok] by blast
    with cls [OF True] uploads_okD(1) [OF ok] show ?thesis by simp
  next
    case False
    with uploads_okD(4) [OF ok u] obtain se where se: "staged se u (fsv_fs s)" by blast
    from se False obtain i where i: "up_file u = Some i" by (rule stagedE)
    from opn [OF False se i] have pc: "private_change se i (fsv_fs s) (fsv_fs s')"
      and st: "\<not> up_closed u' \<longrightarrow> staged se u' (fsv_fs s')" by auto
    have "\<exists>te. staged te v (fsv_fs s')" if t: "t \<noteq> sid" "upload_of s t = Some v" "\<not> up_closed v" for t v
    proof -
      obtain te where te: "staged te v (fsv_fs s)" using uploads_okD(4) [OF ok t(2,3)] by blast
      have "fs_resolve (fsv_fs s) (up_stage u) \<noteq> fs_resolve (fsv_fs s) (up_stage v)"
        using uploads_okD(5) [OF ok _ u t(2) False t(3)] t(1) by blast
      from staged_files_differ [OF se te False t(3) this] i
      have "staged te v (fsv_fs s')" by (intro private_change_others [OF pc te t(3)]) auto
      then show ?thesis ..
    qed
    with pc st False uploads_okD(1) [OF ok] show ?thesis unfolding private_change_def by blast
  qed
  have other: "upload_of s' t = upload_of s t" if "t \<noteq> sid" for t using that by (simp add: up)
  have self: "upload_of s' sid = Some u'" by (simp add: up)
  show ?thesis
    unfolding uploads_ok_def
  proof (intro conjI allI impI)
    show "fs_ok (fsv_fs s')" using res by blast
  next
    fix t v assume v: "upload_of s' t = Some v"
    show "upload_counts v" using v self other u' uploads_okD(2) [OF ok] by (cases "t = sid") auto
    show "up_digest v = stored t (fsv_log s')"
      using v self other u' uploads_okD(3) [OF ok] log by (cases "t = sid") auto
    show "\<exists>se. staged se v (fsv_fs s')" if "\<not> up_closed v"
      using v self other that res by (cases "t = sid") auto
  next
    fix a b v w
    assume "a \<noteq> b \<and> upload_of s' a = Some v \<and> upload_of s' b = Some w \<and> \<not> up_closed v \<and> \<not> up_closed w"
    moreover have "fs_resolve (fsv_fs s') (up_stage u') \<noteq> fs_resolve (fsv_fs s') (up_stage x)"
      if "t \<noteq> sid" "upload_of s t = Some x" "\<not> up_closed x" "\<not> up_closed u'" for t x
      using that res uploads_okD(5) [OF ok _ u that(2)] u'(3) by auto
    moreover have "fs_resolve (fsv_fs s') (up_stage x) \<noteq> fs_resolve (fsv_fs s') (up_stage y)"
      if "t \<noteq> r" "upload_of s t = Some x" "upload_of s r = Some y" "\<not> up_closed x" "\<not> up_closed y" for t r x y
      using that res uploads_okD(5) [OF ok that(1,2,3)] by auto
    ultimately show "fs_resolve (fsv_fs s') (up_stage v) \<noteq> fs_resolve (fsv_fs s') (up_stage w)"
      using self other by (metis option.inject)
  next
    fix t assume "fsv_children s' t = None"
    then have n: "fsv_children s t = None" using ch by simp
    then have "t \<noteq> sid" using u by (auto simp: upload_of_def)
    then show "stored t (fsv_log s') = []" using log uploads_okD(6) [OF ok n] by simp
  qed
qed

section \<open>Keeping the table\<close>

lemma table_okD:
  assumes "table_ok s"
  shows "registry_inv (fsv_registry s)" "finite (fsv_streams s)" "fsv_active s = card (fsv_streams s)"
    "fsv_active s \<le> maxFileStreamsPerConnection"
    and "sid \<in> fsv_streams s \<Longrightarrow> \<exists>c. fsv_children s sid = Some c \<and> \<not> fc_done c \<and>
        fc_kind c \<in> {StreamKindFileUpload, StreamKindFileDownload} \<and>
        fsv_registry s sid = Some \<lparr>sr_kind = fc_kind c, sr_state = StreamOpen\<rparr>"
    and "fsv_children s sid = Some c \<Longrightarrow> sid \<notin> fsv_streams s \<Longrightarrow> fc_done c"
    and "fsv_children s sid = Some c \<Longrightarrow> sid \<notin> fsv_streams s \<Longrightarrow> fc_upload c = Some u \<Longrightarrow> up_closed u"
    and "live_streams (fsv_registry s) StreamKindFileUpload \<union> live_streams (fsv_registry s) StreamKindFileDownload
       \<subseteq> fsv_streams s"
    and "fsv_registry s sid = None \<Longrightarrow> fsv_children s sid = None"
  using assms unfolding table_ok_def by blast+

lemma table_ok_cong:
  "fsv_registry s' = fsv_registry s \<Longrightarrow> fsv_streams s' = fsv_streams s \<Longrightarrow> fsv_active s' = fsv_active s \<Longrightarrow>
   fsv_children s' = fsv_children s \<Longrightarrow> table_ok s' \<longleftrightarrow> table_ok s"
  by (simp add: table_ok_def)

lemma uploads_ok_cong:
  "fsv_children s' = fsv_children s \<Longrightarrow> fsv_fs s' = fsv_fs s \<Longrightarrow> (\<And>t. stored t (fsv_log s') = stored t (fsv_log s)) \<Longrightarrow>
   uploads_ok s' \<longleftrightarrow> uploads_ok s"
  by (simp add: uploads_ok_def upload_of_def)

lemma file_kinds_distinct [simp]: "StreamKindFileUpload \<noteq> StreamKindFileDownload"
  by (simp add: StreamKindFileUpload_def StreamKindFileDownload_def)

lemma live_streams_upd:
  "live_streams (r(sid \<mapsto> rec)) k =
     (if sr_kind rec = k \<and> sr_state rec \<noteq> StreamClosed then insert sid (live_streams r k) else live_streams r k - {sid})"
  by (auto simp: live_streams_def)

lemma table_set:
  assumes ok: "table_ok s" and sid: "sid \<in> fsv_streams s" "fsv_children s sid = Some c"
    and c': "fc_kind c' = fc_kind c" "\<not> fc_done c'"
    and s': "fsv_registry s' = fsv_registry s" "fsv_streams s' = fsv_streams s" "fsv_active s' = fsv_active s"
      "fsv_children s' = (fsv_children s)(sid \<mapsto> c')"
  shows "table_ok s'"
  unfolding table_ok_def s'
proof (intro conjI ballI allI impI)
  fix t assume t: "t \<in> fsv_streams s"
  from table_okD(5) [OF ok t] table_okD(5) [OF ok sid(1)] sid(2) c'
  show "\<exists>ca. ((fsv_children s)(sid \<mapsto> c')) t = Some ca \<and> \<not> fc_done ca \<and>
      fc_kind ca \<in> {StreamKindFileUpload, StreamKindFileDownload} \<and>
      fsv_registry s t = Some \<lparr>sr_kind = fc_kind ca, sr_state = StreamOpen\<rparr>" by auto
next
  fix t d assume "((fsv_children s)(sid \<mapsto> c')) t = Some d \<and> t \<notin> fsv_streams s"
  then have "fsv_children s t = Some d" "t \<notin> fsv_streams s" using sid by (auto split: if_splits)
  then show "fc_done d" "\<And>u. fc_upload d = Some u \<Longrightarrow> up_closed u" using table_okD(6,7) [OF ok] by auto
next
  fix t assume n: "fsv_registry s t = None"
  then have "t \<noteq> sid" using table_okD(5) [OF ok sid(1)] by auto
  then show "((fsv_children s)(sid \<mapsto> c')) t = None" using table_okD(9) [OF ok n] by simp
qed (use table_okD(1-4,8) [OF ok] in auto)

lemma table_remove:
  assumes ok: "table_ok s" and sid: "sid \<in> fsv_streams s" "fsv_children s sid = Some c"
    and c': "fc_done c'" "\<And>u. fc_upload c' = Some u \<Longrightarrow> up_closed u"
    and s': "fsv_registry s' = (fsv_registry s)(sid \<mapsto> \<lparr>sr_kind = fc_kind c, sr_state = StreamClosed\<rparr>)"
      "fsv_streams s' = fsv_streams s - {sid}" "fsv_active s' = fsv_active s - 1"
      "fsv_children s' = (fsv_children s)(sid \<mapsto> c')"
  shows "table_ok s'"
  unfolding table_ok_def s'
proof (intro conjI ballI allI impI)
  from table_okD(5) [OF ok sid(1)] sid(2)
  have r: "fsv_registry s sid = Some \<lparr>sr_kind = fc_kind c, sr_state = StreamOpen\<rparr>" by auto
  have "registry_close (fsv_registry s) sid (fc_kind c) =
      Ok ((fsv_registry s)(sid \<mapsto> \<lparr>sr_kind = fc_kind c, sr_state = StreamClosed\<rparr>))"
    by (simp add: registry_close_def r)
  from parent.close_Ok [OF table_okD(1) [OF ok] this]
  show "registry_inv ((fsv_registry s)(sid \<mapsto> \<lparr>sr_kind = fc_kind c, sr_state = StreamClosed\<rparr>))" by blast
next
  show "fsv_active s - 1 = card (fsv_streams s - {sid})"
    using table_okD(2,3) [OF ok] sid(1) by simp
next
  fix t assume t: "t \<in> fsv_streams s - {sid}"
  then show "\<exists>ca. ((fsv_children s)(sid \<mapsto> c')) t = Some ca \<and> \<not> fc_done ca \<and>
      fc_kind ca \<in> {StreamKindFileUpload, StreamKindFileDownload} \<and>
      ((fsv_registry s)(sid \<mapsto> \<lparr>sr_kind = fc_kind c, sr_state = StreamClosed\<rparr>)) t =
        Some \<lparr>sr_kind = fc_kind ca, sr_state = StreamOpen\<rparr>"
    using table_okD(5) [OF ok, of t] by auto
next
  fix t d assume "((fsv_children s)(sid \<mapsto> c')) t = Some d \<and> t \<notin> fsv_streams s - {sid}"
  then show "fc_done d" "\<And>u. fc_upload d = Some u \<Longrightarrow> up_closed u"
    using table_okD(6,7) [OF ok, of t] c' by (auto split: if_splits)
next
  fix t assume "((fsv_registry s)(sid \<mapsto> \<lparr>sr_kind = fc_kind c, sr_state = StreamClosed\<rparr>)) t = None"
  then show "((fsv_children s)(sid \<mapsto> c')) t = None" using table_okD(9) [OF ok, of t] by (auto split: if_splits)
qed (use table_okD(2,4,8) [OF ok] in \<open>auto simp: live_streams_upd\<close>)

lemma table_add:
  assumes ok: "table_ok s" and fresh: "fsv_registry s sid = None" and k: "fc_kind c \<in> {StreamKindFileUpload, StreamKindFileDownload}"
    and room: "fsv_active s < maxFileStreamsPerConnection" and c: "\<not> fc_done c"
    and inv: "registry_inv ((fsv_registry s)(sid \<mapsto> \<lparr>sr_kind = fc_kind c, sr_state = StreamOpen\<rparr>))"
    and s': "fsv_registry s' = (fsv_registry s)(sid \<mapsto> \<lparr>sr_kind = fc_kind c, sr_state = StreamOpen\<rparr>)"
      "fsv_streams s' = insert sid (fsv_streams s)" "fsv_active s' = fsv_active s + 1"
      "fsv_children s' = (fsv_children s)(sid \<mapsto> c)"
  shows "table_ok s'"
proof -
  have new: "sid \<notin> fsv_streams s" using table_okD(5) [OF ok, of sid] fresh by auto
  show ?thesis
    unfolding table_ok_def s'
  proof (intro conjI ballI allI impI)
    show "fsv_active s + 1 = card (insert sid (fsv_streams s))" using table_okD(2,3) [OF ok] new by simp
  next
    fix t assume t: "t \<in> insert sid (fsv_streams s)"
    then show "\<exists>ca. ((fsv_children s)(sid \<mapsto> c)) t = Some ca \<and> \<not> fc_done ca \<and>
        fc_kind ca \<in> {StreamKindFileUpload, StreamKindFileDownload} \<and>
        ((fsv_registry s)(sid \<mapsto> \<lparr>sr_kind = fc_kind c, sr_state = StreamOpen\<rparr>)) t =
          Some \<lparr>sr_kind = fc_kind ca, sr_state = StreamOpen\<rparr>"
      using table_okD(5) [OF ok, of t] k c by auto
  next
    fix t d assume "((fsv_children s)(sid \<mapsto> c)) t = Some d \<and> t \<notin> insert sid (fsv_streams s)"
    then show "fc_done d" "\<And>u. fc_upload d = Some u \<Longrightarrow> up_closed u"
      using table_okD(6,7) [OF ok, of t] by (auto split: if_splits)
  next
    fix t assume "((fsv_registry s)(sid \<mapsto> \<lparr>sr_kind = fc_kind c, sr_state = StreamOpen\<rparr>)) t = None"
    then show "((fsv_children s)(sid \<mapsto> c)) t = None" using table_okD(9) [OF ok, of t] by (auto split: if_splits)
  qed (use table_okD(2,4,8) [OF ok] inv room in \<open>auto simp: live_streams_upd\<close>)
qed

text \<open>A registry record of a stream the engine gave up before it became active.\<close>

lemma table_registry:
  assumes ok: "table_ok s" and fresh: "fsv_registry s sid = None"
    and inv: "registry_inv ((fsv_registry s)(sid \<mapsto> \<lparr>sr_kind = k, sr_state = StreamClosed\<rparr>))"
    and s': "fsv_registry s' = (fsv_registry s)(sid \<mapsto> \<lparr>sr_kind = k, sr_state = StreamClosed\<rparr>)"
      "fsv_streams s' = fsv_streams s" "fsv_active s' = fsv_active s" "fsv_children s' = fsv_children s"
  shows "table_ok s'"
proof -
  have new: "sid \<notin> fsv_streams s" using table_okD(5) [OF ok, of sid] fresh by auto
  have streams: "\<exists>ca. fsv_children s t = Some ca \<and> \<not> fc_done ca \<and>
      fc_kind ca \<in> {StreamKindFileUpload, StreamKindFileDownload} \<and>
      ((fsv_registry s)(sid \<mapsto> \<lparr>sr_kind = k, sr_state = StreamClosed\<rparr>)) t =
        Some \<lparr>sr_kind = fc_kind ca, sr_state = StreamOpen\<rparr>" if "t \<in> fsv_streams s" for t
    using table_okD(5) [OF ok that] that new by auto
  show ?thesis
    unfolding table_ok_def s'
    using streams table_okD(1-4,6-9) [OF ok] inv
    by (auto simp: live_streams_upd split: if_splits)
qed

section \<open>Every operation keeps the invariant\<close>

lemma fsv_note_inv:
  assumes "fsv_inv s" "\<And>t bs. e \<noteq> FlStored t bs"
  shows "fsv_inv (fsv_note e s)"
proof -
  have "stored t [e] = []" for t using assms(2) by (cases e) auto
  then have "uploads_ok (fsv_note e s) \<longleftrightarrow> uploads_ok s"
    by (intro uploads_ok_cong) (simp_all add: fsv_note_def)
  moreover have "table_ok (fsv_note e s) \<longleftrightarrow> table_ok s" by (rule table_ok_cong) (simp_all add: fsv_note_def)
  ultimately show ?thesis using assms(1) by (simp add: fsv_inv_def)
qed

lemma fsv_writeFrame_inv: "fsv_inv s \<Longrightarrow> fsv_writeFrame env m s = (e, s') \<Longrightarrow> fsv_inv s'"
  by (auto simp: fsv_writeFrame_def intro: fsv_note_inv split: if_splits)

lemma fsv_sendStreamError_inv: "fsv_inv s \<Longrightarrow> fsv_sendStreamError env sid c m s = (e, s') \<Longrightarrow> fsv_inv s'"
  by (auto simp: fsv_sendStreamError_def intro: fsv_writeFrame_inv split: sum.splits)

lemma fsv_sendClose_inv: "fsv_inv s \<Longrightarrow> fsv_sendClose env sid r s = (e, s') \<Longrightarrow> fsv_inv s'"
  by (auto simp: fsv_sendClose_def intro: fsv_writeFrame_inv split: sum.splits)

lemma upload_of_child: "fsv_children s sid = Some c \<Longrightarrow> upload_of s sid = fc_upload c"
  by (simp add: upload_of_def)

lemma uploads_ok_no_upload:
  assumes "uploads_ok s" "fsv_children s sid = Some c" "fc_upload c' = fc_upload c"
    and "fsv_children s' = (fsv_children s)(sid \<mapsto> c')" "fsv_fs s' = fsv_fs s" "fsv_log s' = fsv_log s"
  shows "uploads_ok s'"
proof -
  have eq: "upload_of s' = upload_of s" using assms(2,3,4) by (auto simp: upload_of_def fun_eq_iff)
  have ch: "fsv_children s' t = None \<longleftrightarrow> fsv_children s t = None" for t using assms(2,4) by simp
  from assms(1) show ?thesis unfolding uploads_ok_def eq assms(5,6) ch .
qed

text \<open>Replacing a child's own upload, after one of the upload's steps.\<close>

lemma uploads_ok_child:
  assumes "uploads_ok s" "fsv_children s sid = Some c" "fc_upload c = Some u" "fc_upload c' = Some u'"
    and "upload_counts u'" "up_digest u' = stored sid (fsv_log s')" "up_stage u' = up_stage u"
    and "\<And>se i. \<not> up_closed u \<Longrightarrow> staged se u (fsv_fs s) \<Longrightarrow> up_file u = Some i \<Longrightarrow>
      private_change se i (fsv_fs s) (fsv_fs s') \<and> (\<not> up_closed u' \<longrightarrow> staged se u' (fsv_fs s'))"
    and "up_closed u \<Longrightarrow> up_closed u' \<and> fsv_fs s' = fsv_fs s"
    and "fsv_children s' = (fsv_children s)(sid \<mapsto> c')"
    and "\<And>t. t \<noteq> sid \<Longrightarrow> stored t (fsv_log s') = stored t (fsv_log s)"
  shows "uploads_ok s'"
proof (rule uploads_ok_update [OF assms(1) _ assms(5-7)])
  show "upload_of s sid = Some u" using assms(2,3) by (simp add: upload_of_def)
  show "upload_of s' = (upload_of s)(sid \<mapsto> u')" using assms(4,10) by (auto simp: upload_of_def fun_eq_iff)
  show "fsv_children s' t = None \<longleftrightarrow> fsv_children s t = None" for t using assms(2,10) by simp
qed (use assms(8,9,11) in blast)+

lemma Cancel_child:
  assumes "uploads_ok s" "upload_of s sid = Some u" "upload_Cancel env (u, fsv_fs s) = (e, (u', fs'))"
  shows "upload_counts u'" "up_digest u' = up_digest u" "up_stage u' = up_stage u" "up_closed u'"
    "\<And>se i. \<not> up_closed u \<Longrightarrow> staged se u (fsv_fs s) \<Longrightarrow> private_change se i (fsv_fs s) fs'"
    "up_closed u \<Longrightarrow> fs' = fsv_fs s"
proof -
  note c = uploads_okD(2,4) [OF assms(1,2)]
  show "up_closed u \<Longrightarrow> fs' = fsv_fs s" using assms(3) by (simp add: upload_Cancel_def)
  show "private_change se i (fsv_fs s) fs'" if "\<not> up_closed u" "staged se u (fsv_fs s)" for se i
    using private_Cancel [OF assms(3)] that(2) by (simp add: staged_def)
  have "upload_counts u' \<and> up_digest u' = up_digest u \<and> up_stage u' = up_stage u \<and> up_closed u'"
    using c(1) assms(3) by (auto simp: upload_Cancel_def upload_counts_def Let_def split: if_splits prod.splits)
  then show "upload_counts u'" "up_digest u' = up_digest u" "up_stage u' = up_stage u" "up_closed u'" by simp_all
qed

lemma fsv_closeChild_inv:
  assumes "fsv_inv s"
  shows "fsv_inv (fsv_closeChild env sid s) \<and> sid \<notin> fsv_streams (fsv_closeChild env sid s)"
proof (cases "sid \<in> fsv_streams s")
  case False
  then show ?thesis using assms by (simp add: fsv_closeChild_def)
next
  case True
  from assms have ok: "table_ok s" "uploads_ok s" by (simp_all add: fsv_inv_def)
  from table_okD(5) [OF ok(1) True] obtain c where c: "fsv_children s sid = Some c" "\<not> fc_done c"
    "fsv_registry s sid = Some \<lparr>sr_kind = fc_kind c, sr_state = StreamOpen\<rparr>" by blast
  have pos: "0 < fsv_active s" using table_okD(2,3) [OF ok(1)] True by (auto simp: card_gt_0_iff)
  define up fs where "up = (case fc_upload c of None \<Rightarrow> None
      | Some u \<Rightarrow> Some (fst (snd (upload_Cancel (ev_cancel env sid) (u, fsv_fs s)))))"
    and "fs = (case fc_upload c of None \<Rightarrow> fsv_fs s
      | Some u \<Rightarrow> snd (snd (upload_Cancel (ev_cancel env sid) (u, fsv_fs s))))"
  define c' where "c' = c\<lparr>fc_done := True, fc_upload := up, fc_download := map_option download_Close (fc_download c)\<rparr>"
  define s' where "s' = s\<lparr>fsv_streams := fsv_streams s - {sid}, fsv_active := fsv_active s - 1,
      fsv_registry := (fsv_registry s)(sid \<mapsto> \<lparr>sr_kind = fc_kind c, sr_state = StreamClosed\<rparr>),
      fsv_fs := fs, fsv_children := (fsv_children s)(sid \<mapsto> c')\<rparr>"
  have eq: "fsv_closeChild env sid s = s'"
    using True c pos
    by (auto simp: fsv_closeChild_def fsv_closeOnce_def fsv_registryClose_def registry_close_def fsv_setChild_def
        s'_def c'_def up_def fs_def split: option.splits prod.splits)
  have cl: "\<And>u. fc_upload c' = Some u \<Longrightarrow> up_closed u"
  proof -
    fix u assume "fc_upload c' = Some u"
    then obtain v where v: "fc_upload c = Some v" "u = fst (snd (upload_Cancel (ev_cancel env sid) (v, fsv_fs s)))"
      by (auto simp: c'_def up_def split: option.splits)
    show "up_closed u"
      using Cancel_child(4) [OF ok(2), of sid v] v c(1) by (metis prod.collapse upload_of_child)
  qed
  have "table_ok s'"
    by (rule table_remove [OF ok(1) True c(1), of c']) (use cl in \<open>simp_all add: s'_def c'_def\<close>)
  moreover have "uploads_ok s'"
  proof (cases "fc_upload c")
    case None
    then show ?thesis
      by (intro uploads_ok_no_upload [OF ok(2) c(1), of c']) (simp_all add: s'_def c'_def up_def fs_def)
  next
    case (Some u)
    obtain e u' fs1 where r: "upload_Cancel (ev_cancel env sid) (u, fsv_fs s) = (e, (u', fs1))" by (metis prod.collapse)
    have u: "upload_of s sid = Some u" using c(1) Some by (simp add: upload_of_def)
    note cc = Cancel_child [OF ok(2) u r]
    have d: "up_digest u = stored sid (fsv_log s)" using uploads_okD(3) [OF ok(2) u] .
    show ?thesis
      by (rule uploads_ok_child [OF ok(2) c(1) Some, of c' u'])
        (use cc d r Some in \<open>auto simp: s'_def c'_def up_def fs_def\<close>)
  qed
  ultimately show ?thesis unfolding eq by (simp add: fsv_inv_def s'_def)
qed

lemma staged_resolve: "staged te v fs \<Longrightarrow> fs_resolve fs (up_stage v) = Some te"
  by (simp add: staged_def)

lemma uploads_ok_add:
  assumes ok: "uploads_ok s" and none: "fsv_children s sid = None"
    and b: "BeginUpload store env open (fsv_fs s) = Ok (u, fsv_fs s')" and c: "fc_upload c = Some u"
    and ch: "fsv_children s' = (fsv_children s)(sid \<mapsto> c)" and log: "\<And>t. stored t (fsv_log s') = stored t (fsv_log s)"
  shows "uploads_ok s'"
proof -
  from b uploads_okD(1) [OF ok] obtain se i where n: "staged se u (fsv_fs s')" "upload_counts u" "up_file u = Some i"
    "\<not> up_closed u" "up_digest u = []" "private_change se i (fsv_fs s) (fsv_fs s')" "fs_names (fsv_fs s) se = None"
    "\<forall>en. fs_names (fsv_fs s) en \<noteq> Some (NFile i)" "fs_resolve (fsv_fs s) (up_stage u) = Some se"
    by (rule BeginUpload_private)
  have res: "fs_resolve (fsv_fs s') = fs_resolve (fsv_fs s)" "fs_ok (fsv_fs s')"
    using n(6) uploads_okD(1) [OF ok] by (simp_all add: private_change_def)
  have other: "upload_of s' t = upload_of s t" if "t \<noteq> sid" for t using that by (simp add: upload_of_def ch)
  have self: "upload_of s' sid = Some u" by (simp add: upload_of_def ch c)
  have old: "\<exists>te. staged te v (fsv_fs s') \<and> te \<noteq> se" if t: "upload_of s t = Some v" "\<not> up_closed v" for t v
  proof -
    obtain te where te: "staged te v (fsv_fs s)" using uploads_okD(4) [OF ok t] by blast
    from te t(2) obtain j where j: "up_file v = Some j" "fs_names (fsv_fs s) te = Some (NFile j)" by (rule stagedE)
    have "te \<noteq> se" using j(2) n(7) by auto
    moreover have "up_file v \<noteq> Some i" using j n(8) by auto
    ultimately show ?thesis using private_change_others [OF n(6) te t(2)] by blast
  qed
  have sep: "fs_resolve (fsv_fs s') (up_stage u) \<noteq> fs_resolve (fsv_fs s') (up_stage v)"
    if "upload_of s t = Some v" "\<not> up_closed v" for t v
    using old [OF that] n(9) res(1) by (auto dest: staged_resolve)
  show ?thesis
    unfolding uploads_ok_def
  proof (intro conjI allI impI)
    fix t v assume v: "upload_of s' t = Some v"
    show "upload_counts v" using v self other n(2) uploads_okD(2) [OF ok] by (cases "t = sid") auto
    show "up_digest v = stored t (fsv_log s')"
      using v self other n(5) uploads_okD(3,6) [OF ok] log none by (cases "t = sid") auto
    show "\<exists>te. staged te v (fsv_fs s')" if "\<not> up_closed v"
      using v self other n(1) old [of t v] that by (cases "t = sid") auto
  next
    fix a b v w
    assume as: "a \<noteq> b \<and> upload_of s' a = Some v \<and> upload_of s' b = Some w \<and> \<not> up_closed v \<and> \<not> up_closed w"
    show "fs_resolve (fsv_fs s') (up_stage v) \<noteq> fs_resolve (fsv_fs s') (up_stage w)"
    proof (cases "a = sid \<or> b = sid")
      case True
      then show ?thesis using as self other sep by (metis option.inject)
    next
      case False
      then show ?thesis using as other res(1) uploads_okD(5) [OF ok, of a b v w] by auto
    qed
  next
    fix t assume "fsv_children s' t = None"
    then show "stored t (fsv_log s') = []" using ch log uploads_okD(6) [OF ok, of t] by (auto split: if_splits)
  qed (rule res(2))
qed

lemma uploads_ok_fresh:
  assumes "uploads_ok s" "fsv_children s sid = None" "fc_upload c = None"
    and "fsv_children s' = (fsv_children s)(sid \<mapsto> c)" "fsv_fs s' = fsv_fs s" "\<And>t. stored t (fsv_log s') = stored t (fsv_log s)"
  shows "uploads_ok s'"
proof -
  have eq: "upload_of s' = upload_of s" using assms(2,3,4) by (auto simp: upload_of_def fun_eq_iff)
  have "\<forall>t. fsv_children s' t = None \<longrightarrow> stored t (fsv_log s') = []"
    using assms(4,6) uploads_okD(6) [OF assms(1)] by (auto split: if_splits)
  with assms(1) show ?thesis unfolding uploads_ok_def eq assms(5,6) by blast
qed

lemma fsv_reserve_cases:
  assumes "fsv_reserve env sid k s = (out, s1)" "fsv_inv s"
  obtains (reserved) "out = Reserved" "fsv_registry s sid = None" "fsv_active s < maxFileStreamsPerConnection"
      "s1 = s\<lparr>fsv_registry := (fsv_registry s)(sid \<mapsto> \<lparr>sr_kind = k, sr_state = StreamOpening\<rparr>),
         fsv_active := fsv_active s + 1\<rparr>"
      "registry_inv ((fsv_registry s)(sid \<mapsto> \<lparr>sr_kind = k, sr_state = StreamOpening\<rparr>))"
  | (refused) "out \<noteq> Reserved" "fsv_inv s1"
proof (cases "registry_reserve (fsv_registry s) sid k")
  case (Inl e)
  with assms show ?thesis by (intro refused) (auto simp: fsv_reserve_def)
next
  case (Inr r)
  from assms(2) have ok: "table_ok s" "uploads_ok s" by (simp_all add: fsv_inv_def)
  from parent.reserve_Ok [OF table_okD(1) [OF ok(1)] Inr]
  have r: "fsv_registry s sid = None" "r = (fsv_registry s)(sid \<mapsto> \<lparr>sr_kind = k, sr_state = StreamOpening\<rparr>)" "registry_inv r"
    by auto
  show ?thesis
  proof (cases "maxFileStreamsPerConnection \<le> fsv_active s")
    case False
    with assms(1) Inr r show ?thesis by (intro reserved) (auto simp: fsv_reserve_def Let_def)
  next
    case True
    have rc: "registry_close r sid k = Ok (r(sid \<mapsto> \<lparr>sr_kind = k, sr_state = StreamClosed\<rparr>))"
      by (simp add: registry_close_def r)
    define s2 where "s2 = s\<lparr>fsv_registry := (fsv_registry s)(sid \<mapsto> \<lparr>sr_kind = k, sr_state = StreamClosed\<rparr>)\<rparr>"
    have e2: "fsv_registryClose sid k (s\<lparr>fsv_registry := r\<rparr>) = s2"
      by (simp add: fsv_registryClose_def rc [unfolded r(2)] s2_def r(2))
    have "registry_inv ((fsv_registry s)(sid \<mapsto> \<lparr>sr_kind = k, sr_state = StreamClosed\<rparr>))"
      using parent.close_Ok [OF r(3) rc] r(2) by simp
    then have "table_ok s2" by (rule table_registry [OF ok(1) r(1)]) (simp_all add: s2_def)
    moreover have "uploads_ok s2 \<longleftrightarrow> uploads_ok s" by (rule uploads_ok_cong) (simp_all add: s2_def)
    ultimately have "fsv_inv s2" using ok(2) by (simp add: fsv_inv_def)
    then have "fsv_inv s1 \<and> out \<noteq> Reserved"
      using assms(1) Inr True e2 fsv_sendStreamError_inv [of s2 env sid]
      by (auto simp: fsv_reserve_def Let_def split: prod.splits option.splits)
    then show ?thesis using refused by blast
  qed
qed

text \<open>A state in which one identifier is reserved and not yet active.\<close>

definition half_open :: "u32 \<Rightarrow> stream_kind \<Rightarrow> file_server \<Rightarrow> file_server \<Rightarrow> bool" where
  "half_open sid k s h \<longleftrightarrow>
     table_ok s \<and> fsv_registry s sid = None \<and> fsv_active s < maxFileStreamsPerConnection \<and>
     registry_inv ((fsv_registry s)(sid \<mapsto> \<lparr>sr_kind = k, sr_state = StreamOpening\<rparr>)) \<and>
     fsv_registry h = (fsv_registry s)(sid \<mapsto> \<lparr>sr_kind = k, sr_state = StreamOpening\<rparr>) \<and>
     fsv_streams h = fsv_streams s \<and> fsv_active h = fsv_active s + 1 \<and> fsv_children h = fsv_children s"

lemma release_inv:
  assumes "half_open sid k s h" "uploads_ok h"
  shows "fsv_inv (fsv_releaseReservation sid k h)"
proof -
  from assms(1) have h: "table_ok s" "fsv_registry s sid = None"
    and ri: "registry_inv ((fsv_registry s)(sid \<mapsto> \<lparr>sr_kind = k, sr_state = StreamOpening\<rparr>))"
    and hh: "fsv_registry h = (fsv_registry s)(sid \<mapsto> \<lparr>sr_kind = k, sr_state = StreamOpening\<rparr>)"
     "fsv_streams h = fsv_streams s" "fsv_active h = fsv_active s + 1" "fsv_children h = fsv_children s"
    by (simp_all add: half_open_def)
  have rc: "registry_close (fsv_registry h) sid k = Ok ((fsv_registry s)(sid \<mapsto> \<lparr>sr_kind = k, sr_state = StreamClosed\<rparr>))"
    by (simp add: registry_close_def hh(1))
  define g where "g = fsv_releaseReservation sid k h"
  have g: "fsv_registry g = (fsv_registry s)(sid \<mapsto> \<lparr>sr_kind = k, sr_state = StreamClosed\<rparr>)" "fsv_streams g = fsv_streams s"
    "fsv_active g = fsv_active s" "fsv_children g = fsv_children s" "fsv_fs g = fsv_fs h" "fsv_log g = fsv_log h"
    by (simp_all add: g_def fsv_releaseReservation_def fsv_registryClose_def rc [unfolded hh(1)] Let_def hh)
  have "registry_inv ((fsv_registry s)(sid \<mapsto> \<lparr>sr_kind = k, sr_state = StreamClosed\<rparr>))"
    using parent.close_Ok [OF _ rc] ri hh(1) by simp
  then have "table_ok g" by (rule table_registry [OF h]) (rule g)+
  moreover have "uploads_ok g \<longleftrightarrow> uploads_ok h" by (rule uploads_ok_cong) (simp_all add: g hh)
  ultimately show ?thesis using assms(2) by (simp add: fsv_inv_def g_def)
qed

lemma half_open_note: "half_open sid k s h \<Longrightarrow> half_open sid k s (fsv_note e h)"
  by (simp add: half_open_def fsv_note_def)

lemma uploads_ok_note: "uploads_ok s \<Longrightarrow> (\<And>t bs. e \<noteq> FlStored t bs) \<Longrightarrow> uploads_ok (fsv_note e s)"
proof -
  assume "uploads_ok s" and ne: "\<And>t bs. e \<noteq> FlStored t bs"
  have "stored t [e] = []" for t using ne by (cases e) auto
  then have "uploads_ok (fsv_note e s) \<longleftrightarrow> uploads_ok s"
    by (intro uploads_ok_cong) (simp_all add: fsv_note_def)
  with \<open>uploads_ok s\<close> show ?thesis by simp
qed

lemma activate_half_open:
  assumes "half_open sid (fc_kind c) s h" "fc_kind c \<in> {StreamKindFileUpload, StreamKindFileDownload}" "\<not> fc_done c"
  shows "\<exists>s'. fsv_activate sid c h = (None, s') \<and> table_ok s' \<and> fsv_children s' = (fsv_children s)(sid \<mapsto> c) \<and>
     fsv_fs s' = fsv_fs h \<and> fsv_log s' = fsv_log h"
proof -
  from assms(1) have h: "table_ok s" "fsv_registry s sid = None" "fsv_active s < maxFileStreamsPerConnection"
    and ri: "registry_inv ((fsv_registry s)(sid \<mapsto> \<lparr>sr_kind = fc_kind c, sr_state = StreamOpening\<rparr>))"
    and hh: "fsv_registry h = (fsv_registry s)(sid \<mapsto> \<lparr>sr_kind = fc_kind c, sr_state = StreamOpening\<rparr>)"
     "fsv_streams h = fsv_streams s" "fsv_active h = fsv_active s + 1" "fsv_children h = fsv_children s"
    by (simp_all add: half_open_def)
  have ra: "registry_accept (fsv_registry h) sid (fc_kind c) =
      Ok ((fsv_registry s)(sid \<mapsto> \<lparr>sr_kind = fc_kind c, sr_state = StreamOpen\<rparr>))"
    by (simp add: registry_accept_def hh(1))
  define s' where "s' = h\<lparr>fsv_children := (fsv_children s)(sid \<mapsto> c), fsv_streams := insert sid (fsv_streams s),
      fsv_registry := (fsv_registry s)(sid \<mapsto> \<lparr>sr_kind = fc_kind c, sr_state = StreamOpen\<rparr>)\<rparr>"
  have "registry_inv ((fsv_registry s)(sid \<mapsto> \<lparr>sr_kind = fc_kind c, sr_state = StreamOpen\<rparr>))"
    using parent.accept_Ok [OF _ ra] ri hh(1) by simp
  then have "table_ok s'"
    by (rule table_add [OF h(1,2) assms(2) h(3) assms(3)]) (simp_all add: s'_def hh)
  moreover have "fsv_activate sid c h = (None, s')"
    by (simp add: fsv_activate_def Let_def fsv_setChild_def hh s'_def ra [unfolded hh(1)])
  ultimately show ?thesis by (simp add: s'_def)
qed

lemma reserved_half_open:
  assumes "fsv_inv s" "fsv_reserve env sid k s = (Reserved, s1)"
  shows "half_open sid k s s1 \<and> uploads_ok s1 \<and> fsv_children s sid = None \<and> fsv_fs s1 = fsv_fs s \<and> fsv_log s1 = fsv_log s"
  using assms(2,1)
proof (cases rule: fsv_reserve_cases)
  case reserved
  from assms(1) have ok: "table_ok s" "uploads_ok s" by (simp_all add: fsv_inv_def)
  have "uploads_ok s1 \<longleftrightarrow> uploads_ok s" by (rule uploads_ok_cong) (simp_all add: reserved(4))
  with reserved ok table_okD(9) [OF ok(1) reserved(2)] show ?thesis by (simp add: half_open_def)
qed simp

lemma reserve_refused: "fsv_inv s \<Longrightarrow> fsv_reserve env sid k s = (out, s1) \<Longrightarrow> out \<noteq> Reserved \<Longrightarrow> fsv_inv s1"
  by (elim fsv_reserve_cases) auto

lemma rejected_inv:
  assumes "half_open sid k s h" "uploads_ok h"
    and "fsv_sendStreamError env sid c m (fsv_releaseReservation sid k h) = (e, s')"
  shows "fsv_inv s'"
  using fsv_sendStreamError_inv [OF release_inv [OF assms(1,2)] assms(3)] .

lemma file_window_valid: "newTypedStreamCredit typedFileReceiveWindow = Ok \<lparr>cr_remaining = typedFileReceiveWindow\<rparr>"
  by (simp add: newTypedStreamCredit_def typedFileReceiveWindow_def MaxTypedStreamWindow_def)

lemma fsv_openUpload_inv:
  assumes "fsv_inv s" "fsv_openUpload env sid m s = (e, s')"
  shows "fsv_inv s'"
proof -
  obtain out s1 where r: "fsv_reserve env sid StreamKindFileUpload s = (out, s1)" by fastforce
  show ?thesis
  proof (cases "out = Reserved")
    case False
    with r assms reserve_refused show ?thesis
      by (auto simp: fsv_openUpload_def split: reserve_outcome.splits)
  next
    case True
    note h1 = reserved_half_open [OF assms(1) r [unfolded True]]
    obtain ok s2 where a: "fsv_authorize env sid FileTransferUpload (fu_path m) s1 = (ok, s2)" by fastforce
    then have s2: "s2 = fsv_note (FlAuthorized sid FileTransferUpload (fu_path m) ok) s1"
      by (auto simp: fsv_authorize_def Let_def)
    have h: "half_open sid StreamKindFileUpload s s2" "uploads_ok s2" using h1 half_open_note uploads_ok_note by (auto simp: s2)
    show ?thesis
    proof (cases ok)
      case False
      with assms(2) r True a rejected_inv [OF h] show ?thesis by (auto simp: fsv_openUpload_def)
    next
      case ok: True
      show ?thesis
      proof (cases "BeginUpload (fsv_store env) (ev_begin env sid) m (fsv_fs s2)")
        case (Inl x)
        with assms(2) r True a ok rejected_inv [OF h] show ?thesis by (auto simp: fsv_openUpload_def)
      next
        case (Inr y)
        obtain u fs where b: "BeginUpload (fsv_store env) (ev_begin env sid) m (fsv_fs s2) = Ok (u, fs)" using Inr by fastforce
        define c where "c = \<lparr>fc_kind = StreamKindFileUpload, fc_upload = Some u, fc_download = None,
            fc_send = \<lparr>cr_remaining = 0\<rparr>, fc_recv = \<lparr>cr_remaining = typedFileReceiveWindow\<rparr>, fc_remaining = 0,
            fc_done = False, fc_forwarding = False\<rparr>"
        have "half_open sid (fc_kind c) s (s2\<lparr>fsv_fs := fs\<rparr>)" using h(1) by (simp add: half_open_def c_def)
        from activate_half_open [OF this] obtain s4 where s4: "fsv_activate sid c (s2\<lparr>fsv_fs := fs\<rparr>) = (None, s4)" "table_ok s4"
          "fsv_children s4 = (fsv_children s)(sid \<mapsto> c)" "fsv_fs s4 = fs" "fsv_log s4 = fsv_log s2"
          by (auto simp: c_def)
        have "uploads_ok s4"
          using h(2) h1 b
          by (intro uploads_ok_add [of s2 sid "fsv_store env" "ev_begin env sid" m u s4 c])
            (simp_all add: s4 c_def, simp_all add: s2 fsv_note_def half_open_def)
        with s4(2) have i4: "fsv_inv s4" by (simp add: fsv_inv_def)
        obtain w s5 where w: "fsv_writeFrame env (OutAccepted sid typedFileReceiveWindow) s4 = (w, s5)" by fastforce
        have i5: "fsv_inv s5" using fsv_writeFrame_inv [OF i4 w] .
        have "s' = (if w = None then s5 else fsv_closeChild env sid s5)"
          using assms(2) r True a ok b s4(1) w file_window_valid
          by (auto simp: fsv_openUpload_def Let_def c_def split: option.splits)
        then show ?thesis using i5 fsv_closeChild_inv [OF i5] by simp
      qed
    qed
  qed
qed

lemma fsv_setChild_inv:
  assumes "fsv_inv s" "sid \<in> fsv_streams s" "fsv_children s sid = Some c"
    and "fc_kind c' = fc_kind c" "\<not> fc_done c'" "fc_upload c' = fc_upload c"
  shows "fsv_inv (fsv_setChild sid c' s)"
proof -
  from assms(1) have ok: "table_ok s" "uploads_ok s" by (simp_all add: fsv_inv_def)
  have "table_ok (fsv_setChild sid c' s)"
    by (rule table_set [OF ok(1) assms(2-5)]) (simp_all add: fsv_setChild_def)
  moreover have "uploads_ok (fsv_setChild sid c' s)"
    by (rule uploads_ok_no_upload [OF ok(2) assms(3,6)]) (simp_all add: fsv_setChild_def)
  ultimately show ?thesis by (simp add: fsv_inv_def)
qed

lemma fsv_openDownload_inv:
  assumes "fsv_inv s" "fsv_openDownload env sid en m s = (e, s')"
  shows "fsv_inv s'"
proof -
  obtain out s1 where r: "fsv_reserve env sid StreamKindFileDownload s = (out, s1)" by fastforce
  show ?thesis
  proof (cases "out = Reserved")
    case False
    with r assms reserve_refused show ?thesis
      by (auto simp: fsv_openDownload_def split: reserve_outcome.splits)
  next
    case True
    note h1 = reserved_half_open [OF assms(1) r [unfolded True]]
    obtain ok s2 where a: "fsv_authorize env sid FileTransferDownload (fd_path m) s1 = (ok, s2)" by fastforce
    then have s2: "s2 = fsv_note (FlAuthorized sid FileTransferDownload (fd_path m) ok) s1"
      by (auto simp: fsv_authorize_def Let_def)
    have h: "half_open sid StreamKindFileDownload s s2" "uploads_ok s2" using h1 half_open_note uploads_ok_note by (auto simp: s2)
    show ?thesis
    proof (cases "ok \<and> (\<exists>d. OpenDownload (fsv_store env) (ev_download env sid) (\<lambda>_. Err 0) m (fsv_fs s2) (fsv_fs s2) = Ok d)")
      case False
      with assms(2) r True a rejected_inv [OF h] show ?thesis
        by (auto simp: fsv_openDownload_def split: bool.splits sum.splits)
    next
      case ok: True
      then obtain d sz i where o: "OpenDownload (fsv_store env) (ev_download env sid) (\<lambda>_. Err 0) m (fsv_fs s2) (fsv_fs s2) = Ok (d, sz, i)"
        by (metis prod.collapse)
      show ?thesis
      proof (cases "newTypedStreamCredit (so_window en)")
        case (Inl x)
        with assms(2) r True a ok o release_inv [OF h] show ?thesis by (auto simp: fsv_openDownload_def)
      next
        case (Inr sc)
        define c where "c = \<lparr>fc_kind = StreamKindFileDownload, fc_upload = None, fc_download = Some d,
            fc_send = sc, fc_recv = \<lparr>cr_remaining = 0\<rparr>, fc_remaining = sz, fc_done = False, fc_forwarding = False\<rparr>"
        have "half_open sid (fc_kind c) s s2" using h(1) by (simp add: c_def)
        from activate_half_open [OF this] obtain s4 where s4: "fsv_activate sid c s2 = (None, s4)" "table_ok s4"
          "fsv_children s4 = (fsv_children s)(sid \<mapsto> c)" "fsv_fs s4 = fsv_fs s2" "fsv_log s4 = fsv_log s2"
          by (auto simp: c_def)
        have ch: "fsv_children s2 = fsv_children s" using h(1) by (simp add: half_open_def)
        have "uploads_ok s4"
          by (rule uploads_ok_fresh [OF h(2), of sid c]) (use h1 in \<open>simp_all add: s4 ch c_def\<close>)
        with s4(2) have i4: "fsv_inv s4" by (simp add: fsv_inv_def)
        obtain w s5 where w: "fsv_writeFrame env (OutAccepted sid 1) s4 = (w, s5)" by fastforce
        have i5: "fsv_inv s5" using fsv_writeFrame_inv [OF i4 w] .
        have s5: "fsv_children s5 sid = Some c" "sid \<in> fsv_streams s5"
        proof -
          have "fsv_children s5 = fsv_children s4" "fsv_streams s5 = fsv_streams s4"
            using w by (auto simp: fsv_writeFrame_def fsv_note_def split: if_splits)
          moreover have "sid \<in> fsv_streams s4"
          proof (rule ccontr)
            assume "sid \<notin> fsv_streams s4"
            from table_okD(6) [OF s4(2) _ this, of c] show False by (simp add: s4(3) c_def)
          qed
          ultimately show "fsv_children s5 sid = Some c" "sid \<in> fsv_streams s5" by (simp_all add: s4(3))
        qed
        have "s' = (if w = None then fsv_note (FlDownload sid sz) (fsv_setChild sid (c\<lparr>fc_forwarding := True\<rparr>) s5)
            else fsv_closeChild env sid s5)"
          using assms(2) r True a ok o Inr s4(1) w s5(1)
          by (auto simp: fsv_openDownload_def Let_def c_def split: option.splits)
        moreover have "fsv_inv (fsv_note (FlDownload sid sz) (fsv_setChild sid (c\<lparr>fc_forwarding := True\<rparr>) s5))"
          by (intro fsv_note_inv fsv_setChild_inv [OF i5 s5(2,1)]) (simp_all add: c_def)
        ultimately show ?thesis using i5 fsv_closeChild_inv [OF i5] by simp
      qed
    qed
  qed
qed

lemma fsv_open_inv: "fsv_inv s \<Longrightarrow> fsv_open env cd f s = (e, s') \<Longrightarrow> fsv_inv s'"
  by (auto simp: fsv_open_def intro: fsv_openUpload_inv fsv_openDownload_inv split: sum.splits if_splits)

lemma fsv_openChild_Ok:
  "fsv_openChild sid s = Ok c \<Longrightarrow> sid \<in> fsv_streams s \<and> fsv_children s sid = Some c"
  by (auto simp: fsv_openChild_def split: if_splits option.splits)

lemma table_child_open:
  "table_ok s \<Longrightarrow> sid \<in> fsv_streams s \<Longrightarrow> fsv_children s sid = Some c \<Longrightarrow> \<not> fc_done c"
  by (metis table_okD(5) option.inject)

text \<open>A step of one child's upload, with its bytes logged.\<close>

lemma upload_step_inv:
  assumes inv: "fsv_inv s" and sid: "sid \<in> fsv_streams s" "fsv_children s sid = Some c" "fc_upload c = Some u"
    and c': "fc_kind c' = fc_kind c" "fc_done c' = fc_done c" "fc_upload c' = Some u'"
    and u': "upload_counts u'" "up_digest u' = up_digest u @ bs" "up_stage u' = up_stage u"
    and opn: "\<And>se i. \<not> up_closed u \<Longrightarrow> staged se u (fsv_fs s) \<Longrightarrow> up_file u = Some i \<Longrightarrow>
      private_change se i (fsv_fs s) fs' \<and> (\<not> up_closed u' \<longrightarrow> staged se u' fs')"
    and cls: "up_closed u \<Longrightarrow> up_closed u' \<and> fs' = fsv_fs s"
  shows "fsv_inv (fsv_note (FlStored sid bs) (fsv_setChild sid c' (s\<lparr>fsv_fs := fs'\<rparr>)))" (is "fsv_inv ?s")
proof -
  from inv have ok: "table_ok s" "uploads_ok s" by (simp_all add: fsv_inv_def)
  have nd: "\<not> fc_done c'" using c'(2) table_child_open [OF ok(1) sid(1,2)] by simp
  have "table_ok ?s"
    by (rule table_set [OF ok(1) sid(1,2) c'(1) nd]) (simp_all add: fsv_setChild_def fsv_note_def)
  moreover have "uploads_ok ?s"
  proof (rule uploads_ok_child [OF ok(2) sid(2,3) c'(3) u'(1)])
    have "up_digest u = stored sid (fsv_log s)"
      using uploads_okD(3) [OF ok(2)] sid(2,3) by (simp add: upload_of_def)
    then show "up_digest u' = stored sid (fsv_log ?s)" by (simp add: u'(2) fsv_note_def fsv_setChild_def)
  qed (use opn cls u'(3) in \<open>simp_all add: fsv_note_def fsv_setChild_def\<close>)
  ultimately show ?thesis by (simp add: fsv_inv_def)
qed

lemma Write_child:
  assumes "uploads_ok s" "upload_of s sid = Some u" "upload_Write env data (u, fsv_fs s) = ((n, e), (u', fs'))"
  shows "upload_counts u' \<and> up_digest u' = up_digest u @ take n data \<and> up_stage u' = up_stage u \<and>
     (\<forall>se i. \<not> up_closed u \<and> staged se u (fsv_fs s) \<and> up_file u = Some i \<longrightarrow>
        private_change se i (fsv_fs s) fs' \<and> (\<not> up_closed u' \<longrightarrow> staged se u' fs')) \<and>
     (up_closed u \<longrightarrow> up_closed u' \<and> fs' = fsv_fs s)"
proof (cases "up_closed u")
  case True
  with assms(3) uploads_okD(2) [OF assms(1,2)] show ?thesis by (auto simp: upload_Write_def)
next
  case False
  have step: "upload_inv se (u', fs') \<and> same_target u u' \<and> up_digest u' = up_digest u @ take n data"
    if "staged se u (fsv_fs s)" for se
    using upload_Write_step [OF _ assms(3), of se] that uploads_okD(2) [OF assms(1,2)] by (simp add: upload_inv_def)
  obtain se where "staged se u (fsv_fs s)" using uploads_okD(4) [OF assms(1,2) False] by blast
  from step [OF this] have "upload_counts u' \<and> up_digest u' = up_digest u @ take n data \<and> up_stage u' = up_stage u"
    by (simp add: upload_inv_def same_target_def)
  moreover have "private_change se i (fsv_fs s) fs' \<and> staged se u' fs'" if "staged se u (fsv_fs s)" "up_file u = Some i" for se i
    using step [OF that(1)] private_Write [OF assms(3) staged_resolve [OF that(1)] that(2)] by (simp add: upload_inv_def)
  ultimately show ?thesis using False by blast
qed

lemma Commit_child:
  assumes "uploads_ok s" "upload_of s sid = Some u" "upload_Commit sha env (u, fsv_fs s) = (e, (u', fs'))"
  shows "upload_counts u' \<and> up_digest u' = up_digest u \<and> up_stage u' = up_stage u \<and>
     (\<forall>se i. \<not> up_closed u \<and> staged se u (fsv_fs s) \<and> up_file u = Some i \<longrightarrow>
        private_change se i (fsv_fs s) fs' \<and> (\<not> up_closed u' \<longrightarrow> staged se u' fs')) \<and>
     (up_closed u \<longrightarrow> up_closed u' \<and> fs' = fsv_fs s)"
proof (cases "up_closed u")
  case True
  with assms(3) uploads_okD(2) [OF assms(1,2)] show ?thesis by (auto simp: upload_Commit_def split: if_splits)
next
  case False
  have nc: "\<not> up_committed u" using uploads_okD(2) [OF assms(1,2)] False by (simp add: upload_counts_def)
  have step: "upload_inv se (u', fs') \<and> same_target u u' \<and> up_digest u' = up_digest u"
    if "staged se u (fsv_fs s)" for se
    using upload_Commit_step [OF _ assms(3), of se] that uploads_okD(2) [OF assms(1,2)] by (simp add: upload_inv_def)
  obtain se where "staged se u (fsv_fs s)" using uploads_okD(4) [OF assms(1,2) False] by blast
  from step [OF this] have "upload_counts u' \<and> up_digest u' = up_digest u \<and> up_stage u' = up_stage u"
    by (simp add: upload_inv_def same_target_def)
  moreover have "private_change se i (fsv_fs s) fs' \<and> staged se u' fs'" if "staged se u (fsv_fs s)" "up_file u = Some i" for se i
    using step [OF that(1)] private_Commit [OF assms(3) that(1) False nc that(2)] by (simp add: upload_inv_def)
  ultimately show ?thesis using False by blast
qed

lemma fsv_writeFrame_keeps:
  "fsv_writeFrame env m s = (e, s') \<Longrightarrow> fsv_children s' = fsv_children s \<and> fsv_streams s' = fsv_streams s \<and>
     fsv_fs s' = fsv_fs s \<and> fsv_registry s' = fsv_registry s \<and> fsv_active s' = fsv_active s"
  by (auto simp: fsv_writeFrame_def fsv_note_def split: if_splits)

lemma fsv_data_inv:
  assumes "fsv_inv s" "fsv_data env f s = (e, s')"
  shows "fsv_inv s'"
proof -
  let ?sid = "f_stream f" and ?p = "f_payload f"
  consider "s' = s"
    | c u rc where "fsv_openChild ?sid s = Ok c" "fc_upload c = Some u" "credit_consume (fc_recv c) (of_nat (length ?p)) = Ok rc"
        "ValidateStreamData ?sid ?p = Ok ()" "fc_kind c = StreamKindFileUpload"
    using assms(2)
    by (cases "ValidateStreamData ?sid ?p"; cases "fsv_openChild ?sid s")
      (auto simp: fsv_data_def Let_def split: sum.splits option.splits bool.splits)
  then show ?thesis
  proof cases
    case 1
    then show ?thesis using assms(1) by simp
  next
    case 2
    from assms(1) have ok: "table_ok s" "uploads_ok s" by (simp_all add: fsv_inv_def)
    from fsv_openChild_Ok [OF 2(1)] have sid: "?sid \<in> fsv_streams s" "fsv_children s ?sid = Some c" by simp_all
    obtain n err u' fs' where w: "upload_Write (ev_write env ?sid ?p) ?p (u, fsv_fs s) = ((n, err), (u', fs'))"
      by (metis prod.collapse)
    have wc: "upload_of s ?sid = Some u" using sid(2) 2(2) by (simp add: upload_of_def)
    note wr = Write_child [OF ok(2) wc w]
    define c1 where "c1 = c\<lparr>fc_recv := rc, fc_upload := Some u'\<rparr>"
    define s1 where "s1 = fsv_note (FlStored ?sid (take n ?p)) (fsv_setChild ?sid c1 (s\<lparr>fsv_fs := fs'\<rparr>))"
    have i1: "fsv_inv s1"
      unfolding s1_def
      by (rule upload_step_inv [OF assms(1) sid 2(2), of c1 u'])
        (use wr in \<open>auto simp: c1_def\<close>)
    have s1: "fsv_children s1 ?sid = Some c1" "?sid \<in> fsv_streams s1"
      using sid(1) by (simp_all add: s1_def fsv_note_def fsv_setChild_def)
    show ?thesis
    proof (cases "err \<noteq> None \<or> n \<noteq> length ?p")
      case True
      then have "fsv_sendStreamError env ?sid ''upload_write_failed'' ''file upload failed'' (fsv_closeChild env ?sid s1) = (e, s')"
        using assms(2) 2 w by (auto simp: fsv_data_def Let_def s1_def c1_def)
      then show ?thesis using fsv_sendStreamError_inv fsv_closeChild_inv [OF i1] by blast
    next
      case False
      obtain x s2 where x: "fsv_writeFrame env (OutWindowUpdate ?sid (of_nat n)) s1 = (x, s2)" by fastforce
      have i2: "fsv_inv s2" using fsv_writeFrame_inv [OF i1 x] .
      have s2: "fsv_children s2 ?sid = Some c1" "?sid \<in> fsv_streams s2"
        using s1 fsv_writeFrame_keeps [OF x] by simp_all
      have "s' = fsv_closeChild env ?sid s2 \<or> (\<exists>rc2. s' = fsv_setChild ?sid (c\<lparr>fc_recv := rc2, fc_upload := Some u'\<rparr>) s2)"
        using assms(2) 2 w x False by (auto simp: fsv_data_def Let_def s1_def c1_def split: option.splits sum.splits)
      moreover have "fsv_inv (fsv_setChild ?sid (c\<lparr>fc_recv := rc2, fc_upload := Some u'\<rparr>) s2)" for rc2
        by (rule fsv_setChild_inv [OF i2 s2(2,1)]) (use table_child_open [OF ok(1) sid] in \<open>simp_all add: c1_def\<close>)
      ultimately show ?thesis using fsv_closeChild_inv [OF i2] by auto
    qed
  qed
qed

lemma fsv_setOpen_inv:
  assumes "fsv_inv s" "fsv_openChild sid s = Ok c" "fc_kind c' = fc_kind c" "fc_done c' = fc_done c" "fc_upload c' = fc_upload c"
  shows "fsv_inv (fsv_setChild sid c' s)"
proof -
  have sid: "sid \<in> fsv_streams s" "fsv_children s sid = Some c" using fsv_openChild_Ok [OF assms(2)] by simp_all
  have "\<not> fc_done c'" using table_child_open [OF _ sid] assms(1,4) by (simp add: fsv_inv_def)
  from fsv_setChild_inv [OF assms(1) sid assms(3) this assms(5)] show ?thesis .
qed

lemma fsv_windowUpdate_inv: "fsv_inv s \<Longrightarrow> fsv_windowUpdate cd f s = (e, s') \<Longrightarrow> fsv_inv s'"
  by (auto simp: fsv_windowUpdate_def split: sum.splits if_splits intro!: fsv_setOpen_inv)

lemma fsv_peerError_inv: "fsv_inv s \<Longrightarrow> fsv_peerError env cd f s = (e, s') \<Longrightarrow> fsv_inv s'"
  by (auto simp: fsv_peerError_def split: sum.splits intro: fsv_sendClose_inv fsv_closeChild_inv [THEN conjunct1])

lemma table_tweak:
  assumes "table_ok s" "fsv_children s sid = Some c" "fc_kind c' = fc_kind c" "fc_done c' = fc_done c" "fc_upload c' = fc_upload c"
    and "fsv_registry s' = fsv_registry s" "fsv_streams s' = fsv_streams s" "fsv_active s' = fsv_active s"
      "fsv_children s' = (fsv_children s)(sid \<mapsto> c')"
  shows "table_ok s'"
proof (cases "sid \<in> fsv_streams s")
  case True
  then show ?thesis
    using table_set [OF assms(1) True assms(2,3) _ assms(6-9)] table_child_open [OF assms(1) True assms(2)] assms(4) by simp
next
  case False
  have old: "fc_done c" "\<And>u. fc_upload c = Some u \<Longrightarrow> up_closed u" using table_okD(6,7) [OF assms(1,2) False] by auto
  have reg: "fsv_registry s sid \<noteq> None" using table_okD(9) [OF assms(1), of sid] assms(2) by auto
  show ?thesis
    unfolding table_ok_def assms(6-9)
  proof (intro conjI ballI allI impI)
    fix t assume t: "t \<in> fsv_streams s"
    then have "t \<noteq> sid" using False by auto
    then show "\<exists>ca. ((fsv_children s)(sid \<mapsto> c')) t = Some ca \<and> \<not> fc_done ca \<and>
        fc_kind ca \<in> {StreamKindFileUpload, StreamKindFileDownload} \<and>
        fsv_registry s t = Some \<lparr>sr_kind = fc_kind ca, sr_state = StreamOpen\<rparr>"
      using table_okD(5) [OF assms(1) t] by simp
  next
    fix t d assume "((fsv_children s)(sid \<mapsto> c')) t = Some d \<and> t \<notin> fsv_streams s"
    then show "fc_done d" "\<And>u. fc_upload d = Some u \<Longrightarrow> up_closed u"
      using table_okD(6,7) [OF assms(1), of t] old assms(4,5) by (auto split: if_splits)
  next
    fix t assume "fsv_registry s t = None"
    then show "((fsv_children s)(sid \<mapsto> c')) t = None" using table_okD(9) [OF assms(1), of t] reg by auto
  qed (use table_okD(1-4,8) [OF assms(1)] in auto)
qed

lemma fsv_tweak_inv:
  assumes "fsv_inv s" "fsv_children s sid = Some c" "fc_kind c' = fc_kind c" "fc_done c' = fc_done c" "fc_upload c' = fc_upload c"
  shows "fsv_inv (fsv_setChild sid c' s)"
  using assms table_tweak [OF _ assms(2-5), of "fsv_setChild sid c' s"]
    uploads_ok_no_upload [OF _ assms(2,5), of "fsv_setChild sid c' s"]
  by (simp add: fsv_inv_def fsv_setChild_def)

lemma fsv_stopForward_inv: "fsv_inv s \<Longrightarrow> fsv_inv (fsv_stopForward sid s)"
  by (auto simp: fsv_stopForward_def intro: fsv_tweak_inv split: option.splits)

lemma fsv_finishDownload_inv: "fsv_inv s \<Longrightarrow> fsv_inv (fsv_finishDownload env sid s)"
  by (auto simp: fsv_finishDownload_def intro!: fsv_stopForward_inv fsv_closeChild_inv [THEN conjunct1]
      intro: fsv_sendClose_inv split: prod.splits option.splits)

lemma fsv_abortDownload_inv: "fsv_inv s \<Longrightarrow> fsv_inv (fsv_abortDownload env sid s)"
  by (simp add: fsv_abortDownload_def fsv_stopForward_inv fsv_closeChild_inv)

definition fsv_readFailed :: "fsrv_env \<Rightarrow> u32 \<Rightarrow> file_server \<Rightarrow> file_server" where
  "fsv_readFailed env sid s =
     fsv_stopForward sid
       (snd (fsv_sendStreamError env sid ''download_read_failed'' ''file download failed'' (fsv_closeChild env sid s)))"

lemma fsv_readFailed_inv: "fsv_inv s \<Longrightarrow> fsv_inv (fsv_readFailed env sid s)"
  unfolding fsv_readFailed_def
  by (intro fsv_stopForward_inv) (metis fsv_closeChild_inv fsv_sendStreamError_inv prod.collapse)

lemma fsv_forwardDownload_cases:
  obtains (same) "fsv_forwardDownload env sid answer s = s"
  | (idle) c d' f where "fsv_children s sid = Some c"
      "f \<in> {fsv_stopForward sid, \<lambda>x. x, fsv_finishDownload env sid, fsv_readFailed env sid}"
      "fsv_forwardDownload env sid answer s = f (fsv_setChild sid (c\<lparr>fc_download := d'\<rparr>) s)"
  | (failed) c d' rem where "fsv_children s sid = Some c"
      "fsv_forwardDownload env sid answer s =
         fsv_abortDownload env sid (fsv_setChild sid (c\<lparr>fc_download := d', fc_remaining := rem\<rparr>) s)"
  | (sent) c d d' bs err sc w s2 f where "fsv_children s sid = Some c" "fc_download c = Some d" "fc_forwarding c" "\<not> fc_done c"
      "fc_remaining c \<noteq> 0" "download_Read answer (forward_limit (credit_available (fc_send c)) (fc_remaining c)) d = ((bs, err), d')"
      "bs \<noteq> []" "credit_consume (fc_send c) (of_nat (length bs)) = Ok sc"
      "fsv_writeFrame env (OutData sid bs)
         (fsv_setChild sid (c\<lparr>fc_download := Some d', fc_remaining := (if length bs \<le> unat (fc_remaining c)
              then fc_remaining c - of_nat (length bs) else fc_remaining c), fc_send := sc\<rparr>) s) = (w, s2)"
      "f \<in> {fsv_abortDownload env sid, \<lambda>x. x, fsv_finishDownload env sid, fsv_readFailed env sid}"
      "fsv_forwardDownload env sid answer s = f s2"
proof (cases "fsv_children s sid")
  case None
  then show ?thesis by (intro same) (simp add: fsv_forwardDownload_def)
next
  case (Some c)
  show ?thesis
  proof (cases "fc_forwarding c \<and> fc_download c \<noteq> None \<and> fc_remaining c \<noteq> 0 \<and> credit_available (fc_send c) \<noteq> 0")
    case False
    have "c = c\<lparr>fc_download := fc_download c\<rparr>" "s = fsv_setChild sid c s"
      using Some by (simp_all add: fsv_setChild_def fun_upd_idem)
    then have e: "s = fsv_setChild sid (c\<lparr>fc_download := fc_download c\<rparr>) s" by simp
    have "fsv_forwardDownload env sid answer s \<in> {s, fsv_stopForward sid s, fsv_finishDownload env sid s}"
      using Some False by (auto simp: fsv_forwardDownload_def split: option.splits bool.splits)
    then show ?thesis
      using same idle [OF Some, of "fsv_stopForward sid" "fc_download c"]
        idle [OF Some, of "fsv_finishDownload env sid" "fc_download c"] e by auto
  next
    case True
    then obtain d where d: "fc_download c = Some d" by blast
    obtain bs err d' where r: "download_Read answer (forward_limit (credit_available (fc_send c)) (fc_remaining c)) d = ((bs, err), d')"
      by (metis prod.collapse)
    show ?thesis
    proof (cases "fc_done c \<or> bs = []")
      case idl: True
      have "\<exists>f \<in> {fsv_stopForward sid, \<lambda>x. x, fsv_finishDownload env sid, fsv_readFailed env sid}.
          fsv_forwardDownload env sid answer s = f (fsv_setChild sid (c\<lparr>fc_download := Some d'\<rparr>) s)"
        using Some True d r idl
        by (auto simp: fsv_forwardDownload_def Let_def fsv_readFailed_def split: option.splits io_error.splits)
      then show ?thesis using idle [OF Some, of _ "Some d'"] by blast
    next
      case snd: False
      define rem where "rem = (if length bs \<le> unat (fc_remaining c) then fc_remaining c - of_nat (length bs) else fc_remaining c)"
      show ?thesis
      proof (cases "credit_consume (fc_send c) (of_nat (length bs))")
        case (Inl x)
        with Some True d r snd show ?thesis
          by (intro failed [OF Some, of rem "Some d'"]) (simp add: fsv_forwardDownload_def rem_def)
      next
        case (Inr sc)
        obtain w s2 where w: "fsv_writeFrame env (OutData sid bs)
            (fsv_setChild sid (c\<lparr>fc_download := Some d', fc_remaining := rem, fc_send := sc\<rparr>) s) = (w, s2)" by fastforce
        have "\<exists>f \<in> {fsv_abortDownload env sid, \<lambda>x. x, fsv_finishDownload env sid, fsv_readFailed env sid}.
            fsv_forwardDownload env sid answer s = f s2"
          using Some True d r snd Inr w
          by (auto simp: fsv_forwardDownload_def Let_def fsv_readFailed_def rem_def [symmetric] split: option.splits io_error.splits if_splits)
        then obtain f where f: "f \<in> {fsv_abortDownload env sid, \<lambda>x. x, fsv_finishDownload env sid, fsv_readFailed env sid}"
          "fsv_forwardDownload env sid answer s = f s2" by blast
        have t: "fc_forwarding c" "\<not> fc_done c" "fc_remaining c \<noteq> 0" "bs \<noteq> []" using True snd by auto
        show ?thesis by (rule sent [OF Some d t(1-3) r t(4) Inr w [unfolded rem_def] f])
      qed
    qed
  qed
qed

lemma fsv_forwardDownload_inv:
  assumes "fsv_inv s"
  shows "fsv_inv (fsv_forwardDownload env sid answer s)"
proof (cases rule: fsv_forwardDownload_cases [of env sid answer s])
  case same
  then show ?thesis using assms by simp
next
  case (idle c d' f)
  have "fsv_inv (fsv_setChild sid (c\<lparr>fc_download := d'\<rparr>) s)" by (rule fsv_tweak_inv [OF assms idle(1)]) simp_all
  with idle(2,3) show ?thesis
    using fsv_stopForward_inv fsv_finishDownload_inv fsv_readFailed_inv by auto
next
  case (failed c d' rem)
  have "fsv_inv (fsv_setChild sid (c\<lparr>fc_download := d', fc_remaining := rem\<rparr>) s)"
    by (rule fsv_tweak_inv [OF assms failed(1)]) simp_all
  then show ?thesis unfolding failed(2) by (rule fsv_abortDownload_inv)
next
  case (sent c d d' bs err sc w s2 f)
  have "fsv_inv s2"
    by (rule fsv_writeFrame_inv [OF _ sent(9)], rule fsv_tweak_inv [OF assms sent(1)]) simp_all
  with sent(10,11) show ?thesis
    using fsv_abortDownload_inv fsv_finishDownload_inv fsv_readFailed_inv by auto
qed

lemma fsv_note_nothing: "fsv_inv (fsv_note (FlStored sid []) s) \<longleftrightarrow> fsv_inv s"
proof -
  have "stored t [FlStored sid []] = []" for t by simp
  then have "uploads_ok (fsv_note (FlStored sid []) s) \<longleftrightarrow> uploads_ok s"
    by (intro uploads_ok_cong) (simp_all add: fsv_note_def)
  moreover have "table_ok (fsv_note (FlStored sid []) s) \<longleftrightarrow> table_ok s" by (rule table_ok_cong) (simp_all add: fsv_note_def)
  ultimately show ?thesis by (simp add: fsv_inv_def)
qed

lemma fsv_commit_inv:
  assumes "fsv_inv s" "fsv_openChild sid s = Ok c" "fc_upload c = Some u"
    and "upload_Commit sha env (u, fsv_fs s) = (e, (u', fs'))"
  shows "fsv_inv (fsv_setChild sid (c\<lparr>fc_upload := Some u'\<rparr>) (s\<lparr>fsv_fs := fs'\<rparr>))"
proof -
  have sid: "sid \<in> fsv_streams s" "fsv_children s sid = Some c" using fsv_openChild_Ok [OF assms(2)] by simp_all
  have u: "upload_of s sid = Some u" using sid(2) assms(3) by (simp add: upload_of_def)
  have "fsv_inv (fsv_note (FlStored sid []) (fsv_setChild sid (c\<lparr>fc_upload := Some u'\<rparr>) (s\<lparr>fsv_fs := fs'\<rparr>)))"
    by (rule upload_step_inv [OF assms(1) sid assms(3), of _ u'])
      (use Commit_child [OF _ u assms(4)] assms(1) in \<open>auto simp: fsv_inv_def\<close>)
  then show ?thesis by (simp only: fsv_note_nothing)
qed

lemma fsv_peerClose_cases:
  assumes "fsv_peerClose env cd f s = (e, s')"
  obtains (unchanged) "s' = s" "e \<noteq> None"
  | (upload) c u err u' fs' s1 where "fsv_openChild (f_stream f) s = Ok c" "fc_upload c = Some u"
      "upload_Commit (ev_sha256 env) (ev_commit env (f_stream f)) (u, fsv_fs s) = (err, (u', fs'))"
      "s1 = fsv_closeChild env (f_stream f) (fsv_setChild (f_stream f) (c\<lparr>fc_upload := Some u'\<rparr>) (s\<lparr>fsv_fs := fs'\<rparr>))"
      "(if err \<noteq> None then fsv_sendStreamError env (f_stream f) ''upload_commit_failed''
          ''file upload validation or commit failed'' s1
        else fsv_sendClose env (f_stream f) ''peer_close'' s1) = (e, s')"
  | (download) c where "fsv_openChild (f_stream f) s = Ok c" "fc_kind c = StreamKindFileDownload"
      "(if fc_remaining c = 0 then (None, fsv_closeChild env (f_stream f) s)
        else fsv_sendClose env (f_stream f) ''peer_close'' (fsv_closeChild env (f_stream f) s)) = (e, s')"
proof (cases "q_close cd (f_payload f)")
  case (Inl x)
  then show ?thesis using assms by (intro unchanged) (auto simp: fsv_peerClose_def Let_def)
next
  case (Inr cm)
  show ?thesis
  proof (cases "ValidateStreamClose (f_stream f) cm")
    case (Inl x)
    then show ?thesis using assms Inr by (intro unchanged) (auto simp: fsv_peerClose_def Let_def)
  next
    case v: (Inr x)
    show ?thesis
    proof (cases "fsv_openChild (f_stream f) s")
      case (Inl x)
      then show ?thesis using assms Inr v by (intro unchanged) (auto simp: fsv_peerClose_def Let_def)
    next
      case c: (Inr c)
      show ?thesis
      proof (cases "fc_kind c = StreamKindFileUpload \<and> fc_upload c \<noteq> None")
        case True
        then obtain u where u: "fc_upload c = Some u" by blast
        obtain err u' fs' where cm': "upload_Commit (ev_sha256 env) (ev_commit env (f_stream f)) (u, fsv_fs s) = (err, (u', fs'))"
          by (metis prod.collapse)
        show ?thesis
          by (rule upload [OF c u cm' refl])
            (use assms Inr v c True u cm' in \<open>auto simp: fsv_peerClose_def Let_def\<close>)
      next
        case False
        then have o: "(e, s') = (if fc_kind c \<noteq> StreamKindFileDownload then (Some ProtoStreamKind, s)
            else let s1 = fsv_closeChild env (f_stream f) s in
              if fc_remaining c = 0 then (None, s1) else fsv_sendClose env (f_stream f) ''peer_close'' s1)"
          using assms Inr v c by (cases "fc_upload c"; cases "fc_kind c = StreamKindFileUpload") (auto simp: fsv_peerClose_def Let_def)
        show ?thesis
        proof (cases "fc_kind c = StreamKindFileDownload")
          case True
          with o show ?thesis by (intro download [OF c]) (simp_all add: Let_def)
        next
          case False
          with o show ?thesis by (intro unchanged) simp_all
        qed
      qed
    qed
  qed
qed

lemma fsv_peerClose_inv:
  assumes "fsv_inv s" "fsv_peerClose env cd f s = (e, s')"
  shows "fsv_inv s'"
  using assms(2)
proof (cases rule: fsv_peerClose_cases)
  case unchanged
  then show ?thesis using assms(1) by simp
next
  case (upload c u err u' fs' s1)
  have "fsv_inv s1"
    unfolding upload(4) using fsv_closeChild_inv [OF fsv_commit_inv [OF assms(1) upload(1-3)]] by blast
  with upload(5) show ?thesis using fsv_sendStreamError_inv fsv_sendClose_inv by (metis (no_types, lifting))
next
  case (download c)
  then show ?thesis using fsv_closeChild_inv [OF assms(1), of env "f_stream f"] fsv_sendClose_inv by (auto split: if_splits)
qed

lemma fsv_Handle_inv: "fsv_inv s \<Longrightarrow> fsv_Handle env cd f s = (e, s') \<Longrightarrow> fsv_inv s'"
  by (auto simp: fsv_Handle_def split: if_splits
      intro: fsv_open_inv fsv_data_inv fsv_windowUpdate_inv fsv_peerClose_inv fsv_peerError_inv)

lemma fold_closeChild_inv:
  "fsv_inv s \<Longrightarrow> fsv_inv (fold (fsv_closeChild env) xs s) \<and>
     fsv_streams (fold (fsv_closeChild env) xs s) = fsv_streams s - set xs"
proof (induction xs arbitrary: s)
  case (Cons x xs)
  have i: "fsv_inv (fsv_closeChild env x s)" using fsv_closeChild_inv [OF Cons.prems] by blast
  have "fsv_streams (fsv_closeChild env x s) = fsv_streams s - {x}"
    using table_okD(5) [of s x] Cons.prems
    by (auto simp: fsv_inv_def fsv_closeChild_def fsv_closeOnce_def fsv_registryClose_def fsv_setChild_def
        split: option.splits sum.splits prod.splits)
  with Cons.IH [OF i] show ?case by auto
qed simp

lemma fsv_CloseAll_inv:
  assumes "fsv_inv s"
  shows "fsv_inv (fsv_CloseAll env s) \<and> fsv_streams (fsv_CloseAll env s) = {}"
  using fold_closeChild_inv [OF assms, of env "sorted_list_of_set (fsv_streams s)"] assms
  by (simp add: fsv_CloseAll_def fsv_inv_def table_okD(2))

end
