(* ===== verification/File_Runs.thy ===== *)
theory File_Runs
  imports File_Server
begin

text \<open>
  Runs of the file stream engine: the invariant of \<open>File_Server\<close> lifted to every interleaving of
  peer frames, download passes, other processes and shutdown, the authorization of every
  upload, and the properties of the engine.
\<close>

section \<open>Runs of the engine\<close>

text \<open>
  A run interleaves the frames of the peer, the passes of the download goroutines, the end of
  the connection, changes of the tree by other processes, which leave the staging entries
  of open uploads alone, and calls of the shared registry by the engines of other kinds.
\<close>

definition others_allowed :: "file_server \<Rightarrow> fsys \<Rightarrow> bool" where
  "others_allowed s fs \<longleftrightarrow> fs_ok fs \<and>
     (\<forall>sid u. upload_of s sid = Some u \<and> \<not> up_closed u \<longrightarrow>
        (\<exists>se. fs_resolve (fsv_fs s) (up_stage u) = Some se \<and> others_ok se u (fsv_fs s) fs))"

inductive fsv_reach :: "registry option \<Rightarrow> fsys \<Rightarrow> file_server \<Rightarrow> bool" for r0 fs0 where
  start: "fsv_reach r0 fs0 (newTypedFileServer r0 fs0)"
| frame: "fsv_reach r0 fs0 s \<Longrightarrow> fsv_Handle env cd f s = (e, s') \<Longrightarrow> fsv_reach r0 fs0 s'"
| forward: "fsv_reach r0 fs0 s \<Longrightarrow> fsv_reach r0 fs0 (fsv_forwardDownload env sid answer s)"
| others: "fsv_reach r0 fs0 s \<Longrightarrow> others_allowed s fs \<Longrightarrow> fsv_reach r0 fs0 (s\<lparr>fsv_fs := fs\<rparr>)"
| shutdown: "fsv_reach r0 fs0 s \<Longrightarrow> fsv_reach r0 fs0 (fsv_CloseAll env s)"
| shared: "fsv_reach r0 fs0 s \<Longrightarrow> op_kind op \<notin> {StreamKindFileUpload, StreamKindFileDownload} \<Longrightarrow>
     fsv_reach r0 fs0 (s\<lparr>fsv_registry := registry_step (fsv_registry s) op\<rparr>)"

lemma others_inv:
  assumes "fsv_inv s" "others_allowed s fs"
  shows "fsv_inv (s\<lparr>fsv_fs := fs\<rparr>)"
proof -
  from assms(1) have ok: "table_ok s" "uploads_ok s" by (simp_all add: fsv_inv_def)
  have t: "table_ok (s\<lparr>fsv_fs := fs\<rparr>) \<longleftrightarrow> table_ok s" by (rule table_ok_cong) simp_all
  have st: "\<exists>se. staged se u fs \<and> staged se u (fsv_fs s)" if w: "upload_of s sid = Some u" "\<not> up_closed u" for sid u
  proof -
    obtain se where se: "staged se u (fsv_fs s)" using uploads_okD(4) [OF ok(2) w] by blast
    have "others_ok se u (fsv_fs s) fs"
      using assms(2) w staged_resolve [OF se] unfolding others_allowed_def by (metis option.inject)
    from others_keep_inv [OF _ this] se uploads_okD(2) [OF ok(2) w(1)] have "staged se u fs" by (simp add: upload_inv_def)
    with se show ?thesis by blast
  qed
  have up: "upload_of (s\<lparr>fsv_fs := fs\<rparr>) = upload_of s" by (simp add: upload_of_def fun_eq_iff)
  have "uploads_ok (s\<lparr>fsv_fs := fs\<rparr>)"
    unfolding uploads_ok_def up
  proof (intro conjI allI impI)
    show "fs_ok (fsv_fs (s\<lparr>fsv_fs := fs\<rparr>))" using assms(2) by (simp add: others_allowed_def)
  next
    fix sid u assume u: "upload_of s sid = Some u"
    show "upload_counts u" using uploads_okD(2) [OF ok(2) u] .
    show "up_digest u = stored sid (fsv_log (s\<lparr>fsv_fs := fs\<rparr>))" using uploads_okD(3) [OF ok(2) u] by simp
    show "\<exists>se. staged se u (fsv_fs (s\<lparr>fsv_fs := fs\<rparr>))" if "\<not> up_closed u" using st [OF u that] by auto
  next
    fix a b u v
    assume "a \<noteq> b \<and> upload_of s a = Some u \<and> upload_of s b = Some v \<and> \<not> up_closed u \<and> \<not> up_closed v"
    then show "fs_resolve (fsv_fs (s\<lparr>fsv_fs := fs\<rparr>)) (up_stage u) \<noteq> fs_resolve (fsv_fs (s\<lparr>fsv_fs := fs\<rparr>)) (up_stage v)"
      using st [of a u] st [of b v] uploads_okD(5) [OF ok(2), of a b u v] by (auto dest!: staged_resolve)
  next
    fix sid assume "fsv_children (s\<lparr>fsv_fs := fs\<rparr>) sid = None"
    then show "stored sid (fsv_log (s\<lparr>fsv_fs := fs\<rparr>)) = []" using uploads_okD(6) [OF ok(2)] by simp
  qed
  with t ok(1) show ?thesis by (simp add: fsv_inv_def)
qed

lemma shared_inv:
  assumes "fsv_inv s" "op_kind op \<notin> {StreamKindFileUpload, StreamKindFileDownload}"
  shows "fsv_inv (s\<lparr>fsv_registry := registry_step (fsv_registry s) op\<rparr>)"
proof -
  let ?s = "s\<lparr>fsv_registry := registry_step (fsv_registry s) op\<rparr>"
  from assms(1) have ok: "table_ok s" "uploads_ok s" by (simp_all add: fsv_inv_def)
  have ri: "registry_inv (fsv_registry s)" using table_okD(1) [OF ok(1)] .
  have "uploads_ok ?s" using ok(2) uploads_ok_cong [of ?s s] by simp
  moreover have "table_ok ?s"
    unfolding table_ok_def
  proof (intro conjI ballI allI impI)
    show "registry_inv (fsv_registry ?s)" using registry_step_inv [OF ri] by simp
    fix sid
    show "\<exists>c. fsv_children ?s sid = Some c \<and> \<not> fc_done c \<and> fc_kind c \<in> {StreamKindFileUpload, StreamKindFileDownload} \<and>
        fsv_registry ?s sid = Some \<lparr>sr_kind = fc_kind c, sr_state = StreamOpen\<rparr>" if m: "sid \<in> fsv_streams ?s"
    proof -
      obtain c where c: "fsv_children s sid = Some c" "\<not> fc_done c"
        "fc_kind c \<in> {StreamKindFileUpload, StreamKindFileDownload}"
        "fsv_registry s sid = Some \<lparr>sr_kind = fc_kind c, sr_state = StreamOpen\<rparr>"
        using table_okD(5) [OF ok(1), of sid] m by auto
      then have "registry_step (fsv_registry s) op sid = Some \<lparr>sr_kind = fc_kind c, sr_state = StreamOpen\<rparr>"
        using assms(2) by (intro registry_step_other(1) [OF ri]) auto
      with c show ?thesis by simp
    qed
    show "fsv_children ?s sid = None" if "fsv_registry ?s sid = None"
    proof -
      have "fsv_registry s sid = None" using that registry_step_dom [OF ri, of op] by (auto simp: dom_def)
      then show ?thesis using table_okD(9) [OF ok(1)] by simp
    qed
    show "live_streams (fsv_registry ?s) StreamKindFileUpload \<union> live_streams (fsv_registry ?s) StreamKindFileDownload
        \<subseteq> fsv_streams ?s"
      using table_okD(8) [OF ok(1)] live_streams_step [OF ri] assms(2) by simp
  qed (use table_okD(2,3,4,6,7) [OF ok(1)] in auto)
  ultimately show ?thesis by (simp add: fsv_inv_def)
qed

definition start_ok :: "registry option \<Rightarrow> fsys \<Rightarrow> bool" where
  "start_ok r0 fs0 \<longleftrightarrow> fs_ok fs0 \<and>
     (case r0 of None \<Rightarrow> True
      | Some r \<Rightarrow> registry_inv r \<and> live_streams r StreamKindFileUpload = {} \<and> live_streams r StreamKindFileDownload = {})"

lemma start_inv:
  assumes "start_ok r0 fs0"
  shows "fsv_inv (newTypedFileServer r0 fs0)"
proof -
  have "table_ok (newTypedFileServer r0 fs0)"
    using assms registry_inv_new
    by (cases r0)
      (auto simp: table_ok_def newTypedFileServer_def start_ok_def live_streams_def newTypedParentStreamRegistry_def)
  moreover have "uploads_ok (newTypedFileServer r0 fs0)"
    using assms by (simp add: uploads_ok_def newTypedFileServer_def upload_of_def start_ok_def)
  ultimately show ?thesis by (simp add: fsv_inv_def)
qed

lemma fsv_reach_inv: "fsv_reach r0 fs0 s \<Longrightarrow> start_ok r0 fs0 \<Longrightarrow> fsv_inv s"
proof (induction rule: fsv_reach.induct)
  case start
  then show ?case by (rule start_inv)
next
  case (frame s env cd f e s')
  then show ?case using fsv_Handle_inv by blast
next
  case (forward s env sid answer)
  then show ?case using fsv_forwardDownload_inv by blast
next
  case (others s fs)
  then show ?case using others_inv by blast
next
  case (shutdown s env)
  then show ?case using fsv_CloseAll_inv by blast
next
  case (shared s op)
  then show ?case using shared_inv by blast
qed

section \<open>Every upload was authorized\<close>

text \<open>The log only grows, and an upload that appears was authorized for its destination.\<close>

definition grows :: "file_server \<Rightarrow> file_server \<Rightarrow> bool" where
  "grows s s' \<longleftrightarrow> set (fsv_log s) \<subseteq> set (fsv_log s') \<and>
     (\<forall>t u'. upload_of s' t = Some u' \<longrightarrow>
        (\<exists>u. upload_of s t = Some u \<and> up_destination u' = up_destination u) \<or>
        FlAuthorized t FileTransferUpload (up_destination u') True \<in> set (fsv_log s'))"

definition uploads_authorized :: "file_server \<Rightarrow> bool" where
  "uploads_authorized s \<longleftrightarrow> (\<forall>t u. upload_of s t = Some u \<longrightarrow>
     FlAuthorized t FileTransferUpload (up_destination u) True \<in> set (fsv_log s))"

lemma grows_authorized: "grows s s' \<Longrightarrow> uploads_authorized s \<Longrightarrow> uploads_authorized s'"
  unfolding grows_def uploads_authorized_def by (metis subsetD)

lemma growsI:
  assumes "set (fsv_log s) \<subseteq> set (fsv_log s')"
    and "\<And>t u'. upload_of s' t = Some u' \<Longrightarrow>
        (\<exists>u. upload_of s t = Some u \<and> up_destination u' = up_destination u) \<or>
        FlAuthorized t FileTransferUpload (up_destination u') True \<in> set (fsv_log s')"
  shows "grows s s'"
  using assms by (auto simp: grows_def)

lemma grows_refl [simp]: "grows s s"
  by (simp add: grows_def)

lemma grows_trans: "grows s s1 \<Longrightarrow> grows s1 s2 \<Longrightarrow> grows s s2"
  unfolding grows_def by (metis subsetD subset_trans)

lemma grows_same_children:
  "fsv_children s' = fsv_children s \<Longrightarrow> set (fsv_log s) \<subseteq> set (fsv_log s') \<Longrightarrow> grows s s'"
  by (simp add: grows_def upload_of_def)

lemma grows_setChild:
  assumes "set (fsv_log s) \<subseteq> set (fsv_log s')" "fsv_children s' = (fsv_children s)(sid \<mapsto> c')"
    and "\<And>u'. fc_upload c' = Some u' \<Longrightarrow> \<exists>u. upload_of s sid = Some u \<and> up_destination u' = up_destination u"
  shows "grows s s'"
proof (rule growsI [OF assms(1)])
  fix t u' assume "upload_of s' t = Some u'"
  then have "\<exists>u. upload_of s t = Some u \<and> up_destination u' = up_destination u"
    using assms(2,3) by (cases "t = sid") (auto simp: upload_of_def)
  then show "(\<exists>u. upload_of s t = Some u \<and> up_destination u' = up_destination u) \<or>
      FlAuthorized t FileTransferUpload (up_destination u') True \<in> set (fsv_log s')" ..
qed

lemma grows_note: "grows s (fsv_note e s)"
  by (rule grows_same_children) (auto simp: fsv_note_def)

lemma grows_writeFrame: "fsv_writeFrame env m s = (e, s') \<Longrightarrow> grows s s'"
  by (auto simp: fsv_writeFrame_def grows_note split: if_splits)

lemma grows_sendStreamError: "fsv_sendStreamError env sid c m s = (e, s') \<Longrightarrow> grows s s'"
  by (auto simp: fsv_sendStreamError_def grows_writeFrame split: sum.splits)

lemma grows_sendClose: "fsv_sendClose env sid c s = (e, s') \<Longrightarrow> grows s s'"
  by (auto simp: fsv_sendClose_def grows_writeFrame split: sum.splits)

lemma registryClose_keeps [simp]:
  "fsv_children (fsv_registryClose sid k s) = fsv_children s" "fsv_log (fsv_registryClose sid k s) = fsv_log s"
  "fsv_fs (fsv_registryClose sid k s) = fsv_fs s"
  by (auto simp: fsv_registryClose_def split: sum.splits)

lemma Cancel_destination: "up_destination (fst (snd (upload_Cancel env (u, fs)))) = up_destination u"
  by (auto simp: upload_Cancel_def Let_def split: prod.splits)

lemma grows_closeChild: "grows s (fsv_closeChild env sid s)"
proof (cases "sid \<in> fsv_streams s \<and> (\<exists>c. fsv_children s sid = Some c \<and> \<not> fc_done c)")
  case False
  then show ?thesis
    by (auto simp: fsv_closeChild_def fsv_closeOnce_def intro!: grows_same_children split: option.splits)
next
  case True
  then obtain c where c: "sid \<in> fsv_streams s" "fsv_children s sid = Some c" "\<not> fc_done c" by blast
  define up fs where "up = (case fc_upload c of None \<Rightarrow> None
      | Some u \<Rightarrow> Some (fst (snd (upload_Cancel (ev_cancel env sid) (u, fsv_fs s)))))"
    and "fs = (case fc_upload c of None \<Rightarrow> fsv_fs s
      | Some u \<Rightarrow> snd (snd (upload_Cancel (ev_cancel env sid) (u, fsv_fs s))))"
  have e: "fsv_children (fsv_closeChild env sid s) = (fsv_children s)(sid \<mapsto>
      c\<lparr>fc_done := True, fc_upload := up, fc_download := map_option download_Close (fc_download c)\<rparr>)"
    "fsv_log (fsv_closeChild env sid s) = fsv_log s"
    using c by (auto simp: fsv_closeChild_def fsv_closeOnce_def fsv_setChild_def up_def split: option.splits prod.splits)
  show ?thesis
    by (rule grows_setChild [OF _ e(1)])
      (use e(2) c(2) in \<open>auto simp: up_def upload_of_def Cancel_destination split: option.splits\<close>)
qed

lemma grows_reserve: "fsv_reserve env sid k s = (out, s1) \<Longrightarrow> fsv_children s1 = fsv_children s \<and> set (fsv_log s) \<subseteq> set (fsv_log s1)"
  by (auto simp: fsv_reserve_def fsv_sendStreamError_def fsv_writeFrame_def fsv_note_def Let_def
      split: sum.splits if_splits prod.splits option.splits)

lemma release_keeps [simp]:
  "fsv_children (fsv_releaseReservation sid k s) = fsv_children s" "fsv_log (fsv_releaseReservation sid k s) = fsv_log s"
  by (simp_all add: fsv_releaseReservation_def Let_def)

lemma grows_rejected:
  assumes "fsv_children h = fsv_children s" "set (fsv_log s) \<subseteq> set (fsv_log h)"
    and "fsv_sendStreamError env sid c m (fsv_releaseReservation sid k h) = (e, s')"
  shows "grows s s'"
  using grows_trans [OF _ grows_sendStreamError [OF assms(3)]] assms(1,2)
  by (simp add: grows_same_children)

lemma activate_keeps:
  "fsv_activate sid c s = (e, s') \<Longrightarrow> fsv_log s' = fsv_log s \<and>
     (fsv_children s' = (fsv_children s)(sid \<mapsto> c) \<or> fsv_children s' = (fsv_children s)(sid := None))"
  by (auto simp: fsv_activate_def fsv_setChild_def Let_def split: sum.splits)

lemma upload_of_after:
  "fsv_children s' = (fsv_children s)(sid \<mapsto> c) \<or> fsv_children s' = (fsv_children s)(sid := None) \<Longrightarrow>
   upload_of s' t = Some u \<Longrightarrow> upload_of s t = Some u \<or> (t = sid \<and> fc_upload c = Some u)"
  by (auto simp: upload_of_def split: if_splits option.splits)

lemma grows_openUpload:
  assumes "fsv_openUpload env sid m s = (e, s')"
  shows "grows s s'"
proof -
  obtain out s1 where r: "fsv_reserve env sid StreamKindFileUpload s = (out, s1)" by fastforce
  note k1 = grows_reserve [OF r]
  obtain ok s2 where a: "fsv_authorize env sid FileTransferUpload (fu_path m) s1 = (ok, s2)" by fastforce
  then have s2: "s2 = fsv_note (FlAuthorized sid FileTransferUpload (fu_path m) ok) s1"
    by (auto simp: fsv_authorize_def Let_def)
  have k2: "fsv_children s2 = fsv_children s" "set (fsv_log s) \<subseteq> set (fsv_log s2)" using k1 by (auto simp: s2 fsv_note_def)
  show ?thesis
  proof (cases "out = Reserved")
    case False
    then show ?thesis using assms r k1 by (auto simp: fsv_openUpload_def grows_same_children split: reserve_outcome.splits)
  next
    case res: True
    show ?thesis
    proof (cases "ok \<and> (\<exists>y. BeginUpload (fsv_store env) (ev_begin env sid) m (fsv_fs s2) = Ok y)")
      case False
      then show ?thesis using assms r res a grows_rejected [OF k2]
        by (auto simp: fsv_openUpload_def split: bool.splits sum.splits)
    next
      case True
      then obtain u fs where b: "BeginUpload (fsv_store env) (ev_begin env sid) m (fsv_fs s2) = Ok (u, fs)" by fastforce
      define c where "c = \<lparr>fc_kind = StreamKindFileUpload, fc_upload = Some u, fc_download = None,
          fc_send = \<lparr>cr_remaining = 0\<rparr>, fc_recv = \<lparr>cr_remaining = typedFileReceiveWindow\<rparr>, fc_remaining = 0,
          fc_done = False, fc_forwarding = False\<rparr>"
      have dest: "up_destination u = fu_path m"
        using b by (auto simp: BeginUpload_def Let_def split: sum.splits if_splits)
      obtain x s4 where s4: "fsv_activate sid c (s2\<lparr>fsv_fs := fs\<rparr>) = (x, s4)" by fastforce
      note k4 = activate_keeps [OF s4]
      have auth: "FlAuthorized sid FileTransferUpload (up_destination u) True \<in> set (fsv_log s4)"
        using k4 True by (simp add: s2 fsv_note_def dest)
      have g4: "grows s s4"
      proof (rule growsI)
        show "set (fsv_log s) \<subseteq> set (fsv_log s4)" using k2(2) k4 by simp
        fix t v assume "upload_of s4 t = Some v"
        with k4 k2(1) have "upload_of s t = Some v \<or> (t = sid \<and> v = u)"
          using upload_of_after [of s4 s sid c t v] by (auto simp: c_def)
        then show "(\<exists>u. upload_of s t = Some u \<and> up_destination v = up_destination u) \<or>
            FlAuthorized t FileTransferUpload (up_destination v) True \<in> set (fsv_log s4)" using auth by auto
      qed
      have rel: "grows s4 (fsv_releaseReservation sid StreamKindFileUpload (fsv_cancelUpload env sid u s4))"
        by (rule grows_same_children) (simp_all add: fsv_cancelUpload_def)
      obtain w s5 where w: "fsv_writeFrame env (OutAccepted sid typedFileReceiveWindow) s4 = (w, s5)" by fastforce
      have "s' = fsv_releaseReservation sid StreamKindFileUpload (fsv_cancelUpload env sid u s4) \<or> s' = s5 \<or>
          s' = fsv_closeChild env sid s5"
        using assms r res a True b s4 w file_window_valid
        by (auto simp: fsv_openUpload_def Let_def c_def split: option.splits)
      then show ?thesis
        using grows_trans [OF g4 rel] grows_trans [OF g4 grows_writeFrame [OF w]] grows_trans [OF _ grows_closeChild] by blast
    qed
  qed
qed

lemma grows_openDownload:
  assumes "fsv_openDownload env sid en m s = (e, s')"
  shows "grows s s'"
proof -
  obtain out s1 where r: "fsv_reserve env sid StreamKindFileDownload s = (out, s1)" by fastforce
  note k1 = grows_reserve [OF r]
  obtain ok s2 where a: "fsv_authorize env sid FileTransferDownload (fd_path m) s1 = (ok, s2)" by fastforce
  then have s2: "s2 = fsv_note (FlAuthorized sid FileTransferDownload (fd_path m) ok) s1"
    by (auto simp: fsv_authorize_def Let_def)
  have k2: "fsv_children s2 = fsv_children s" "set (fsv_log s) \<subseteq> set (fsv_log s2)" using k1 by (auto simp: s2 fsv_note_def)
  show ?thesis
  proof (cases "out = Reserved")
    case False
    then show ?thesis using assms r k1 by (auto simp: fsv_openDownload_def grows_same_children split: reserve_outcome.splits)
  next
    case res: True
    show ?thesis
    proof (cases "ok \<and> (\<exists>d. OpenDownload (fsv_store env) (ev_download env sid) (\<lambda>_. Err 0) m (fsv_fs s2) (fsv_fs s2) = Ok d)")
      case False
      then show ?thesis using assms r res a grows_rejected [OF k2]
        by (auto simp: fsv_openDownload_def split: bool.splits sum.splits)
    next
      case True
      then obtain d sz i where o: "OpenDownload (fsv_store env) (ev_download env sid) (\<lambda>_. Err 0) m (fsv_fs s2) (fsv_fs s2) = Ok (d, sz, i)"
        by (metis prod.collapse)
      show ?thesis
      proof (cases "newTypedStreamCredit (so_window en)")
        case (Inl x)
        with assms r res a True o have "s' = fsv_releaseReservation sid StreamKindFileDownload s2"
          by (auto simp: fsv_openDownload_def)
        then show ?thesis using k2 by (simp add: grows_same_children)
      next
        case (Inr sc)
        define c where "c = \<lparr>fc_kind = StreamKindFileDownload, fc_upload = None, fc_download = Some d,
            fc_send = sc, fc_recv = \<lparr>cr_remaining = 0\<rparr>, fc_remaining = sz, fc_done = False, fc_forwarding = False\<rparr>"
        obtain x s4 where s4: "fsv_activate sid c s2 = (x, s4)" by fastforce
        note k4 = activate_keeps [OF s4]
        have g4: "grows s s4"
        proof (rule growsI)
          show "set (fsv_log s) \<subseteq> set (fsv_log s4)" using k2(2) k4 by simp
          fix t v assume "upload_of s4 t = Some v"
          with k4 k2(1) have "upload_of s t = Some v" using upload_of_after [of s4 s sid c t v] by (auto simp: c_def)
          then show "(\<exists>u. upload_of s t = Some u \<and> up_destination v = up_destination u) \<or>
              FlAuthorized t FileTransferUpload (up_destination v) True \<in> set (fsv_log s4)" by blast
        qed
        obtain w s5 where w: "fsv_writeFrame env (OutAccepted sid 1) s4 = (w, s5)" by fastforce
        note g5 = grows_trans [OF g4 grows_writeFrame [OF w]]
        have start: "grows s5 (fsv_note (FlDownload sid sz) (fsv_setChild sid (ca\<lparr>fc_forwarding := True\<rparr>) s5))"
          if "fsv_children s5 sid = Some ca" for ca
          by (rule grows_setChild [of _ _ sid "ca\<lparr>fc_forwarding := True\<rparr>"])
            (use that in \<open>auto simp: fsv_note_def fsv_setChild_def upload_of_def\<close>)
        have "s' = fsv_releaseReservation sid StreamKindFileDownload s4 \<or> s' = s5 \<or> s' = fsv_closeChild env sid s5 \<or>
            (\<exists>ca. fsv_children s5 sid = Some ca \<and>
               s' = fsv_note (FlDownload sid sz) (fsv_setChild sid (ca\<lparr>fc_forwarding := True\<rparr>) s5))"
          using assms r res a True o Inr s4 w
          by (auto simp: fsv_openDownload_def Let_def c_def split: option.splits)
        moreover have "grows s4 (fsv_releaseReservation sid StreamKindFileDownload s4)"
          by (rule grows_same_children) simp_all
        ultimately show ?thesis using g4 g5 start grows_trans grows_closeChild by blast
      qed
    qed
  qed
qed

lemma Write_destination: "up_destination (fst (snd (upload_Write env d (u, fs)))) = up_destination u"
  by (auto simp: upload_Write_def upload_failLocked_def Let_def split: option.splits)

lemma Commit_destination: "up_destination (fst (snd (upload_Commit sha env (u, fs)))) = up_destination u"
  by (auto simp: upload_Commit_def upload_failLocked_def split: option.splits sum.splits prod.splits)

lemma grows_data:
  assumes "fsv_data env f s = (e, s')"
  shows "grows s s'"
proof -
  let ?sid = "f_stream f" and ?p = "f_payload f"
  consider "s' = s"
    | c u rc where "fsv_openChild ?sid s = Ok c" "fc_upload c = Some u" "credit_consume (fc_recv c) (of_nat (length ?p)) = Ok rc"
        "ValidateStreamData ?sid ?p = Ok ()" "fc_kind c = StreamKindFileUpload"
    using assms
    by (cases "ValidateStreamData ?sid ?p"; cases "fsv_openChild ?sid s")
      (auto simp: fsv_data_def Let_def split: sum.splits option.splits bool.splits)
  then show ?thesis
  proof cases
    case 2
    have ch: "fsv_children s ?sid = Some c" using fsv_openChild_Ok [OF 2(1)] by simp
    obtain n err u' fs' where w: "upload_Write (ev_write env ?sid ?p) ?p (u, fsv_fs s) = ((n, err), (u', fs'))"
      by (metis prod.collapse)
    have d: "up_destination u' = up_destination u" using Write_destination [of "ev_write env ?sid ?p" ?p u "fsv_fs s"] w by simp
    define c1 where "c1 = c\<lparr>fc_recv := rc, fc_upload := Some u'\<rparr>"
    define s1 where "s1 = fsv_note (FlStored ?sid (take n ?p)) (fsv_setChild ?sid c1 (s\<lparr>fsv_fs := fs'\<rparr>))"
    have g1: "grows s s1"
      by (rule grows_setChild [of _ _ ?sid c1])
        (use ch 2(2) d in \<open>auto simp: s1_def c1_def fsv_note_def fsv_setChild_def upload_of_def\<close>)
    have s1c: "upload_of s1 ?sid = Some u'" by (simp add: s1_def c1_def fsv_note_def fsv_setChild_def upload_of_def)
    show ?thesis
    proof (cases "err \<noteq> None \<or> n \<noteq> length ?p")
      case True
      then have "fsv_sendStreamError env ?sid ''upload_write_failed'' ''file upload failed'' (fsv_closeChild env ?sid s1) = (e, s')"
        using assms 2 w by (auto simp: fsv_data_def Let_def s1_def c1_def)
      then show ?thesis using grows_sendStreamError grows_trans [OF g1 grows_closeChild] grows_trans by blast
    next
      case False
      obtain x s2 where x: "fsv_writeFrame env (OutWindowUpdate ?sid (of_nat n)) s1 = (x, s2)" by fastforce
      have g2: "grows s1 s2" using grows_writeFrame [OF x] .
      have s2c: "upload_of s2 ?sid = Some u'" using s1c fsv_writeFrame_keeps [OF x] by (simp add: upload_of_def)
      have "grows s2 (fsv_setChild ?sid (c\<lparr>fc_recv := rc2, fc_upload := Some u'\<rparr>) s2)" for rc2
        by (rule grows_setChild [of _ _ ?sid "c\<lparr>fc_recv := rc2, fc_upload := Some u'\<rparr>"])
          (use s2c in \<open>auto simp: fsv_setChild_def\<close>)
      moreover have "s' = fsv_closeChild env ?sid s2 \<or> (\<exists>rc2. s' = fsv_setChild ?sid (c\<lparr>fc_recv := rc2, fc_upload := Some u'\<rparr>) s2)"
        using assms 2 w x False by (auto simp: fsv_data_def Let_def s1_def c1_def split: option.splits sum.splits)
      ultimately show ?thesis using grows_trans [OF grows_trans [OF g1 g2]] grows_closeChild by blast
    qed
  qed simp
qed

lemma grows_tweak:
  assumes "fsv_children s sid = Some c" "fc_upload c' = fc_upload c"
  shows "grows s (fsv_setChild sid c' s)"
  by (rule grows_setChild [of _ _ sid c']) (use assms in \<open>auto simp: fsv_setChild_def upload_of_def\<close>)

lemma grows_windowUpdate: "fsv_windowUpdate cd f s = (e, s') \<Longrightarrow> grows s s'"
  by (auto simp: fsv_windowUpdate_def split: sum.splits if_splits dest!: fsv_openChild_Ok intro!: grows_tweak)

lemma grows_peerClose:
  assumes "fsv_peerClose env cd f s = (e, s')"
  shows "grows s s'"
  using assms
proof (cases rule: fsv_peerClose_cases)
  case unchanged
  then show ?thesis by simp
next
  case (upload c u err u' fs' s1)
  let ?s0 = "fsv_setChild (f_stream f) (c\<lparr>fc_upload := Some u'\<rparr>) (s\<lparr>fsv_fs := fs'\<rparr>)"
  have d: "up_destination u' = up_destination u"
    using Commit_destination [of "ev_sha256 env" "ev_commit env (f_stream f)" u "fsv_fs s"] upload(3) by simp
  have "grows s ?s0"
    by (rule grows_setChild [of _ _ "f_stream f" "c\<lparr>fc_upload := Some u'\<rparr>"])
      (use upload(2) d fsv_openChild_Ok [OF upload(1)] in \<open>auto simp: fsv_setChild_def upload_of_def\<close>)
  then have "grows s s1" unfolding upload(4) using grows_trans grows_closeChild by blast
  moreover have "grows s1 s'"
    using upload(5) grows_sendStreamError grows_sendClose by (auto split: if_splits)
  ultimately show ?thesis by (rule grows_trans)
next
  case (download c)
  then have "s' = fsv_closeChild env (f_stream f) s \<or>
      (\<exists>x. fsv_sendClose env (f_stream f) ''peer_close'' (fsv_closeChild env (f_stream f) s) = (x, s'))"
    by (auto split: if_splits)
  then show ?thesis using grows_closeChild grows_trans [OF grows_closeChild grows_sendClose] by blast
qed

lemma grows_Handle: "fsv_Handle env cd f s = (e, s') \<Longrightarrow> grows s s'"
  by (auto simp: fsv_Handle_def fsv_open_def fsv_peerError_def split: if_splits sum.splits
      intro: grows_openUpload grows_openDownload grows_data grows_windowUpdate grows_peerClose
        grows_trans [OF grows_closeChild grows_sendClose])

lemma grows_stopForward: "grows s (fsv_stopForward sid s)"
  by (auto simp: fsv_stopForward_def intro: grows_tweak split: option.splits)

lemma grows_finishDownload: "grows s (fsv_finishDownload env sid s)"
proof -
  obtain x s1 where x: "fsv_sendClose env sid ''download_complete'' s = (x, s1)" by fastforce
  have "grows s (case x of None \<Rightarrow> s1 | Some _ \<Rightarrow> fsv_closeChild env sid s1)"
    using grows_sendClose [OF x] grows_trans [OF grows_sendClose [OF x] grows_closeChild] by (auto split: option.splits)
  then show ?thesis
    unfolding fsv_finishDownload_def x by (cases x) (auto intro: grows_trans [OF _ grows_stopForward])
qed

lemma grows_readFailed: "grows s (fsv_readFailed env sid s)"
proof -
  obtain x s1 where x: "fsv_sendStreamError env sid ''download_read_failed'' ''file download failed''
      (fsv_closeChild env sid s) = (x, s1)" by fastforce
  show ?thesis
    unfolding fsv_readFailed_def x snd_conv
    by (rule grows_trans [OF grows_trans [OF grows_closeChild grows_sendStreamError [OF x]] grows_stopForward])
qed

lemma grows_abortDownload: "grows s (fsv_abortDownload env sid s)"
  unfolding fsv_abortDownload_def by (rule grows_trans [OF grows_closeChild grows_stopForward])

lemma grows_forwardDownload: "grows s (fsv_forwardDownload env sid answer s)"
proof (cases rule: fsv_forwardDownload_cases [of env sid answer s])
  case (idle c d' f)
  have "grows s (fsv_setChild sid (c\<lparr>fc_download := d'\<rparr>) s)" by (rule grows_tweak [OF idle(1)]) simp
  with idle(2,3) show ?thesis
    using grows_trans [OF _ grows_stopForward] grows_trans [OF _ grows_finishDownload]
      grows_trans [OF _ grows_readFailed] by auto
next
  case (failed c d' rem)
  have "grows s (fsv_setChild sid (c\<lparr>fc_download := d', fc_remaining := rem\<rparr>) s)" by (rule grows_tweak [OF failed(1)]) simp
  then show ?thesis unfolding failed(2) using grows_trans grows_abortDownload by blast
next
  case (sent c d d' bs err sc w s2 f)
  have "grows s s2" by (rule grows_trans [OF grows_tweak [OF sent(1)] grows_writeFrame [OF sent(9)]]) simp
  with sent(10,11) show ?thesis
    using grows_trans [OF _ grows_abortDownload] grows_trans [OF _ grows_finishDownload]
      grows_trans [OF _ grows_readFailed] by auto
qed simp

lemma grows_CloseAll: "grows s (fsv_CloseAll env s)"
proof -
  have "grows s (fold (fsv_closeChild env) xs s)" for xs
    by (induction xs arbitrary: s) (auto intro: grows_trans [OF grows_closeChild])
  then show ?thesis by (simp add: fsv_CloseAll_def)
qed

lemma fsv_reach_authorized: "fsv_reach r0 fs0 s \<Longrightarrow> uploads_authorized s"
proof (induction rule: fsv_reach.induct)
  case start
  then show ?case by (simp add: uploads_authorized_def newTypedFileServer_def upload_of_def)
next
  case (others s fs)
  have "grows s (s\<lparr>fsv_fs := fs\<rparr>)" by (rule grows_same_children) simp_all
  with others show ?case using grows_authorized by blast
next
  case (shared s op)
  have "grows s (s\<lparr>fsv_registry := registry_step (fsv_registry s) op\<rparr>)" by (rule grows_same_children) simp_all
  with shared show ?case using grows_authorized by blast
qed (use grows_authorized grows_Handle grows_forwardDownload grows_CloseAll in blast)+

section \<open>An upload in the table is open\<close>

definition open_except :: "u32 set \<Rightarrow> file_server \<Rightarrow> bool" where
  "open_except X s \<longleftrightarrow> (\<forall>t \<in> fsv_streams s - X. \<forall>u. upload_of s t = Some u \<longrightarrow> \<not> up_closed u)"

lemma open_except_cong:
  "fsv_streams s' = fsv_streams s \<Longrightarrow> fsv_children s' = fsv_children s \<Longrightarrow> open_except X s' = open_except X s"
  by (simp add: open_except_def upload_of_def)

lemma open_note [simp]: "open_except X (fsv_note e s) = open_except X s"
  by (rule open_except_cong) (simp_all add: fsv_note_def)

lemma open_writeFrame: "fsv_writeFrame env m s = (e, s') \<Longrightarrow> open_except X s' = open_except X s"
  using fsv_writeFrame_keeps by (intro open_except_cong) auto

lemma open_sendStreamError: "fsv_sendStreamError env sid c m s = (e, s') \<Longrightarrow> open_except X s' = open_except X s"
  by (auto simp: fsv_sendStreamError_def open_writeFrame split: sum.splits)

lemma open_sendClose: "fsv_sendClose env sid c s = (e, s') \<Longrightarrow> open_except X s' = open_except X s"
  by (auto simp: fsv_sendClose_def open_writeFrame split: sum.splits)

lemma closeChild_table:
  "fsv_streams (fsv_closeChild env sid s) = (if fsv_children s sid = None then fsv_streams s else fsv_streams s - {sid}) \<and>
   (t \<noteq> sid \<longrightarrow> upload_of (fsv_closeChild env sid s) t = upload_of s t) \<and>
   (fsv_children s sid = None \<longrightarrow> fsv_closeChild env sid s = s)"
  by (auto simp: fsv_closeChild_def fsv_closeOnce_def fsv_setChild_def fsv_registryClose_def upload_of_def
      split: option.splits prod.splits sum.splits)

lemma open_closeChild: "open_except {sid} s \<Longrightarrow> open_except {} (fsv_closeChild env sid s)"
  unfolding open_except_def using closeChild_table [of env sid s]
  by (metis (no_types, lifting) DiffE DiffI empty_iff insert_iff option.distinct(1) upload_of_def option.simps(4))

lemma open_weaken: "open_except {} s \<Longrightarrow> open_except X s"
  by (auto simp: open_except_def)

lemma open_setChild:
  assumes "open_except {} s" "sid \<notin> X \<Longrightarrow> sid \<in> fsv_streams s \<Longrightarrow> (\<forall>u. fc_upload c' = Some u \<longrightarrow> \<not> up_closed u)"
    and "fsv_streams s' = fsv_streams s" "fsv_children s' = (fsv_children s)(sid \<mapsto> c')"
  shows "open_except X s'"
  using assms by (auto simp: open_except_def upload_of_def)

lemma open_tweak:
  assumes "open_except {} s" "fsv_children s sid = Some c" "fc_upload c' = fc_upload c"
  shows "open_except {} (fsv_setChild sid c' s)"
  by (rule open_setChild [OF assms(1), of sid]) (use assms in \<open>auto simp: open_except_def upload_of_def fsv_setChild_def\<close>)

lemma open_reserve: "fsv_reserve env sid k s = (out, s1) \<Longrightarrow> open_except X s1 = open_except X s"
  by (intro open_except_cong)
    (auto simp: fsv_reserve_def fsv_sendStreamError_def fsv_writeFrame_def fsv_note_def fsv_registryClose_def Let_def
      split: sum.splits if_splits prod.splits option.splits)

lemma open_release: "open_except X (fsv_releaseReservation sid k s) = open_except X s"
  by (rule open_except_cong) (auto simp: fsv_releaseReservation_def fsv_registryClose_def Let_def split: sum.splits)

lemma open_activate:
  assumes "open_except {} s" "fsv_activate sid c s = (e, s')" "\<And>u. fc_upload c = Some u \<Longrightarrow> \<not> up_closed u"
  shows "open_except {} s'"
proof -
  have k: "fsv_children s' = (fsv_children s)(sid \<mapsto> c) \<or> fsv_children s' = (fsv_children s)(sid := None)"
    and st: "fsv_streams s' \<subseteq> insert sid (fsv_streams s)"
    using assms(2) by (auto simp: fsv_activate_def fsv_setChild_def Let_def split: sum.splits)
  show ?thesis
    unfolding open_except_def
  proof (intro ballI allI impI)
    fix t u assume t: "t \<in> fsv_streams s' - {}" "upload_of s' t = Some u"
    show "\<not> up_closed u"
    proof (cases "t = sid")
      case True
      then show ?thesis using k t(2) assms(3) by (auto simp: upload_of_def)
    next
      case False
      then have "upload_of s t = Some u" using k t(2) by (auto simp: upload_of_def)
      then show ?thesis using assms(1) st t(1) False by (auto simp: open_except_def)
    qed
  qed
qed

lemma open_authorize: "fsv_authorize env sid d p s = (ok, s') \<Longrightarrow> open_except X s' = open_except X s"
  by (auto simp: fsv_authorize_def Let_def)

lemma open_openUpload:
  assumes "open_except {} s" "fsv_openUpload env sid m s = (e, s')"
  shows "open_except {} s'"
proof -
  obtain out s1 where r: "fsv_reserve env sid StreamKindFileUpload s = (out, s1)" by fastforce
  obtain ok s2 where a: "fsv_authorize env sid FileTransferUpload (fu_path m) s1 = (ok, s2)" by fastforce
  have o: "open_except {} s1" "open_except {} s2"
    using assms(1) open_reserve [OF r] open_authorize [OF a] by simp_all
  have rej: "open_except {} s'" if "fsv_sendStreamError env sid c x (fsv_releaseReservation sid k s2) = (e, s')" for c x k
    using open_sendStreamError [OF that] o(2) by (simp add: open_release)
  show ?thesis
  proof (cases "out = Reserved \<and> ok \<and> (\<exists>y. BeginUpload (fsv_store env) (ev_begin env sid) m (fsv_fs s2) = Ok y)")
    case False
    then show ?thesis using assms(2) r a o rej
      by (auto simp: fsv_openUpload_def split: reserve_outcome.splits bool.splits sum.splits)
  next
    case True
    then obtain u fs where b: "BeginUpload (fsv_store env) (ev_begin env sid) m (fsv_fs s2) = Ok (u, fs)" by fastforce
    define c where "c = \<lparr>fc_kind = StreamKindFileUpload, fc_upload = Some u, fc_download = None,
        fc_send = \<lparr>cr_remaining = 0\<rparr>, fc_recv = \<lparr>cr_remaining = typedFileReceiveWindow\<rparr>, fc_remaining = 0,
        fc_done = False, fc_forwarding = False\<rparr>"
    have nc: "\<not> up_closed u" using b by (auto simp: BeginUpload_def Let_def split: sum.splits if_splits)
    have o3: "open_except {} (s2\<lparr>fsv_fs := fs\<rparr>)" using o(2) open_except_cong [of "s2\<lparr>fsv_fs := fs\<rparr>" s2] by simp
    obtain x s4 where s4: "fsv_activate sid c (s2\<lparr>fsv_fs := fs\<rparr>) = (x, s4)" by fastforce
    have o4: "open_except {} s4" using open_activate [OF o3 s4] nc by (simp add: c_def)
    obtain w s5 where w: "fsv_writeFrame env (OutAccepted sid typedFileReceiveWindow) s4 = (w, s5)" by fastforce
    have o5: "open_except {} s5" using open_writeFrame [OF w] o4 by simp
    have "s' = fsv_releaseReservation sid StreamKindFileUpload (fsv_cancelUpload env sid u s4) \<or> s' = s5 \<or>
        s' = fsv_closeChild env sid s5"
      using assms(2) r a True b s4 w file_window_valid
      by (auto simp: fsv_openUpload_def Let_def c_def split: option.splits)
    moreover have "open_except {} (fsv_releaseReservation sid StreamKindFileUpload (fsv_cancelUpload env sid u s4))"
      using o4 open_except_cong [of "fsv_cancelUpload env sid u s4" s4] by (simp add: open_release fsv_cancelUpload_def)
    ultimately show ?thesis using o5 open_closeChild [OF open_weaken [OF o5]] by blast
  qed
qed

lemma open_openDownload:
  assumes "open_except {} s" "fsv_openDownload env sid en m s = (e, s')"
  shows "open_except {} s'"
proof -
  obtain out s1 where r: "fsv_reserve env sid StreamKindFileDownload s = (out, s1)" by fastforce
  obtain ok s2 where a: "fsv_authorize env sid FileTransferDownload (fd_path m) s1 = (ok, s2)" by fastforce
  have o: "open_except {} s1" "open_except {} s2"
    using assms(1) open_reserve [OF r] open_authorize [OF a] by simp_all
  have rej: "open_except {} s'" if "fsv_sendStreamError env sid c x (fsv_releaseReservation sid k s2) = (e, s')" for c x k
    using open_sendStreamError [OF that] o(2) by (simp add: open_release)
  show ?thesis
  proof (cases "out = Reserved \<and> ok \<and> (\<exists>d. OpenDownload (fsv_store env) (ev_download env sid) (\<lambda>_. Err 0) m (fsv_fs s2) (fsv_fs s2) = Ok d)
      \<and> (\<exists>sc. newTypedStreamCredit (so_window en) = Ok sc)")
    case False
    then show ?thesis using assms(2) r a o rej open_release
      by (auto simp: fsv_openDownload_def split: reserve_outcome.splits bool.splits sum.splits)
  next
    case True
    then obtain d sz i sc where b: "OpenDownload (fsv_store env) (ev_download env sid) (\<lambda>_. Err 0) m (fsv_fs s2) (fsv_fs s2) = Ok (d, sz, i)"
      and sc: "newTypedStreamCredit (so_window en) = Ok sc" by (metis prod.collapse)
    define c where "c = \<lparr>fc_kind = StreamKindFileDownload, fc_upload = None, fc_download = Some d,
        fc_send = sc, fc_recv = \<lparr>cr_remaining = 0\<rparr>, fc_remaining = sz, fc_done = False, fc_forwarding = False\<rparr>"
    obtain x s4 where s4: "fsv_activate sid c s2 = (x, s4)" by fastforce
    have o4: "open_except {} s4" using open_activate [OF o(2) s4] by (simp add: c_def)
    obtain w s5 where w: "fsv_writeFrame env (OutAccepted sid 1) s4 = (w, s5)" by fastforce
    have o5: "open_except {} s5" using open_writeFrame [OF w] o4 by simp
    have "s' = fsv_releaseReservation sid StreamKindFileDownload s4 \<or> s' = s5 \<or> s' = fsv_closeChild env sid s5 \<or>
        (\<exists>ca. fsv_children s5 sid = Some ca \<and>
           s' = fsv_note (FlDownload sid sz) (fsv_setChild sid (ca\<lparr>fc_forwarding := True\<rparr>) s5))"
      using assms(2) r a True b sc s4 w by (auto simp: fsv_openDownload_def Let_def c_def split: option.splits)
    then show ?thesis
      using o4 o5 open_closeChild [OF open_weaken [OF o5]] open_tweak [OF o5] by (auto simp: open_release)
  qed
qed

lemma Write_keeps_open:
  "upload_Write env d (u, fs) = ((n, None), (u', fs')) \<Longrightarrow> \<not> up_closed u \<Longrightarrow> \<not> up_closed u'"
  by (auto simp: upload_Write_def Let_def split: if_splits option.splits)

lemma open_data:
  assumes "open_except {} s" "fsv_data env f s = (e, s')"
  shows "open_except {} s'"
proof -
  let ?sid = "f_stream f" and ?p = "f_payload f"
  consider "s' = s"
    | c u rc where "fsv_openChild ?sid s = Ok c" "fc_upload c = Some u" "credit_consume (fc_recv c) (of_nat (length ?p)) = Ok rc"
        "ValidateStreamData ?sid ?p = Ok ()" "fc_kind c = StreamKindFileUpload"
    using assms(2)
    by (cases "ValidateStreamData ?sid ?p"; cases "fsv_openChild ?sid s")
      (auto simp: fsv_data_def Let_def split: sum.splits option.splits bool.splits)
  then show ?thesis
  proof cases
    case 1
    then show ?thesis using assms(1) by simp
  next
    case 2
    have ch: "fsv_children s ?sid = Some c" "?sid \<in> fsv_streams s" using fsv_openChild_Ok [OF 2(1)] by simp_all
    then have uo: "\<not> up_closed u" using assms(1) 2(2) by (auto simp: open_except_def upload_of_def)
    obtain n err u' fs' where w: "upload_Write (ev_write env ?sid ?p) ?p (u, fsv_fs s) = ((n, err), (u', fs'))"
      by (metis prod.collapse)
    define c1 where "c1 = c\<lparr>fc_recv := rc, fc_upload := Some u'\<rparr>"
    define s1 where "s1 = fsv_note (FlStored ?sid (take n ?p)) (fsv_setChild ?sid c1 (s\<lparr>fsv_fs := fs'\<rparr>))"
    have o1: "open_except {?sid} s1"
      by (rule open_setChild [OF assms(1), of ?sid _ c1]) (simp_all add: s1_def fsv_note_def fsv_setChild_def)
    show ?thesis
    proof (cases "err \<noteq> None \<or> n \<noteq> length ?p")
      case True
      then have "fsv_sendStreamError env ?sid ''upload_write_failed'' ''file upload failed'' (fsv_closeChild env ?sid s1) = (e, s')"
        using assms(2) 2 w by (auto simp: fsv_data_def Let_def s1_def c1_def)
      then show ?thesis using open_sendStreamError open_closeChild [OF o1] by blast
    next
      case False
      then have "err = None" by simp
      then have "\<not> up_closed u'" using Write_keeps_open [OF w [unfolded \<open>err = None\<close>] uo] by simp
      obtain x s2 where x: "fsv_writeFrame env (OutWindowUpdate ?sid (of_nat n)) s1 = (x, s2)" by fastforce
      have o2: "open_except {?sid} s2" using open_writeFrame [OF x] o1 by simp
      have set_ok: "open_except {} (fsv_setChild ?sid (c\<lparr>fc_recv := rc2, fc_upload := Some u'\<rparr>) s2)" for rc2
        using o2 \<open>\<not> up_closed u'\<close> by (auto simp: open_except_def fsv_setChild_def upload_of_def)
      have "s' = fsv_closeChild env ?sid s2 \<or> (\<exists>rc2. s' = fsv_setChild ?sid (c\<lparr>fc_recv := rc2, fc_upload := Some u'\<rparr>) s2)"
        using assms(2) 2 w x False by (auto simp: fsv_data_def Let_def s1_def c1_def split: option.splits sum.splits)
      then show ?thesis using open_closeChild [OF o2] set_ok by blast
    qed
  qed
qed

lemma open_peerClose:
  assumes "open_except {} s" "fsv_peerClose env cd f s = (e, s')"
  shows "open_except {} s'"
  using assms(2)
proof (cases rule: fsv_peerClose_cases)
  case unchanged
  then show ?thesis using assms(1) by simp
next
  case (upload c u err u' fs' s1)
  have "open_except {f_stream f} (fsv_setChild (f_stream f) (c\<lparr>fc_upload := Some u'\<rparr>) (s\<lparr>fsv_fs := fs'\<rparr>))"
    by (rule open_setChild [OF assms(1), of "f_stream f" _ "c\<lparr>fc_upload := Some u'\<rparr>"]) (simp_all add: fsv_setChild_def)
  then have "open_except {} s1" unfolding upload(4) by (rule open_closeChild)
  with upload(5) show ?thesis using open_sendStreamError open_sendClose by (auto split: if_splits)
next
  case (download c)
  then show ?thesis
    using open_closeChild [OF open_weaken [OF assms(1)], of env "f_stream f"] open_sendClose by (auto split: if_splits)
qed

lemma open_Handle:
  assumes "open_except {} s" "fsv_Handle env cd f s = (e, s')"
  shows "open_except {} s'"
proof -
  have wu: "open_except {} s'" if "fsv_windowUpdate cd f s = (e, s')"
    using that assms(1)
    by (auto simp: fsv_windowUpdate_def split: sum.splits if_splits dest!: fsv_openChild_Ok intro!: open_tweak)
  have pe: "open_except {} s'" if "fsv_peerError env cd f s = (e, s')"
    using that assms(1) open_closeChild [OF open_weaken [OF assms(1)], of env "f_stream f"] open_sendClose
    by (auto simp: fsv_peerError_def split: sum.splits)
  have op: "open_except {} s'" if "fsv_open env cd f s = (e, s')"
    using that assms(1)
    by (auto simp: fsv_open_def split: sum.splits if_splits
        intro: open_openUpload [OF assms(1)] open_openDownload [OF assms(1)])
  show ?thesis
    using assms
    by (auto simp: fsv_Handle_def split: if_splits
        intro: wu pe op open_data [OF assms(1)] open_peerClose [OF assms(1)])
qed

lemma open_stopForward: "open_except {} s \<Longrightarrow> open_except {} (fsv_stopForward sid s)"
  by (auto simp: fsv_stopForward_def intro: open_tweak split: option.splits)

lemma open_closing: "open_except {} s \<Longrightarrow> open_except {} (fsv_closeChild env sid s)"
  by (rule open_closeChild [OF open_weaken])

lemma open_finishDownload:
  assumes "open_except {} s"
  shows "open_except {} (fsv_finishDownload env sid s)"
proof -
  obtain x s1 where x: "fsv_sendClose env sid ''download_complete'' s = (x, s1)" by fastforce
  have "open_except {} s1" using open_sendClose [OF x] assms by simp
  then show ?thesis
    unfolding fsv_finishDownload_def x by (cases x) (auto intro: open_stopForward open_closing)
qed

lemma open_readFailed:
  assumes "open_except {} s"
  shows "open_except {} (fsv_readFailed env sid s)"
proof -
  obtain x s1 where x: "fsv_sendStreamError env sid ''download_read_failed'' ''file download failed''
      (fsv_closeChild env sid s) = (x, s1)" by fastforce
  have "open_except {} s1" using open_sendStreamError [OF x] open_closing [OF assms] by simp
  then show ?thesis unfolding fsv_readFailed_def x snd_conv by (rule open_stopForward)
qed

lemma open_forwardDownload:
  assumes "open_except {} s"
  shows "open_except {} (fsv_forwardDownload env sid answer s)"
proof (cases rule: fsv_forwardDownload_cases [of env sid answer s])
  case same
  then show ?thesis using assms by simp
next
  case (idle c d' f)
  have "open_except {} (fsv_setChild sid (c\<lparr>fc_download := d'\<rparr>) s)" by (rule open_tweak [OF assms idle(1)]) simp
  with idle(2,3) show ?thesis using open_stopForward open_finishDownload open_readFailed by auto
next
  case (failed c d' rem)
  have "open_except {} (fsv_setChild sid (c\<lparr>fc_download := d', fc_remaining := rem\<rparr>) s)"
    by (rule open_tweak [OF assms failed(1)]) simp
  then show ?thesis unfolding failed(2) fsv_abortDownload_def by (intro open_stopForward open_closing)
next
  case (sent c d d' bs err sc w s2 f)
  have "open_except {} s2"
    unfolding open_writeFrame [OF sent(9)] by (rule open_tweak [OF assms sent(1)]) simp
  with sent(10,11) show ?thesis
    using open_stopForward open_closing open_finishDownload open_readFailed by (auto simp: fsv_abortDownload_def)
qed

lemma open_CloseAll:
  assumes "open_except {} s"
  shows "open_except {} (fsv_CloseAll env s)"
proof -
  have "open_except {} (fold (fsv_closeChild env) xs s)" if "open_except {} s" for xs s
    using that by (induction xs arbitrary: s) (auto intro: open_closing)
  then show ?thesis using assms by (simp add: fsv_CloseAll_def)
qed

lemma fsv_reach_open: "fsv_reach r0 fs0 s \<Longrightarrow> open_except {} s"
proof (induction rule: fsv_reach.induct)
  case start
  then show ?case by (simp add: open_except_def newTypedFileServer_def)
next
  case (others s fs)
  then show ?case using open_except_cong [of "s\<lparr>fsv_fs := fs\<rparr>" s] by simp
next
  case (shared s op)
  then show ?case using open_except_cong [of "s\<lparr>fsv_registry := registry_step (fsv_registry s) op\<rparr>" s] by simp
qed (use open_Handle open_forwardDownload open_CloseAll in blast)+

section \<open>What a download pass logs\<close>

definition quiet :: "u32 \<Rightarrow> file_server \<Rightarrow> file_server \<Rightarrow> bool" where
  "quiet sid s s' \<longleftrightarrow>
     (\<exists>es. fsv_log s' = fsv_log s @ es \<and> (\<forall>t bs. FlSent (OutData t bs) \<notin> set es)) \<and>
     (\<forall>c. fsv_children s sid = Some c \<longrightarrow>
        (\<exists>c'. fsv_children s' sid = Some c' \<and> fc_send c' = fc_send c \<and> fc_remaining c' = fc_remaining c))"

lemma quiet_refl: "quiet sid s s"
  by (simp add: quiet_def)

lemma quiet_trans:
  assumes "quiet sid s s1" "quiet sid s1 s2"
  shows "quiet sid s s2"
proof -
  obtain es fs where "fsv_log s1 = fsv_log s @ es" "fsv_log s2 = fsv_log s1 @ fs"
    "\<forall>t bs. FlSent (OutData t bs) \<notin> set es" "\<forall>t bs. FlSent (OutData t bs) \<notin> set fs"
    using assms by (auto simp: quiet_def)
  moreover from assms have "\<forall>c. fsv_children s sid = Some c \<longrightarrow>
        (\<exists>c'. fsv_children s2 sid = Some c' \<and> fc_send c' = fc_send c \<and> fc_remaining c' = fc_remaining c)"
    unfolding quiet_def by metis
  ultimately show ?thesis by (auto simp: quiet_def)
qed

lemma quiet_stopForward: "quiet sid s (fsv_stopForward sid s)"
  by (auto simp: quiet_def fsv_stopForward_def fsv_setChild_def split: option.splits)

lemma quiet_closeChild: "quiet sid s (fsv_closeChild env sid s)"
  by (auto simp: quiet_def fsv_closeChild_def fsv_closeOnce_def fsv_setChild_def split: option.splits prod.splits)

lemma quiet_writeFrame:
  "fsv_writeFrame env m s = (e, s') \<Longrightarrow> \<not> (\<exists>t bs. m = OutData t bs) \<Longrightarrow> quiet sid s s'"
  by (auto simp: quiet_def fsv_writeFrame_def fsv_note_def split: if_splits)

lemma quiet_sendClose: "fsv_sendClose env sid r s = (e, s') \<Longrightarrow> quiet sid s s'"
  by (auto simp: fsv_sendClose_def quiet_refl intro: quiet_writeFrame split: sum.splits)

lemma quiet_sendStreamError: "fsv_sendStreamError env sid c m s = (e, s') \<Longrightarrow> quiet sid s s'"
  by (auto simp: fsv_sendStreamError_def quiet_refl intro: quiet_writeFrame split: sum.splits)

lemma quiet_finishDownload: "quiet sid s (fsv_finishDownload env sid s)"
proof -
  obtain x s1 where x: "fsv_sendClose env sid ''download_complete'' s = (x, s1)" by fastforce
  have q: "quiet sid s s1" by (rule quiet_sendClose [OF x])
  have "quiet sid s (fsv_stopForward sid s1)" by (rule quiet_trans [OF q quiet_stopForward])
  moreover have "quiet sid s (fsv_stopForward sid (fsv_closeChild env sid s1))"
    by (rule quiet_trans [OF quiet_trans [OF q quiet_closeChild] quiet_stopForward])
  ultimately show ?thesis by (simp add: fsv_finishDownload_def x split: option.split)
qed

lemma quiet_readFailed: "quiet sid s (fsv_readFailed env sid s)"
proof -
  obtain x s1 where x: "fsv_sendStreamError env sid ''download_read_failed'' ''file download failed''
      (fsv_closeChild env sid s) = (x, s1)" by fastforce
  show ?thesis
    unfolding fsv_readFailed_def x snd_conv
    by (rule quiet_trans [OF quiet_trans [OF quiet_closeChild quiet_sendStreamError [OF x]] quiet_stopForward])
qed

lemma quiet_abortDownload: "quiet sid s (fsv_abortDownload env sid s)"
  unfolding fsv_abortDownload_def by (rule quiet_trans [OF quiet_closeChild quiet_stopForward])

lemma quiet_log:
  "quiet sid s s' \<Longrightarrow> fsv_log s = l @ es0 \<Longrightarrow> fsv_log s' = l @ es \<Longrightarrow> FlSent (OutData t bs) \<in> set es \<Longrightarrow>
     FlSent (OutData t bs) \<in> set es0"
  by (auto simp: quiet_def)

lemma download_Read_length:
  "download_Read answer n d = ((bs, e), d') \<Longrightarrow> length bs \<le> n"
  by (auto simp: download_Read_def Let_def split: if_splits prod.splits)

section \<open>Properties\<close>

text \<open>
  Claim C16. In every run of the file engine at most four file streams are active, the engine's
  count is the size of its table, the table and the live records of the shared registry are
  the same streams, and an upload is closed, so that its staging file has been given up,
  exactly when its stream has left the table.  After the end of the connection no stream is
  left.
\<close>

theorem file_streams_bounded:
  assumes "fsv_reach r0 fs0 s" and "start_ok r0 fs0"
  shows "fsv_active s = card (fsv_streams s) \<and> card (fsv_streams s) \<le> 4 \<and>
     fsv_streams s = live_streams (fsv_registry s) StreamKindFileUpload \<union>
       live_streams (fsv_registry s) StreamKindFileDownload \<and>
     (\<forall>sid u. upload_of s sid = Some u \<longrightarrow> (up_closed u \<longleftrightarrow> sid \<notin> fsv_streams s)) \<and>
     fsv_streams (fsv_CloseAll env s) = {}"
proof -
  have inv: "fsv_inv s" using fsv_reach_inv [OF assms] .
  then have ok: "table_ok s" by (simp add: fsv_inv_def)
  have "fsv_streams s \<subseteq> live_streams (fsv_registry s) StreamKindFileUpload \<union>
      live_streams (fsv_registry s) StreamKindFileDownload"
    using table_okD(5) [OF ok] by (fastforce simp: live_streams_def)
  moreover have "up_closed u \<longleftrightarrow> sid \<notin> fsv_streams s" if "upload_of s sid = Some u" for sid u
  proof
    assume "up_closed u"
    then show "sid \<notin> fsv_streams s" using fsv_reach_open [OF assms(1)] that by (auto simp: open_except_def)
  next
    assume out: "sid \<notin> fsv_streams s"
    from that obtain c where "fsv_children s sid = Some c" "fc_upload c = Some u"
      by (auto simp: upload_of_def split: option.splits)
    then show "up_closed u" using table_okD(7) [OF ok _ out] by blast
  qed
  ultimately show ?thesis
    using table_okD(3,4,8) [OF ok] fsv_CloseAll_inv [OF inv] by (auto simp: maxFileStreamsPerConnection_def)
qed

text \<open>
  Claim C12. When the engine acknowledges the close of an upload, the upload has been published:
  exactly one entry appears in the tree that others see, under the upload's destination, which
  named nothing before, and its content is exactly the bytes of the stream that the engine
  stored, in order.  The operator's policy had allowed an upload to that destination, and the
  stream is no longer in the table.
\<close>

theorem acknowledged_upload_published:
  assumes "fsv_reach r0 fs0 s" and "start_ok r0 fs0"
    and "fsv_openChild (f_stream f) s = Ok c" and "fc_kind c = StreamKindFileUpload" and "fc_upload c = Some u"
    and "fsv_peerClose env cd f s = (e, s')"
    and "fsv_log s' = fsv_log s @ [FlSent (OutClose (f_stream f) ''peer_close'')]"
  shows "\<exists>se d. fs_resolve (fsv_fs s) (up_stage u) = Some se \<and>
     fs_resolve (fsv_fs s) (up_destination u) = Some d \<and> view (fsv_fs s) d = None \<and>
     visible se (fsv_fs s') = (visible se (fsv_fs s))(d \<mapsto> VFile (stored (f_stream f) (fsv_log s))) \<and>
     FlAuthorized (f_stream f) FileTransferUpload (up_destination u) True \<in> set (fsv_log s) \<and>
     f_stream f \<notin> fsv_streams s'"
proof -
  let ?sid = "f_stream f"
  have inv: "fsv_inv s" using fsv_reach_inv [OF assms(1,2)] .
  then have ok: "table_ok s" "uploads_ok s" by (simp_all add: fsv_inv_def)
  have sid: "?sid \<in> fsv_streams s" "fsv_children s ?sid = Some c" using fsv_openChild_Ok [OF assms(3)] by simp_all
  have u: "upload_of s ?sid = Some u" using sid(2) assms(5) by (simp add: upload_of_def)
  have uo: "\<not> up_closed u" using fsv_reach_open [OF assms(1)] sid(1) u by (auto simp: open_except_def)
  have nc: "\<not> up_committed u" using uploads_okD(2) [OF ok(2) u] uo by (simp add: upload_counts_def)
  obtain se where se: "staged se u (fsv_fs s)" using uploads_okD(4) [OF ok(2) u uo] by blast
  have iu: "upload_inv se (u, fsv_fs s)" using se uploads_okD(2) [OF ok(2) u] by (simp add: upload_inv_def)
  from assms(6) show ?thesis
  proof (cases rule: fsv_peerClose_cases)
    case unchanged
    then show ?thesis using assms(7) by simp
  next
    case (download c')
    then show ?thesis using assms(3,4) file_kinds_distinct by simp
  next
    case (upload c' u1 err u' fs' s1)
    have same: "c' = c" "u1 = u" using upload(1,2) assms(3,5) by simp_all
    have cl: "fsv_log s1 = fsv_log s"
      unfolding upload(4)
      by (auto simp: fsv_closeChild_def fsv_closeOnce_def fsv_setChild_def split: option.splits prod.splits)
    have err: "err = None"
    proof (rule ccontr)
      assume "err \<noteq> None"
      then have "fsv_sendStreamError env ?sid ''upload_commit_failed'' ''file upload validation or commit failed'' s1 = (e, s')"
        using upload(5) by simp
      then show False
        using assms(7) cl
        by (auto simp: fsv_sendStreamError_def fsv_writeFrame_def fsv_note_def split: sum.splits if_splits)
    qed
    have vis: "up_committed u'" "up_closed u'"
      and d: "\<exists>d. fs_resolve (fsv_fs s) (up_destination u) = Some d \<and> view (fsv_fs s) d = None \<and>
           visible se fs' = (visible se (fsv_fs s))(d \<mapsto> VFile (up_digest u))"
      using upload_Commit_visible [OF iu nc upload(3) [unfolded same]] err by auto
    have fs1: "fsv_fs s1 = fs'" "?sid \<notin> fsv_streams s1"
      using vis(2) unfolding upload(4)
      by (auto simp: fsv_closeChild_def fsv_closeOnce_def fsv_setChild_def fsv_registryClose_def upload_Cancel_def
          split: option.splits prod.splits sum.splits)
    have "fsv_sendClose env ?sid ''peer_close'' s1 = (e, s')" using upload(5) err by simp
    then have "fsv_fs s' = fs'" "?sid \<notin> fsv_streams s'"
      using fs1 by (auto simp: fsv_sendClose_def fsv_writeFrame_def fsv_note_def split: sum.splits if_splits)
    moreover have "up_digest u = stored ?sid (fsv_log s)" using uploads_okD(3) [OF ok(2) u] .
    moreover have "FlAuthorized ?sid FileTransferUpload (up_destination u) True \<in> set (fsv_log s)"
      using fsv_reach_authorized [OF assms(1)] u by (auto simp: uploads_authorized_def)
    ultimately show ?thesis using d staged_resolve [OF se] by auto
  qed
qed



text \<open>One upload stream, opened and filled with three bytes, and one download stream.\<close>

definition sample_file_env :: fsrv_env where
  "sample_file_env =
     \<lparr>ev_runtime = Some \<lparr>ft_store = Some \<lparr>st_maxBytes = 10\<rparr>, ft_authorizer = Some (\<lambda>_. None)\<rparr>, ev_peer = ''peer'',
      ev_send = (\<lambda>_. True), ev_begin = (\<lambda>_. sample_begin),
      ev_write = (\<lambda>_ bs. \<lparr>we_taken = length bs, we_error = None, we_remove = None\<rparr>),
      ev_commit = (\<lambda>_. sample_commit), ev_cancel = (\<lambda>_. \<lparr>xe_close = None, xe_remove = None\<rparr>),
      ev_download = (\<lambda>_. \<lparr>de_lstat = None, de_open = None, de_stat = None\<rparr>), ev_sha256 = (\<lambda>bs. bs)\<rparr>"

definition sample_file_codec :: file_codec where
  "sample_file_codec =
     \<lparr>q_open = (\<lambda>_. Ok \<lparr>so_kind = StreamKindFileUpload, so_cols = 0, so_rows = 0, so_term = [], so_metadata = [123, 125],
        so_window = 1\<rparr>), q_upload = (\<lambda>_. Ok sample_upload_open), q_download = (\<lambda>_. Err TsKind),
      q_update = (\<lambda>_. Err TsKind), q_close = (\<lambda>_. Ok \<lparr>cl_reason = []\<rparr>), q_error = (\<lambda>_. Err TsKind)\<rparr>"

definition sample_upload_child :: "file_upload \<Rightarrow> file_child" where
  "sample_upload_child u =
     \<lparr>fc_kind = StreamKindFileUpload, fc_upload = Some u, fc_download = None, fc_send = \<lparr>cr_remaining = 0\<rparr>,
      fc_recv = \<lparr>cr_remaining = typedFileReceiveWindow\<rparr>, fc_remaining = 0, fc_done = False, fc_forwarding = False\<rparr>"

definition sample_engine :: "file_upload \<Rightarrow> fsys \<Rightarrow> file_effect list \<Rightarrow> file_server" where
  "sample_engine u fs l =
     \<lparr>fsv_registry = [2 \<mapsto> \<lparr>sr_kind = StreamKindFileUpload, sr_state = StreamOpen\<rparr>],
      fsv_children = [2 \<mapsto> sample_upload_child u], fsv_streams = {2}, fsv_active = 1, fsv_fs = fs,
      fsv_log = [FlAuthorized 2 FileTransferUpload ''docs/a.txt'' True, FlSent (OutAccepted 2 typedFileReceiveWindow)] @ l\<rparr>"

lemma sample_file_opened:
  "fsv_Handle sample_file_env sample_file_codec \<lparr>f_type = TypeStreamOpen, f_stream = 2, f_payload = []\<rparr>
     (newTypedFileServer None sample_fs) = (None, sample_engine sample_upload sample_staged [])"
proof -
  have p: "ParseFileUploadStreamOpen (\<lambda>_. Ok sample_upload_open) 2
      \<lparr>so_kind = StreamKindFileUpload, so_cols = 0, so_rows = 0, so_term = [], so_metadata = [123, 125], so_window = 1\<rparr> =
      Ok sample_upload_open"
    by (simp add: ParseFileUploadStreamOpen_def validateFileStreamEnvelope_def validateStreamOpenWindow_def
        validateTypedStreamID_def MinTypedStreamID_def MaxTypedStreamWindow_def MaxTypedStreamOpenMetadata_def
        ValidateFileUploadOpen_def sample_upload_open_def FileExistingFail_def example_path_valid)
  have path: "fu_path sample_upload_open = ''docs/a.txt''" by (simp add: sample_upload_open_def)
  have o: "fsv_openUpload sample_file_env 2 sample_upload_open (newTypedFileServer None sample_fs) =
      (None, sample_engine sample_upload sample_staged [])"
    by (simp add: fsv_openUpload_def fsv_reserve_def newTypedFileServer_def registry_reserve_def MinTypedStreamID_def
        newTypedParentStreamRegistry_def maxTypedStreamIDsPerConnection_def maxFileStreamsPerConnection_def
        fsv_authorize_def sample_file_env_def runtime_Ready_def runtime_Authorize_def fsv_note_def fsv_store_def
        sample_begun newTypedStreamCredit_def typedFileReceiveWindow_def MaxTypedStreamWindow_def fsv_activate_def
        registry_accept_def fsv_setChild_def fsv_writeFrame_def sample_engine_def sample_upload_child_def
        StreamKindFileUpload_def Let_def path)
  show ?thesis by (simp add: fsv_Handle_def fsv_open_def sample_file_codec_def p o)
qed

lemma sample_file_stored:
  "fsv_Handle sample_file_env sample_file_codec \<lparr>f_type = TypeStreamData, f_stream = 2, f_payload = [7, 8, 9]\<rparr>
     (sample_engine sample_upload sample_staged []) =
     (None, sample_engine sample_uploaded sample_written [FlStored 2 [7, 8, 9], FlSent (OutWindowUpdate 2 3)])"
  by (simp add: fsv_Handle_def fsv_data_def ValidateStreamData_def validateTypedStreamID_def MinTypedStreamID_def
      MaxTypedStreamChunk_def fsv_openChild_def sample_engine_def registry_isOpen_def sample_upload_child_def
      credit_consume_def typedFileReceiveWindow_def sample_file_env_def sample_write [unfolded numeral_3_eq_3] fsv_note_def fsv_setChild_def
      fsv_writeFrame_def credit_add_def MaxTypedStreamWindow_def TypeStreamData_def TypeStreamOpen_def Let_def)

lemma sample_file_run:
  "fsv_reach None sample_fs
     (sample_engine sample_uploaded sample_written [FlStored 2 [7, 8, 9], FlSent (OutWindowUpdate 2 3)])"
  by (rule fsv_reach.frame [OF fsv_reach.frame [OF fsv_reach.start sample_file_opened] sample_file_stored])

lemma sample_start_ok: "start_ok None sample_fs"
  by (simp add: start_ok_def sample_fs_ok)

theorem file_streams_bounded_witness:
  "fsv_streams (fsv_CloseAll sample_file_env
     (sample_engine sample_uploaded sample_written [FlStored 2 [7, 8, 9], FlSent (OutWindowUpdate 2 3)])) = {} \<and>
   card (fsv_streams (sample_engine sample_uploaded sample_written [FlStored 2 [7, 8, 9], FlSent (OutWindowUpdate 2 3)])) \<le> 4"
  using file_streams_bounded [OF sample_file_run sample_start_ok] by blast

theorem acknowledged_upload_published_witness:
  "\<exists>e s'. fsv_peerClose sample_file_env sample_file_codec \<lparr>f_type = TypeStreamClose, f_stream = 2, f_payload = []\<rparr>
       (sample_engine sample_uploaded sample_written [FlStored 2 [7, 8, 9], FlSent (OutWindowUpdate 2 3)]) = (e, s') \<and>
     visible sample_stage (fsv_fs s') = (visible sample_stage sample_written)(''docs/a.txt'' \<mapsto> VFile [7, 8, 9])"
proof -
  let ?f = "\<lparr>f_type = TypeStreamClose, f_stream = 2, f_payload = []\<rparr>"
  let ?s = "sample_engine sample_uploaded sample_written [FlStored 2 [7, 8, 9], FlSent (OutWindowUpdate 2 3)]"
  obtain e s' where c: "fsv_peerClose sample_file_env sample_file_codec ?f ?s = (e, s')" by fastforce
  obtain u' fs' where p: "upload_Commit (\<lambda>bs. bs) sample_commit (sample_uploaded, sample_written) = (None, (u', fs'))"
    using sample_published by blast
  have o: "fsv_openChild (f_stream ?f) ?s = Ok (sample_upload_child sample_uploaded)"
    by (simp add: fsv_openChild_def sample_engine_def registry_isOpen_def sample_upload_child_def)
  have l: "fsv_log s' = fsv_log ?s @ [FlSent (OutClose (f_stream ?f) ''peer_close'')]"
    using c o
    by (auto simp: fsv_peerClose_def sample_file_codec_def ValidateStreamClose_def validateTypedStreamID_def
        MinTypedStreamID_def MaxTypedStreamCloseReasonLength_def sample_upload_child_def sample_file_env_def p [simplified]
        sample_engine_def fsv_closeChild_def fsv_closeOnce_def fsv_registryClose_def registry_close_def fsv_setChild_def
        fsv_sendClose_def fsv_writeFrame_def fsv_note_def Let_def split: prod.splits)
  have r: "fs_resolve sample_written = Some" by (simp add: sample_written_def file_Append_def sample_staged_def sample_fs_def)
  have "stored 2 (fsv_log ?s) = [7, 8, 9]" by (simp add: sample_engine_def)
  then show ?thesis
    using acknowledged_upload_published [OF sample_file_run sample_start_ok o _ _ c l] c
    by (auto simp: sample_upload_child_def sample_engine_def r sample_uploaded_def sample_upload_def)
qed


end
