(* ===== verification/Engine_Registry.thy ===== *)
theory Engine_Registry
  imports File_Runs
begin

text \<open>
  What the two stream engines of a connection do to the registry they share: each calls it
  with its own stream kinds only.
\<close>

section \<open>The terminal engine\<close>

definition srv_moves :: "term_server \<Rightarrow> term_server \<Rightarrow> bool" where
  "srv_moves s s' \<longleftrightarrow> reg_moves {StreamKindTerminal} (srv_registry s) (srv_registry s')"

lemma srv_moves_same: "srv_states s' = srv_states s \<Longrightarrow> srv_moves s s'"
  by (simp add: srv_moves_def srv_registry_def)

lemma srv_moves_trans: "srv_moves s t \<Longrightarrow> srv_moves t u \<Longrightarrow> srv_moves s u"
  unfolding srv_moves_def by (rule reg_moves_trans)

lemma srv_moves_registry:
  "reg_moves {StreamKindTerminal} (tset_registry (srv_states s)) (tset_registry st) \<Longrightarrow> srv_moves s (s\<lparr>srv_states := st\<rparr>)"
  by (simp add: srv_moves_def srv_registry_def)

lemma srv_moves_close_states:
  assumes "terminals_close (srv_states s) i = Ok st"
  shows "srv_moves s (s\<lparr>srv_states := st\<rparr>)"
proof -
  have "registry_close (tset_registry (srv_states s)) i StreamKindTerminal = Ok (tset_registry st)"
    using assms unfolding terminals_close_def bind_res_Ok_iff by auto
  from reg_moves_call(3) [OF _ this] show ?thesis by (intro srv_moves_registry) simp
qed

lemma srv_closeStream_states:
  "srv_states (snd (srv_closeStream env i reason b s)) \<in> {srv_states s, srv_states (srv_statesClose i s)}"
proof -
  have c: "srv_states (srv_closeChildOnce i t) = srv_states t" for t
    by (simp add: srv_closeChildOnce_def split: option.split)
  have w: "srv_states (snd (srv_writeFrame env m t)) = srv_states t" for m t by (simp add: srv_writeFrame_def)
  show ?thesis by (simp add: srv_closeStream_def Let_def c w split: sum.split)
qed

lemma srv_moves_closeStream: "srv_moves s (snd (srv_closeStream env i reason b s))"
proof -
  have "srv_moves s (srv_statesClose i s)"
    by (simp add: srv_statesClose_def srv_moves_same srv_moves_close_states split: sum.split)
  then show ?thesis using srv_closeStream_states [of env i reason b s]
    by (auto simp: srv_moves_def srv_registry_def)
qed

lemma srv_moves_simps [simp]:
  "srv_moves s (srv_effect e t) = srv_moves s t"
  "srv_moves s (srv_setChild i c t) = srv_moves s t"
  "srv_moves s (snd (srv_writeFrame env m t)) = srv_moves s t"
  "srv_moves s (snd (srv_sendStreamError env i code msg t)) = srv_moves s t"
  "srv_moves s s"
  by (auto simp: srv_moves_def srv_registry_def srv_writeFrame_def srv_sendStreamError_def split: sum.splits)

lemma srv_moves_write: "srv_writeFrame env m t = (e, t') \<Longrightarrow> srv_moves s t' = srv_moves s t"
  by (metis snd_conv srv_moves_simps(3))

lemma srv_moves_close [intro!]: "srv_moves s t \<Longrightarrow> srv_moves s (snd (srv_closeStream env i reason b t))"
  using srv_moves_closeStream srv_moves_trans by blast

lemma srv_moves_data: "srv_moves s (snd (srv_data env f s))"
  unfolding srv_data_def Let_def by (auto simp: srv_moves_write split: sum.splits prod.splits option.splits)

lemma srv_moves_open: "srv_moves s (snd (srv_open env cd f s))"
proof (cases "\<exists>op st. p_open cd (f_payload f) = Ok op \<and> ValidateStreamOpen (f_stream f) op = Ok () \<and>
     terminals_reserve (srv_states s) (f_stream f) = Ok st")
  case True
  then obtain op st where p: "p_open cd (f_payload f) = Ok op" and v: "ValidateStreamOpen (f_stream f) op = Ok ()"
    and r: "terminals_reserve (srv_states s) (f_stream f) = Ok st" by blast
  let ?i = "f_stream f"
  have st: "registry_reserve (srv_registry s) ?i StreamKindTerminal = Ok (tset_registry st)"
    using r by (auto simp: terminals_reserve_def srv_registry_def result_splits)
  then have n: "tset_registry st = (srv_registry s)(?i \<mapsto> \<lparr>sr_kind = StreamKindTerminal, sr_state = StreamOpening\<rparr>)"
    by (auto simp: registry_reserve_def split: if_splits)
  have m: "reg_moves {StreamKindTerminal} (srv_registry s) (tset_registry st)" using reg_moves_call(1) [OF _ st] by simp
  have "registry_close (tset_registry st) ?i StreamKindTerminal = Ok (srv_registry (srv_refused ?i s))"
    by (simp add: registry_close_def n srv_refused_def srv_registry_def)
  then have "srv_moves s (srv_refused ?i s)"
    unfolding srv_moves_def using m reg_moves_call(3) reg_moves_trans by blast
  moreover have "registry_accept (tset_registry st) ?i StreamKindTerminal = Ok (srv_registry (srv_opened ?i op rd s))" for rd
    by (simp add: registry_accept_def n srv_opened_def terminal_opened_def srv_registry_def)
  then have "srv_moves s (srv_opened ?i op rd s)" for rd
    unfolding srv_moves_def using m reg_moves_call(2) reg_moves_trans by blast
  ultimately show ?thesis by (auto simp: srv_open_reserved [OF p v r])
next
  case False
  then show ?thesis by (simp add: srv_open_rejected)
qed

lemma srv_moves_windowUpdate: "srv_moves s (snd (srv_windowUpdate cd f s))"
  by (simp add: srv_windowUpdate_def split: sum.split)

lemma srv_moves_resize: "srv_moves s (snd (srv_resize env cd f s))"
  by (simp add: srv_resize_def srv_moves_closeStream split: sum.split)

lemma srv_moves_peerClose: "srv_moves s (snd (srv_peerClose env cd f s))"
  by (simp add: srv_peerClose_def srv_moves_closeStream split: sum.split)

lemma srv_moves_peerError: "srv_moves s (snd (srv_peerError env cd f s))"
  by (simp add: srv_peerError_def srv_moves_closeStream split: sum.split)

lemma srv_moves_Handle: "srv_moves s (snd (srv_Handle env cd f s))"
  by (simp add: srv_Handle_def srv_moves_open srv_moves_data srv_moves_windowUpdate srv_moves_resize
      srv_moves_peerClose srv_moves_peerError)

lemma srv_moves_sendData: "srv_moves s (snd (srv_sendData env i data s))"
proof (cases "srv_children s i")
  case (Some c)
  obtain out s' where r: "srv_sendData env i data s = (out, s')" by fastforce
  from sendData_sends [OF Some r] have "srv_states s' = srv_states s" by (auto simp: sent_output_def)
  then show ?thesis by (simp add: r srv_moves_same)
next
  case None
  then show ?thesis by (subst srv_sendData.simps) simp
qed

lemma srv_moves_finishSend: "srv_moves s (snd r) \<Longrightarrow> srv_moves s (srv_finishSend i r)"
  by (auto simp: srv_finishSend_def split: option.splits)

lemma srv_moves_step:
  assumes "\<forall>op. ev \<noteq> EvOthers op"
  shows "srv_moves s (srv_step cd env ev s)"
proof (cases ev)
  case (EvOutput i ch)
  then show ?thesis
    by (auto simp: srv_forwardOutput_def intro!: srv_moves_finishSend srv_moves_sendData split: option.splits)
next
  case (EvResume i)
  then show ?thesis by (auto simp: srv_resumeOutput_def intro!: srv_moves_finishSend srv_moves_sendData split: option.splits)
next
  case EvCloseAll
  then show ?thesis by (simp add: srv_moves_def srv_CloseAll_def srv_registry_def terminals_closeAll_def reg_moves_call)
next
  case (EvExit i b)
  then show ?thesis by (simp add: srv_waitProcess_def srv_moves_closeStream split: option.split)
qed (use assms in \<open>simp_all add: srv_moves_Handle\<close>)

section \<open>The file engine\<close>

definition fsv_moves :: "file_server \<Rightarrow> file_server \<Rightarrow> bool" where
  "fsv_moves s s' \<longleftrightarrow> reg_moves {StreamKindFileUpload, StreamKindFileDownload} (fsv_registry s) (fsv_registry s')"

lemma fsv_moves_same: "fsv_registry s' = fsv_registry s \<Longrightarrow> fsv_moves s s'"
  by (simp add: fsv_moves_def)

lemma fsv_moves_trans: "fsv_moves s t \<Longrightarrow> fsv_moves t u \<Longrightarrow> fsv_moves s u"
  unfolding fsv_moves_def by (rule reg_moves_trans)

lemma fsv_moves_simps [simp]:
  "fsv_moves s (fsv_note e t) = fsv_moves s t"
  "fsv_moves s (fsv_setChild i c t) = fsv_moves s t"
  "fsv_moves s (t\<lparr>fsv_fs := fs\<rparr>) = fsv_moves s t"
  "fsv_moves s (t\<lparr>fsv_active := n\<rparr>) = fsv_moves s t"
  "fsv_moves s (t\<lparr>fsv_streams := X\<rparr>) = fsv_moves s t"
  "fsv_moves s (t\<lparr>fsv_children := m\<rparr>) = fsv_moves s t"
  "fsv_moves s s"
  by (simp_all add: fsv_moves_def fsv_note_def fsv_setChild_def)

lemma fsv_moves_writeFrame: "fsv_writeFrame env m t = (e, t') \<Longrightarrow> fsv_moves s t' = fsv_moves s t"
  by (auto simp: fsv_writeFrame_def split: if_splits)

lemma fsv_moves_sendStreamError: "fsv_sendStreamError env i c m t = (e, t') \<Longrightarrow> fsv_moves s t' = fsv_moves s t"
  by (auto simp: fsv_sendStreamError_def fsv_moves_writeFrame split: sum.splits)

lemma fsv_moves_sendClose: "fsv_sendClose env i r t = (e, t') \<Longrightarrow> fsv_moves s t' = fsv_moves s t"
  by (auto simp: fsv_sendClose_def fsv_moves_writeFrame split: sum.splits)

abbreviation file_kinds :: "stream_kind set" where
  "file_kinds \<equiv> {StreamKindFileUpload, StreamKindFileDownload}"

lemma fsv_moves_registryClose: "fsv_moves s t \<Longrightarrow> k \<in> file_kinds \<Longrightarrow> fsv_moves s (fsv_registryClose i k t)"
proof (cases "registry_close (fsv_registry t) i k")
  case (Inr r)
  assume "fsv_moves s t" "k \<in> file_kinds"
  moreover from this(2) have "fsv_moves t (t\<lparr>fsv_registry := r\<rparr>)"
    using Inr by (auto simp: fsv_moves_def intro: reg_moves_call)
  ultimately show ?thesis using Inr fsv_moves_trans by (auto simp: fsv_registryClose_def)
qed (simp add: fsv_registryClose_def)

lemma fsv_moves_release: "fsv_moves s t \<Longrightarrow> k \<in> file_kinds \<Longrightarrow> fsv_moves s (fsv_releaseReservation i k t)"
  unfolding fsv_releaseReservation_def Let_def fsv_moves_simps by (rule fsv_moves_registryClose)

text \<open>The kind of every child of the engine is a file kind.\<close>

definition child_kinds :: "file_server \<Rightarrow> bool" where
  "child_kinds s \<longleftrightarrow> (\<forall>i c. i \<in> fsv_streams s \<longrightarrow> fsv_children s i = Some c \<longrightarrow> fc_kind c \<in> file_kinds)"

lemma fsv_moves_closeOnce [simp]: "fsv_moves s (fsv_closeOnce env i c t) = fsv_moves s t"
  by (auto simp: fsv_closeOnce_def split: option.splits prod.splits)

lemma fsv_moves_closeChild: "fsv_moves s t \<Longrightarrow> child_kinds t \<Longrightarrow> fsv_moves s (fsv_closeChild env i t)"
  by (auto simp: fsv_closeChild_def child_kinds_def intro!: fsv_moves_registryClose split: option.splits)

lemma child_kinds_inv: "fsv_inv s \<Longrightarrow> child_kinds s"
  unfolding child_kinds_def using table_okD(5) by (fastforce simp: fsv_inv_def)

definition fsv_track :: "file_server \<Rightarrow> file_server \<Rightarrow> bool" where
  "fsv_track s t \<longleftrightarrow> fsv_moves s t \<and> child_kinds t"

lemma fsv_track_simps [simp]:
  "fsv_track s (fsv_note e t) = fsv_track s t"
  "fsv_track s (t\<lparr>fsv_fs := fs\<rparr>) = fsv_track s t"
  "fsv_track s (t\<lparr>fsv_active := n\<rparr>) = fsv_track s t"
  by (simp_all add: fsv_track_def child_kinds_def fsv_note_def fsv_moves_def)

lemma fsv_track_setChild: "fsv_track s t \<Longrightarrow> fc_kind c \<in> file_kinds \<Longrightarrow> fsv_track s (fsv_setChild i c t)"
  by (simp add: fsv_track_def child_kinds_def fsv_setChild_def)

lemma fsv_track_kind: "fsv_track s t \<Longrightarrow> i \<in> fsv_streams t \<Longrightarrow> fsv_children t i = Some c \<Longrightarrow> fc_kind c \<in> file_kinds"
  by (auto simp: fsv_track_def child_kinds_def)

lemma fsv_track_write:
  "fsv_writeFrame env m t = (e, t') \<Longrightarrow> fsv_track s t' = fsv_track s t"
  "fsv_sendStreamError env i c msg t = (e, t') \<Longrightarrow> fsv_track s t' = fsv_track s t"
  "fsv_sendClose env i r t = (e, t') \<Longrightarrow> fsv_track s t' = fsv_track s t"
  by (auto simp: fsv_sendStreamError_def fsv_sendClose_def fsv_writeFrame_def split: sum.splits if_splits)

lemma fsv_track_registryClose: "fsv_track s t \<Longrightarrow> k \<in> file_kinds \<Longrightarrow> fsv_track s (fsv_registryClose i k t)"
  using fsv_moves_registryClose [of s t k i]
  by (auto simp: fsv_track_def child_kinds_def fsv_registryClose_def split: sum.splits)

lemma fsv_track_release: "fsv_track s t \<Longrightarrow> k \<in> file_kinds \<Longrightarrow> fsv_track s (fsv_releaseReservation i k t)"
  unfolding fsv_releaseReservation_def Let_def fsv_track_simps by (rule fsv_track_registryClose)

lemma fsv_closeChild_kinds: "child_kinds t \<Longrightarrow> child_kinds (fsv_closeChild env i t)"
  by (auto simp: child_kinds_def fsv_closeChild_def fsv_closeOnce_def fsv_setChild_def fsv_registryClose_def Let_def
      split: option.splits prod.splits sum.splits if_splits)

lemma fsv_track_closeChild: "fsv_track s t \<Longrightarrow> fsv_track s (fsv_closeChild env i t)"
  unfolding fsv_track_def using fsv_moves_closeChild fsv_closeChild_kinds by blast

lemma fsv_track_refl: "fsv_inv s \<Longrightarrow> fsv_track s s"
  by (simp add: fsv_track_def child_kinds_inv)

lemma fsv_track_registry:
  "fsv_track s t \<Longrightarrow> reg_moves file_kinds (fsv_registry t) r \<Longrightarrow> fsv_track s (t\<lparr>fsv_registry := r\<rparr>)"
  by (auto simp: fsv_track_def child_kinds_def fsv_moves_def intro: reg_moves_trans)

lemma fsv_track_reserve:
  assumes "fsv_track s t" "k \<in> file_kinds" "fsv_reserve env i k t = (out, t')"
  shows "fsv_track s t'"
proof (cases "registry_reserve (fsv_registry t) i k")
  case (Inr r)
  have t1: "fsv_track s (t\<lparr>fsv_registry := r\<rparr>)"
    by (rule fsv_track_registry [OF assms(1) reg_moves_call(1) [OF assms(2) Inr]])
  show ?thesis
    using assms(3) t1 fsv_track_registryClose [OF t1 assms(2), of i]
    by (auto simp: fsv_reserve_def Inr Let_def fsv_track_write split: if_splits prod.splits option.splits)
qed (use assms in \<open>simp add: fsv_reserve_def\<close>)

lemma fsv_track_activate:
  assumes "fsv_track s t" "fc_kind c \<in> file_kinds" "fsv_activate i c t = (e, t')"
  shows "fsv_track s t'"
proof -
  have t1: "fsv_track s ((fsv_setChild i c t)\<lparr>fsv_streams := insert i (fsv_streams t)\<rparr>)"
    using assms(1,2) by (auto simp: fsv_track_def child_kinds_def fsv_setChild_def fsv_moves_def)
  show ?thesis
  proof (cases "registry_accept (fsv_registry t) i (fc_kind c)")
    case (Inl x)
    then show ?thesis using assms t1
      by (auto simp: fsv_activate_def Let_def fsv_setChild_def fsv_track_def child_kinds_def fsv_moves_def)
  next
    case (Inr r)
    then have "t' = (fsv_setChild i c t)\<lparr>fsv_streams := insert i (fsv_streams t), fsv_registry := r\<rparr>"
      using assms(3) by (simp add: fsv_activate_def Let_def fsv_setChild_def)
    moreover have "reg_moves file_kinds (fsv_registry t) r" using reg_moves_call(2) [OF assms(2) Inr] .
    ultimately show ?thesis using fsv_track_registry [OF t1, of r] by (simp add: fsv_setChild_def)
  qed
qed

lemma fsv_track_openUpload:
  assumes "fsv_track s t" "fsv_openUpload env i m t = (e, t')"
  shows "fsv_track s t'"
proof -
  obtain out t1 where r: "fsv_reserve env i StreamKindFileUpload t = (out, t1)" by fastforce
  have t1: "fsv_track s t1" by (rule fsv_track_reserve [OF assms(1) _ r]) simp
  show ?thesis
  proof (cases "out = Reserved")
    case False
    then show ?thesis using assms(2) t1 r by (auto simp: fsv_openUpload_def split: reserve_outcome.splits)
  next
    case True
    obtain ok t2 where a: "fsv_authorize env i FileTransferUpload (fu_path m) t1 = (ok, t2)" by fastforce
    have t2: "fsv_track s t2" using t1 a by (auto simp: fsv_authorize_def Let_def)
    note rel = fsv_track_release [of s _ StreamKindFileUpload i, simplified]
    show ?thesis
    proof (cases "\<exists>u fs. ok \<and> BeginUpload (fsv_store env) (ev_begin env i) m (fsv_fs t2) = Ok (u, fs)")
      case False
      then show ?thesis
        using assms(2) r True a rel [OF t2]
        by (auto simp: fsv_openUpload_def fsv_track_write split: bool.splits sum.splits)
    next
      case begun: True
      then obtain u fs where b: "ok" "BeginUpload (fsv_store env) (ev_begin env i) m (fsv_fs t2) = Ok (u, fs)" by blast
      let ?t3 = "t2\<lparr>fsv_fs := fs\<rparr>"
      let ?c = "\<lparr>fc_kind = StreamKindFileUpload, fc_upload = Some u, fc_download = None, fc_send = \<lparr>cr_remaining = 0\<rparr>,
          fc_recv = \<lparr>cr_remaining = typedFileReceiveWindow\<rparr>, fc_remaining = 0, fc_done = False, fc_forwarding = False\<rparr>"
      have cr: "newTypedStreamCredit typedFileReceiveWindow = Ok \<lparr>cr_remaining = typedFileReceiveWindow\<rparr>"
        by (simp add: newTypedStreamCredit_def typedFileReceiveWindow_def MaxTypedStreamWindow_def)
      obtain e4 t4 where ac: "fsv_activate i ?c ?t3 = (e4, t4)" by fastforce
      have t4: "fsv_track s t4" by (rule fsv_track_activate [OF _ _ ac]) (simp_all add: t2)
      have "fsv_track s (fsv_cancelUpload env i u t4)" using t4 by (simp add: fsv_cancelUpload_def)
      then show ?thesis
        using assms(2) r True a b ac rel fsv_track_closeChild t4
        by (auto simp: fsv_openUpload_def cr Let_def fsv_track_write split: option.splits prod.splits)
    qed
  qed
qed

lemma fsv_track_openDownload:
  assumes "fsv_track s t" "fsv_openDownload env i en m t = (e, t')"
  shows "fsv_track s t'"
proof -
  obtain out t1 where r: "fsv_reserve env i StreamKindFileDownload t = (out, t1)" by fastforce
  have t1: "fsv_track s t1" by (rule fsv_track_reserve [OF assms(1) _ r]) simp
  show ?thesis
  proof (cases "out = Reserved")
    case False
    then show ?thesis using assms(2) t1 r by (auto simp: fsv_openDownload_def split: reserve_outcome.splits)
  next
    case True
    obtain ok t2 where a: "fsv_authorize env i FileTransferDownload (fd_path m) t1 = (ok, t2)" by fastforce
    have t2: "fsv_track s t2" using t1 a by (auto simp: fsv_authorize_def Let_def)
    note rel = fsv_track_release [of s _ StreamKindFileDownload i, simplified]
    show ?thesis
    proof (cases "\<exists>d sz j sc. ok \<and> OpenDownload (fsv_store env) (ev_download env i) (\<lambda>_. Err 0) m (fsv_fs t2) (fsv_fs t2) = Ok (d, sz, j) \<and>
        newTypedStreamCredit (so_window en) = Ok sc")
      case False
      then show ?thesis
        using assms(2) r True a rel [OF t2]
        by (auto simp: fsv_openDownload_def fsv_track_write split: bool.splits sum.splits)
    next
      case opened: True
      then obtain d sz j sc where b: "ok"
        "OpenDownload (fsv_store env) (ev_download env i) (\<lambda>_. Err 0) m (fsv_fs t2) (fsv_fs t2) = Ok (d, sz, j)"
        "newTypedStreamCredit (so_window en) = Ok sc" by blast
      let ?c = "\<lparr>fc_kind = StreamKindFileDownload, fc_upload = None, fc_download = Some d, fc_send = sc,
          fc_recv = \<lparr>cr_remaining = 0\<rparr>, fc_remaining = sz, fc_done = False, fc_forwarding = False\<rparr>"
      obtain e4 t4 where ac: "fsv_activate i ?c t2 = (e4, t4)" by fastforce
      have t4: "fsv_track s t4" by (rule fsv_track_activate [OF t2 _ ac]) simp
      have ch: "fc_kind c = StreamKindFileDownload" if "e4 = None" "fsv_writeFrame env (OutAccepted i 1) t4 = (x, t5)"
          "fsv_children t5 i = Some c" for x t5 c
        using that ac fsv_writeFrame_keeps [OF that(2)]
        by (auto simp: fsv_activate_def Let_def fsv_setChild_def split: sum.splits)
      show ?thesis
        using assms(2) r True a b ac rel fsv_track_closeChild t4 fsv_track_setChild ch
        by (auto simp: fsv_openDownload_def Let_def fsv_track_write split: option.splits prod.splits)
    qed
  qed
qed

lemma fsv_track_openChild:
  "fsv_track s t \<Longrightarrow> fsv_openChild i t = Ok c \<Longrightarrow> fc_kind c \<in> file_kinds"
  using fsv_openChild_Ok fsv_track_kind by blast

lemma fsv_track_open:
  assumes "fsv_track s t" "fsv_open env cd f t = (e, t')"
  shows "fsv_track s t'"
  using assms
  by (auto simp: fsv_open_def dest: fsv_track_openUpload [OF assms(1)] fsv_track_openDownload [OF assms(1)]
      split: sum.splits if_splits)

lemma fsv_track_data:
  assumes "fsv_track s t" "fsv_data env f t = (e, t')"
  shows "fsv_track s t'"
proof (cases "\<exists>c u. ValidateStreamData (f_stream f) (f_payload f) = Ok () \<and> fsv_openChild (f_stream f) t = Ok c \<and>
    fc_kind c = StreamKindFileUpload \<and> fc_upload c = Some u")
  case False
  then show ?thesis using assms by (auto simp: fsv_data_def Let_def split: sum.splits bool.splits option.splits)
next
  case True
  then obtain c u where c: "ValidateStreamData (f_stream f) (f_payload f) = Ok ()" "fsv_openChild (f_stream f) t = Ok c"
    "fc_kind c = StreamKindFileUpload" "fc_upload c = Some u" by blast
  show ?thesis
  proof (cases "credit_consume (fc_recv c) (of_nat (length (f_payload f)))")
    case (Inr rc)
    obtain n err u' fs' where w: "upload_Write (ev_write env (f_stream f) (f_payload f)) (f_payload f) (u, fsv_fs t) = ((n, err), (u', fs'))"
      by (metis prod.collapse)
    let ?t1 = "fsv_note (FlStored (f_stream f) (take n (f_payload f)))
        (fsv_setChild (f_stream f) (c\<lparr>fc_recv := rc, fc_upload := Some u'\<rparr>) (t\<lparr>fsv_fs := fs'\<rparr>))"
    have t1: "fsv_track s ?t1" using assms(1) c(3) by (simp add: fsv_track_setChild)
    note cl = fsv_track_closeChild [of s _ env "f_stream f"]
    have set: "fsv_track s (fsv_setChild (f_stream f) (c\<lparr>fc_recv := rc2, fc_upload := Some u'\<rparr>) t2)" if "fsv_track s t2" for t2 rc2
      using that c(3) by (simp add: fsv_track_setChild)
    show ?thesis
      using assms(2) t1
      by (auto simp: fsv_data_def c Inr w Let_def fsv_track_write intro!: cl set split: if_splits option.splits sum.splits prod.splits)
  qed (use assms c in \<open>simp add: fsv_data_def\<close>)
qed

lemma fsv_track_windowUpdate:
  assumes "fsv_track s t" "fsv_windowUpdate cd f t = (e, t')"
  shows "fsv_track s t'"
  using assms
  by (auto simp: fsv_windowUpdate_def intro!: fsv_track_setChild split: sum.splits if_splits)

lemma fsv_track_peerClose:
  assumes "fsv_track s t" "fsv_peerClose env cd f t = (e, t')"
  shows "fsv_track s t'"
  using assms(2)
proof (cases rule: fsv_peerClose_cases)
  case unchanged
  then show ?thesis using assms(1) by simp
next
  case (download c)
  then show ?thesis
    using fsv_track_closeChild [OF assms(1)] by (auto simp: fsv_track_write split: if_splits)
next
  case (upload c u err u' fs' s1)
  have "fc_kind c \<in> file_kinds" using fsv_track_openChild [OF assms(1) upload(1)] .
  then have "fsv_track s s1" unfolding upload(4) using assms(1)
    by (intro fsv_track_closeChild fsv_track_setChild) simp_all
  then show ?thesis using upload(5) by (auto simp: fsv_track_write split: if_splits)
qed

lemma fsv_track_peerError:
  assumes "fsv_track s t" "fsv_peerError env cd f t = (e, t')"
  shows "fsv_track s t'"
  using assms fsv_track_closeChild [OF assms(1)]
  by (auto simp: fsv_peerError_def fsv_track_write split: sum.splits)

lemma fsv_moves_Handle:
  assumes "fsv_inv s" "fsv_Handle env cd f s = (e, s')"
  shows "fsv_moves s s'"
proof -
  note t0 = fsv_track_refl [OF assms(1)]
  have "fsv_track s s'"
    using assms(2) fsv_track_open [OF t0] fsv_track_data [OF t0] fsv_track_windowUpdate [OF t0]
      fsv_track_peerClose [OF t0] fsv_track_peerError [OF t0] t0
    unfolding fsv_Handle_def by (auto split: if_splits)
  then show ?thesis by (simp add: fsv_track_def)
qed

lemma fsv_track_stopForward:
  assumes "fsv_track s t"
  shows "fsv_track s (fsv_stopForward i t)"
  using assms by (auto simp: fsv_track_def fsv_stopForward_def child_kinds_def fsv_setChild_def fsv_moves_def split: option.splits)

lemma fsv_track_download_ends:
  assumes "fsv_track s t"
  shows "fsv_track s (fsv_finishDownload env i t)" "fsv_track s (fsv_readFailed env i t)" "fsv_track s (fsv_abortDownload env i t)"
proof -
  obtain x t1 where x: "fsv_sendClose env i ''download_complete'' t = (x, t1)" by fastforce
  then have "fsv_track s t1" using assms by (simp add: fsv_track_write)
  then show "fsv_track s (fsv_finishDownload env i t)"
    unfolding fsv_finishDownload_def x by (cases x) (simp_all add: fsv_track_stopForward fsv_track_closeChild)
  obtain y t2 where y: "fsv_sendStreamError env i ''download_read_failed'' ''file download failed'' (fsv_closeChild env i t) = (y, t2)"
    by fastforce
  then have "fsv_track s t2" using fsv_track_closeChild [OF assms] by (simp add: fsv_track_write)
  then show "fsv_track s (fsv_readFailed env i t)" unfolding fsv_readFailed_def y by (simp add: fsv_track_stopForward)
  show "fsv_track s (fsv_abortDownload env i t)"
    unfolding fsv_abortDownload_def by (intro fsv_track_stopForward fsv_track_closeChild assms)
qed

lemma fsv_track_tweak:
  "fsv_track s t \<Longrightarrow> fsv_children t i = Some c \<Longrightarrow> fc_kind c' = fc_kind c \<Longrightarrow> fsv_track s (fsv_setChild i c' t)"
  by (auto simp: fsv_track_def child_kinds_def fsv_setChild_def fsv_moves_def)

lemma fsv_moves_forwardDownload:
  assumes "fsv_inv s"
  shows "fsv_moves s (fsv_forwardDownload env sid answer s)"
proof -
  note t0 = fsv_track_refl [OF assms]
  have "fsv_track s (fsv_forwardDownload env sid answer s)"
  proof (cases rule: fsv_forwardDownload_cases [of env sid answer s])
    case same
    then show ?thesis using t0 by simp
  next
    case (idle c d' f)
    have "fsv_track s (fsv_setChild sid (c\<lparr>fc_download := d'\<rparr>) s)" by (rule fsv_track_tweak [OF t0 idle(1)]) simp
    with idle(2,3) show ?thesis using fsv_track_stopForward fsv_track_download_ends by auto
  next
    case (failed c d' rem)
    have "fsv_track s (fsv_setChild sid (c\<lparr>fc_download := d', fc_remaining := rem\<rparr>) s)"
      by (rule fsv_track_tweak [OF t0 failed(1)]) simp
    then show ?thesis unfolding failed(2) by (rule fsv_track_download_ends(3))
  next
    case (sent c d d' bs err sc w s2 f)
    have "fsv_track s s2"
      unfolding fsv_track_write(1) [OF sent(9)] by (rule fsv_track_tweak [OF t0 sent(1)]) simp
    with sent(10,11) show ?thesis using fsv_track_download_ends by auto
  qed
  then show ?thesis by (simp add: fsv_track_def)
qed

lemma fsv_moves_CloseAll:
  assumes "fsv_inv s"
  shows "fsv_moves s (fsv_CloseAll env s)"
proof -
  have "fsv_track s (fold (fsv_closeChild env) xs t)" if "fsv_track s t" for xs t
    using that by (induction xs arbitrary: t) (simp_all add: fsv_track_closeChild)
  then show ?thesis using fsv_track_refl [OF assms] by (simp add: fsv_CloseAll_def fsv_track_def)
qed

section \<open>Two engines on one registry\<close>

text \<open>
  What an engine needs for sharing a registry: it works on a registry inside its state, its
  steps call the registry with its own kinds only, and its reachable states allow calls with
  other kinds at any time.
\<close>

locale stream_engine =
  fixes reg :: "'s \<Rightarrow> registry"
    and put :: "registry \<Rightarrow> 's \<Rightarrow> 's"
    and kinds :: "stream_kind set"
    and reach :: "'s \<Rightarrow> bool"
    and step :: "'s \<Rightarrow> 's \<Rightarrow> bool"
  assumes step_reach: "reach s \<Longrightarrow> step s s' \<Longrightarrow> reach s'"
    and step_moves: "reach s \<Longrightarrow> step s s' \<Longrightarrow> reg_moves kinds (reg s) (reg s')"
    and other_reach: "reach s \<Longrightarrow> op_kind op \<notin> kinds \<Longrightarrow> reach (put (registry_step (reg s) op) s)"
    and reg_put: "reg (put r s) = r"
    and put_put: "put r (put q s) = put r s"
    and put_reg: "put (reg s) s = s"
begin

lemma others_reach:
  assumes "reach s" "reg_moves K (reg s) r" "K \<inter> kinds = {}"
  shows "reach (put r s)"
proof -
  obtain ops where ops: "\<forall>op \<in> set ops. op_kind op \<in> K" "r = foldl registry_step (reg s) ops"
    using assms(2) by (auto simp: reg_moves_def)
  from ops(1) assms(1) have "reach (put (foldl registry_step (reg s) ops) s)"
  proof (induction ops rule: rev_induct)
    case Nil
    then show ?case by (simp add: put_reg)
  next
    case (snoc op ops)
    then have "reach (put (registry_step (reg (put (foldl registry_step (reg s) ops) s)) op)
        (put (foldl registry_step (reg s) ops) s))"
      using assms(3) by (intro other_reach) auto
    then show ?case by (simp add: reg_put put_put)
  qed
  then show ?thesis using ops(2) by simp
qed

end

locale engine_pair =
  a: stream_engine reg_a put_a kinds_a reach_a step_a + b: stream_engine reg_b put_b kinds_b reach_b step_b
  for reg_a :: "'a \<Rightarrow> registry" and put_a kinds_a reach_a step_a
    and reg_b :: "'b \<Rightarrow> registry" and put_b kinds_b reach_b step_b +
  assumes separate: "kinds_a \<inter> kinds_b = {}"
begin

definition joint :: "'a \<Rightarrow> 'b \<Rightarrow> bool" where
  "joint s t \<longleftrightarrow> reach_a s \<and> reach_b t \<and> reg_a s = reg_b t"

lemma joint_step_a:
  assumes "joint s t" "step_a s s'"
  shows "joint s' (put_b (reg_a s') t)"
proof -
  have j: "reach_a s" "reach_b t" "reg_a s = reg_b t" using assms(1) by (simp_all add: joint_def)
  have "reg_moves kinds_a (reg_b t) (reg_a s')" using a.step_moves [OF j(1) assms(2)] j(3) by simp
  then have "reach_b (put_b (reg_a s') t)" using b.others_reach [OF j(2)] separate by blast
  then show ?thesis using a.step_reach [OF j(1) assms(2)] by (simp add: joint_def b.reg_put)
qed

lemma joint_step_b:
  assumes "joint s t" "step_b t t'"
  shows "joint (put_a (reg_b t') s) t'"
proof -
  have j: "reach_a s" "reach_b t" "reg_a s = reg_b t" using assms(1) by (simp_all add: joint_def)
  have "reg_moves kinds_b (reg_a s) (reg_b t')" using b.step_moves [OF j(2) assms(2)] j(3) by simp
  then have "reach_a (put_a (reg_b t') s)" using a.others_reach [OF j(1)] separate by (metis Int_commute)
  then show ?thesis using b.step_reach [OF j(2) assms(2)] by (simp add: joint_def a.reg_put)
qed

end

definition srv_put :: "registry \<Rightarrow> term_server \<Rightarrow> term_server" where
  "srv_put r s = s\<lparr>srv_states := (srv_states s)\<lparr>tset_registry := r\<rparr>\<rparr>"

definition term_step :: "term_codec \<Rightarrow> term_server \<Rightarrow> term_server \<Rightarrow> bool" where
  "term_step cd s s' \<longleftrightarrow> (\<exists>env ev. (\<forall>op. ev \<noteq> EvOthers op) \<and> s' = srv_step cd env ev s)"

definition term_reach :: "term_codec \<Rightarrow> term_server \<Rightarrow> bool" where
  "term_reach cd s \<longleftrightarrow> (\<exists>evs. s = srv_run cd evs (newTypedTerminalServer None))"

lemma srv_run_append: "srv_run cd (xs @ ys) s = srv_run cd ys (srv_run cd xs s)"
  by (induction cd xs s rule: srv_run.induct) simp_all

lemma term_reach_step: "term_reach cd s \<Longrightarrow> term_reach cd (srv_step cd env ev s)"
  unfolding term_reach_def
proof (elim exE)
  fix evs assume "s = srv_run cd evs (newTypedTerminalServer None)"
  then show "\<exists>evs. srv_step cd env ev s = srv_run cd evs (newTypedTerminalServer None)"
    by (intro exI [of _ "evs @ [(env, ev)]"]) (simp add: srv_run_append)
qed

lemma term_reach_ok: "term_reach cd s \<Longrightarrow> server_ok s"
  unfolding term_reach_def using server_ok_run [OF server_ok_new] by blast

interpretation terminals: stream_engine srv_registry srv_put "{StreamKindTerminal}" "term_reach cd" "term_step cd" for cd
proof
  fix s s' op
  show "term_reach cd s \<Longrightarrow> term_step cd s s' \<Longrightarrow> term_reach cd s'"
    using term_reach_step by (auto simp: term_step_def)
  show "term_reach cd s \<Longrightarrow> term_step cd s s' \<Longrightarrow> reg_moves {StreamKindTerminal} (srv_registry s) (srv_registry s')"
    using srv_moves_step by (auto simp: term_step_def srv_moves_def)
  show "term_reach cd s \<Longrightarrow> op_kind op \<notin> {StreamKindTerminal} \<Longrightarrow> term_reach cd (srv_put (registry_step (srv_registry s) op) s)"
    using term_reach_step [of cd s undefined "EvOthers op"] by (simp add: srv_others_def srv_put_def)
qed (simp_all add: srv_put_def srv_registry_def)

definition file_step :: "file_server \<Rightarrow> file_server \<Rightarrow> bool" where
  "file_step s s' \<longleftrightarrow>
     (\<exists>env cd f e. fsv_Handle env cd f s = (e, s')) \<or> (\<exists>env sid answer. s' = fsv_forwardDownload env sid answer s) \<or>
     (\<exists>fs. others_allowed s fs \<and> s' = s\<lparr>fsv_fs := fs\<rparr>) \<or> (\<exists>env. s' = fsv_CloseAll env s)"

interpretation files: stream_engine fsv_registry "\<lambda>r s. s\<lparr>fsv_registry := r\<rparr>" file_kinds
  "\<lambda>s. start_ok None fs0 \<and> fsv_reach None fs0 s" file_step for fs0
proof
  fix s s' op
  show "start_ok None fs0 \<and> fsv_reach None fs0 s \<Longrightarrow> file_step s s' \<Longrightarrow> start_ok None fs0 \<and> fsv_reach None fs0 s'"
    by (auto simp: file_step_def intro: fsv_reach.intros)
  assume r: "start_ok None fs0 \<and> fsv_reach None fs0 s"
  then have "fsv_inv s" using fsv_reach_inv by blast
  then show "file_step s s' \<Longrightarrow> reg_moves file_kinds (fsv_registry s) (fsv_registry s')"
    using fsv_moves_Handle fsv_moves_forwardDownload fsv_moves_CloseAll
    by (auto simp: file_step_def fsv_moves_def)
qed (auto intro: fsv_reach.shared)

interpretation engines: engine_pair srv_registry srv_put "{StreamKindTerminal}" "term_reach cd" "term_step cd"
  fsv_registry "\<lambda>r s. s\<lparr>fsv_registry := r\<rparr>" file_kinds "\<lambda>s. start_ok None fs0 \<and> fsv_reach None fs0 s" file_step for cd fs0
proof
  show "{StreamKindTerminal} \<inter> file_kinds = {}"
    by (simp add: StreamKindTerminal_def StreamKindFileUpload_def StreamKindFileDownload_def)
qed

end
