(* ===== verification/Audit_Log.thy ===== *)
theory Audit_Log
  imports Go_Bytes "HOL-Library.Sublist"
begin

text \<open>
  The persistent audit log (\<open>internal/audit/log.go\<close>): one line of JSON for each event, appended
  under a lock, with one archive that replaces the previous one when the log is full.  The
  file system is the two directory entries the code uses; each system call may fail, and a
  failed write may leave a part of the line behind.  \<open>encoding/json\<close> is the parameter
  \<open>marshal\<close>.
\<close>

section \<open>Events\<close>

definition defaultMaxLogSize :: int where "defaultMaxLogSize = 16777216"
definition maxEventSize :: int where "maxEventSize = 4096"
definition maxFieldLength :: nat where "maxFieldLength = 512"

record audit_event =
  ae_time :: gotime
  ae_type :: string
  ae_outcome :: string
  ae_actor :: string
  ae_peer :: string
  ae_transport :: string
  ae_stream :: u32
  ae_reason :: string

datatype audit_error =
    AuNoDir
  | AuLimit
  | AuType
  | AuOutcome
  | AuFieldLength
  | AuFieldControl
  | AuMarshal nat
  | AuEventSize
  | AuIrregular
  | AuTooLarge
  | AuArchiveIrregular
  | AuIO nat

text \<open>\<open>^[a-z0-9][a-z0-9_.-]{0,95}$\<close>; without the \<open>m\<close> flag \<open>$\<close> is the end of the text.\<close>

definition event_alnum :: "char \<Rightarrow> bool" where
  "event_alnum c = (let n = (of_char c :: nat) in 97 \<le> n \<and> n \<le> 122 \<or> 48 \<le> n \<and> n \<le> 57)"

definition eventNamePattern :: "string \<Rightarrow> bool" where
  "eventNamePattern s =
     (case s of
        [] \<Rightarrow> False
      | c # cs \<Rightarrow> event_alnum c \<and> length cs \<le> 95 \<and> list_all (\<lambda>d. event_alnum d \<or> d \<in> set ''_.-'') cs)"

text \<open>
  The four free fields are checked in the order of a Go map, so which of several bad
  fields is reported is not determined; the model checks them in the order of the literal.
\<close>

fun audit_fields :: "string list \<Rightarrow> audit_error option" where
  "audit_fields [] = None"
| "audit_fields (v # vs) =
     (if maxFieldLength < length v then Some AuFieldLength
      else if contains_any v [CHR 0x0D, CHR 0x0A, CHR 0x00] then Some AuFieldControl
      else audit_fields vs)"

definition validateEvent :: "audit_event \<Rightarrow> (audit_error, audit_event) result" where
  "validateEvent e0 =
     (let e = e0\<lparr>ae_type := trim_space (ae_type e0), ae_outcome := trim_space (ae_outcome e0),
            ae_actor := trim_space (ae_actor e0), ae_peer := trim_space (ae_peer e0),
            ae_transport := trim_space (ae_transport e0), ae_reason := trim_space (ae_reason e0)\<rparr>
      in
        if \<not> eventNamePattern (ae_type e) then Err AuType
        else if \<not> eventNamePattern (ae_outcome e) then Err AuOutcome
        else (case audit_fields [ae_actor e, ae_peer e, ae_transport e, ae_reason e] of
            Some err \<Rightarrow> Err err
          | None \<Rightarrow> Ok e))"

section \<open>The log and its archive\<close>

datatype audit_entry =
    AfFile "byte list"
  | AfOther

record audit_fs =
  au_log :: "audit_entry option"
  au_archive :: "audit_entry option"

record audit_log =
  al_maxBytes :: int

text \<open>The answers of the system calls; \<open>aw_written\<close> bytes of a failed write are stored.\<close>

record audit_env =
  aw_now :: gotime
  aw_lock :: "nat option"
  aw_mkdir :: "nat option"
  aw_lstat :: "nat option"
  aw_lstat_archive :: "nat option"
  aw_remove :: "nat option"
  aw_rename :: "nat option"
  aw_chmod_archive :: "nat option"
  aw_open :: "nat option"
  aw_chmod :: "nat option"
  aw_write :: "nat option"
  aw_written :: nat
  aw_sync :: "nat option"

definition validateExisting :: "audit_env \<Rightarrow> audit_log \<Rightarrow> audit_fs \<Rightarrow> audit_error option" where
  "validateExisting env l fs =
     (case aw_lstat env of Some e \<Rightarrow> Some (AuIO e) | None \<Rightarrow>
      (case au_log fs of
         None \<Rightarrow> None
       | Some AfOther \<Rightarrow> Some AuIrregular
       | Some (AfFile bs) \<Rightarrow>
           if al_maxBytes l < int (length bs) then Some AuTooLarge
           else map_option AuIO (aw_chmod env)))"

definition audit_open :: "audit_env \<Rightarrow> int \<Rightarrow> audit_fs \<Rightarrow> (audit_error, audit_log) result" where
  "audit_open env maxBytes fs =
     (if maxBytes < maxEventSize then Err AuLimit
      else
        let l = \<lparr>al_maxBytes = maxBytes\<rparr> in
        (case validateExisting env l fs of Some e \<Rightarrow> Err e | None \<Rightarrow> Ok l))"

definition Open :: "audit_env \<Rightarrow> string \<Rightarrow> audit_fs \<Rightarrow> (audit_error, audit_log) result" where
  "Open env stateDir fs =
     (if trim_space stateDir = [] then Err AuNoDir else audit_open env defaultMaxLogSize fs)"

definition audit_rotate :: "audit_env \<Rightarrow> byte list \<Rightarrow> audit_fs \<Rightarrow> audit_error option \<times> audit_fs" where
  "audit_rotate env bs fs =
     (case aw_rename env of
        Some e \<Rightarrow> (Some (AuIO e), fs)
      | None \<Rightarrow> (map_option AuIO (aw_chmod_archive env), \<lparr>au_log = None, au_archive = Some (AfFile bs)\<rparr>))"

definition ensureCapacity :: "audit_env \<Rightarrow> audit_log \<Rightarrow> int \<Rightarrow> audit_fs \<Rightarrow> audit_error option \<times> audit_fs" where
  "ensureCapacity env l additional fs =
     (case aw_mkdir env of Some e \<Rightarrow> (Some (AuIO e), fs) | None \<Rightarrow>
      (case aw_lstat env of Some e \<Rightarrow> (Some (AuIO e), fs) | None \<Rightarrow>
       (case au_log fs of
          None \<Rightarrow> (None, fs)
        | Some AfOther \<Rightarrow> (Some AuIrregular, fs)
        | Some (AfFile bs) \<Rightarrow>
            if int (length bs) + additional \<le> al_maxBytes l then (None, fs)
            else
              (case aw_lstat_archive env of Some e \<Rightarrow> (Some (AuIO e), fs) | None \<Rightarrow>
               (case au_archive fs of
                  None \<Rightarrow> audit_rotate env bs fs
                | Some AfOther \<Rightarrow> (Some AuArchiveIrregular, fs)
                | Some (AfFile _) \<Rightarrow>
                    (case aw_remove env of
                       Some e \<Rightarrow> (Some (AuIO e), fs)
                     | None \<Rightarrow> audit_rotate env bs (fs\<lparr>au_archive := None\<rparr>)))))))"

definition audit_content :: "audit_entry option \<Rightarrow> byte list" where
  "audit_content en = (case en of Some (AfFile bs) \<Rightarrow> bs | _ \<Rightarrow> [])"

text \<open>
  \<open>Append\<close> of a non-nil log; \<open>append_locked\<close> is its part after the line is complete.
  \<open>O_CREATE|O_APPEND\<close> opens the entry \<open>ensureCapacity\<close> has just seen to be a regular file or
  missing; the lock keeps other writers of the log out.
\<close>

definition append_locked :: "audit_env \<Rightarrow> audit_log \<Rightarrow> byte list \<Rightarrow> audit_fs \<Rightarrow> audit_error option \<times> audit_fs" where
  "append_locked env l data fs =
     (case aw_lock env of Some e \<Rightarrow> (Some (AuIO e), fs) | None \<Rightarrow>
      (case ensureCapacity env l (int (length data)) fs of
         (Some e, fs1) \<Rightarrow> (Some e, fs1)
       | (None, fs1) \<Rightarrow>
           (case aw_open env of Some e \<Rightarrow> (Some (AuIO e), fs1) | None \<Rightarrow>
             let old = audit_content (au_log fs1); fs2 = fs1\<lparr>au_log := Some (AfFile old)\<rparr> in
             (case aw_chmod env of Some e \<Rightarrow> (Some (AuIO e), fs2) | None \<Rightarrow>
               (case aw_write env of
                  Some e \<Rightarrow> (Some (AuIO e), fs2\<lparr>au_log := Some (AfFile (old @ take (aw_written env) data))\<rparr>)
                | None \<Rightarrow> (map_option AuIO (aw_sync env), fs2\<lparr>au_log := Some (AfFile (old @ data))\<rparr>))))))"

definition Append ::
  "(audit_event \<Rightarrow> (nat, byte list) result) \<Rightarrow> audit_env \<Rightarrow> audit_log \<Rightarrow> audit_event \<Rightarrow> audit_fs \<Rightarrow>
     audit_error option \<times> audit_fs" where
  "Append marshal env l event0 fs =
     (case validateEvent event0 of
        Err e \<Rightarrow> (Some e, fs)
      | Ok event1 \<Rightarrow>
          let event = (if time_is_zero (ae_time event1) then event1\<lparr>ae_time := time_utc (aw_now env)\<rparr>
                else event1\<lparr>ae_time := time_utc (ae_time event1)\<rparr>)
          in
          (case marshal event of
             Err e \<Rightarrow> (Some (AuMarshal e), fs)
           | Ok body \<Rightarrow>
               let data = body @ [10] in
               if maxEventSize < int (length data) then (Some AuEventSize, fs)
               else append_locked env l data fs))"

section \<open>What an append does\<close>

text \<open>The line of an accepted event, and the bytes a call adds to the log.\<close>

definition audit_line ::
  "(audit_event \<Rightarrow> (nat, byte list) result) \<Rightarrow> gotime \<Rightarrow> audit_event \<Rightarrow> byte list option" where
  "audit_line marshal now event0 =
     (case validateEvent event0 of
        Err _ \<Rightarrow> None
      | Ok e \<Rightarrow>
          (case marshal (e\<lparr>ae_time := time_utc (if time_is_zero (ae_time e) then now else ae_time e)\<rparr>) of
             Err _ \<Rightarrow> None
           | Ok text \<Rightarrow> if int (length text) < maxEventSize then Some (text @ [10]) else None))"

definition append_bytes ::
  "(audit_event \<Rightarrow> (nat, byte list) result) \<Rightarrow> audit_env \<Rightarrow> audit_log \<Rightarrow> audit_event \<Rightarrow> audit_fs \<Rightarrow> byte list" where
  "append_bytes marshal env l event fs =
     (case audit_line marshal (aw_now env) event of
        None \<Rightarrow> []
      | Some data \<Rightarrow>
          if aw_lock env = None \<and> fst (ensureCapacity env l (int (length data)) fs) = None \<and>
             aw_open env = None \<and> aw_chmod env = None
          then (if aw_write env = None then data else take (aw_written env) data)
          else [])"

lemma ensureCapacity_cases:
  assumes "ensureCapacity env l n fs = (r, fs')"
  obtains (kept) "fs' = fs" "r = None \<longrightarrow> int (length (audit_content (au_log fs))) + n \<le> al_maxBytes l \<or> au_log fs = None"
  | (dropped) "fs' = fs\<lparr>au_archive := None\<rparr>" "r \<noteq> None"
      "al_maxBytes l < int (length (audit_content (au_log fs))) + n"
  | (rotated) "au_log fs' = None" "audit_content (au_archive fs') = audit_content (au_log fs)"
      "al_maxBytes l < int (length (audit_content (au_log fs))) + n"
  using assms
  by (auto simp: ensureCapacity_def audit_rotate_def audit_content_def split: option.splits audit_entry.splits if_splits)

lemma Append_cases:
  assumes "Append marshal env l event fs = (r, fs')"
  obtains (unchanged) "fs' = fs" "append_bytes marshal env l event fs = []" "r \<noteq> None"
  | (stored) data r1 fs1 where "audit_line marshal (aw_now env) event = Some data"
      "ensureCapacity env l (int (length data)) fs = (r1, fs1)" "au_archive fs' = au_archive fs1"
      "audit_content (au_log fs') = audit_content (au_log fs1) @ append_bytes marshal env l event fs"
      "prefix (append_bytes marshal env l event fs) data"
      "r1 \<noteq> None \<longrightarrow> append_bytes marshal env l event fs = [] \<and> r \<noteq> None"
      "r = None \<longrightarrow> append_bytes marshal env l event fs = data"
proof (cases "audit_line marshal (aw_now env) event")
  case None
  then have "fs' = fs \<and> r \<noteq> None"
    using assms
    by (auto simp: Append_def audit_line_def Let_def split: sum.splits if_splits)
  then show ?thesis using None by (intro unchanged) (auto simp: append_bytes_def)
next
  case (Some data)
  then obtain e body where v: "validateEvent event = Ok e" and d: "data = body @ [10]"
    and m: "marshal (e\<lparr>ae_time := time_utc (if time_is_zero (ae_time e) then aw_now env else ae_time e)\<rparr>) = Ok body"
    and sz: "int (length body) < maxEventSize"
    by (auto simp: audit_line_def split: sum.splits if_splits)
  define e1 where "e1 = (if time_is_zero (ae_time e) then e\<lparr>ae_time := time_utc (aw_now env)\<rparr>
                else e\<lparr>ae_time := time_utc (ae_time e)\<rparr>)"
  have m1: "marshal e1 = Ok body" using m by (simp add: e1_def split: if_splits)
  obtain r1 fs1 where en: "ensureCapacity env l (int (length data)) fs = (r1, fs1)" by fastforce
  have "Append marshal env l event fs = append_locked env l data fs"
    using sz by (simp add: Append_def v Let_def e1_def [symmetric] m1 d)
  then have ap: "append_locked env l data fs = (r, fs')" using assms by simp
  show ?thesis
  proof (cases "aw_lock env")
    case (Some err)
    then show ?thesis using ap by (intro unchanged) (auto simp: append_bytes_def append_locked_def split: option.splits)
  next
    case None
    show ?thesis
      using ap None
      by (intro stored [OF Some en])
        (auto simp: append_bytes_def append_locked_def Some en Let_def audit_content_def take_is_prefix split: option.splits)
  qed
qed

text \<open>
  Runs of the log on one directory: every call of \<open>Append\<close>, failed or not, with the bytes the
  calls have added so far.
\<close>

inductive audit_reach ::
  "(audit_event \<Rightarrow> (nat, byte list) result) \<Rightarrow> audit_log \<Rightarrow> byte list \<Rightarrow> audit_fs \<Rightarrow> bool" for marshal l where
  start: "audit_reach marshal l [] \<lparr>au_log = None, au_archive = None\<rparr>"
| append: "audit_reach marshal l h fs \<Longrightarrow> Append marshal env l event fs = (r, fs') \<Longrightarrow>
     audit_reach marshal l (h @ append_bytes marshal env l event fs) fs'"

definition retained :: "audit_log \<Rightarrow> byte list \<Rightarrow> audit_fs \<Rightarrow> bool" where
  "retained l h fs \<longleftrightarrow>
     (let kept = audit_content (au_archive fs) @ audit_content (au_log fs) in
      suffix kept h \<and> (kept = h \<or> al_maxBytes l - maxEventSize < int (length kept)) \<and>
      int (length (audit_content (au_log fs))) \<le> al_maxBytes l)"

lemma audit_line_size: "audit_line marshal now e = Some data \<Longrightarrow> int (length data) \<le> maxEventSize"
  by (auto simp: audit_line_def split: sum.splits if_splits)

lemma retained_append:
  assumes "retained l h fs" "maxEventSize \<le> al_maxBytes l" "Append marshal env l event fs = (r, fs')"
  shows "retained l (h @ append_bytes marshal env l event fs) fs'"
  using assms(3)
proof (cases rule: Append_cases)
  case unchanged
  then show ?thesis using assms(1) by simp
next
  case (stored data r1 fs1)
  let ?b = "append_bytes marshal env l event fs"
  let ?log = "audit_content (au_log fs)" and ?arc = "audit_content (au_archive fs)"
  have old: "suffix (?arc @ ?log) h" "?arc @ ?log = h \<or> al_maxBytes l - maxEventSize < int (length (?arc @ ?log))"
    "int (length ?log) \<le> al_maxBytes l"
    using assms(1) by (simp_all add: retained_def Let_def)
  have n: "int (length data) \<le> maxEventSize" using audit_line_size [OF stored(1)] .
  have b: "length ?b \<le> length data" using stored(5) by (rule prefix_length_le)
  have sl: "suffix ?log h" using old(1) by (auto simp: suffix_def)
  from stored(2) show ?thesis
  proof (cases rule: ensureCapacity_cases)
    case kept
    have "int (length (?log @ ?b)) \<le> al_maxBytes l"
      using kept(2) stored(6) old(3) b n assms(2) by (cases "r1 = None") (auto simp: audit_content_def)
    moreover have "suffix ((?arc @ ?log) @ ?b) (h @ ?b)" using old(1) by (auto simp: suffix_def)
    ultimately show ?thesis using kept(1) stored(3,4) old(2) by (auto simp: retained_def Let_def)
  next
    case dropped
    then have "?b = []" using stored(6) by simp
    then show ?thesis using dropped stored(3,4) sl n old(3) by (auto simp: retained_def Let_def audit_content_def)
  next
    case rotated
    have lg: "audit_content (au_log fs') = ?b" using rotated(1) stored(4) by (simp add: audit_content_def)
    have "suffix (?log @ ?b) (h @ ?b)" using sl by (auto simp: suffix_def)
    then show ?thesis
      using rotated(2,3) stored(3) lg n b assms(2) by (auto simp: retained_def Let_def)
  qed
qed

lemma audit_reach_retained:
  "audit_reach marshal l h fs \<Longrightarrow> maxEventSize \<le> al_maxBytes l \<Longrightarrow> retained l h fs"
proof (induction rule: audit_reach.induct)
  case start
  then show ?case by (simp add: retained_def audit_content_def maxEventSize_def)
next
  case (append h fs env event r fs')
  then show ?case using retained_append by blast
qed

lemma audit_control_iff:
  "contains_any v [CHR 0x0D, CHR 0x0A, CHR 0x00] \<longleftrightarrow> CHR 0x0D \<in> set v \<or> CHR 0x0A \<in> set v \<or> CHR 0x00 \<in> set v"
  unfolding contains_any_def list_ex_iff by (metis (full_types) list.set_intros set_ConsD empty_iff empty_set)

lemma audit_fields_ok:
  "audit_fields vs = None \<longleftrightarrow>
     (\<forall>v \<in> set vs. length v \<le> maxFieldLength \<and> CHR 0x0D \<notin> set v \<and> CHR 0x0A \<notin> set v \<and> CHR 0x00 \<notin> set v)"
  by (induction vs) (simp_all only: audit_fields.simps audit_control_iff list.set ball_simps insert_iff
      if_distrib not_le [symmetric] split: if_split, blast+)

section \<open>Properties\<close>

text \<open>
  Claim C30. The audit log keeps the recent past.  After any sequence of appends, with any
  failures of the file system, the archive followed by the log is the end of everything ever
  written, all of it or more than the size limit less one event, and the log stays within the
  limit.  An append that reports success has put exactly the line of its event at the end of
  the log, and the event's free fields are short and without line breaks.
\<close>

theorem audit_history_retained:
  assumes "audit_open env0 maxBytes \<lparr>au_log = None, au_archive = None\<rparr> = Ok l"
    and "audit_reach marshal l h fs"
    and "Append marshal env l event fs = (r, fs')"
  shows "retained l (h @ append_bytes marshal env l event fs) fs' \<and>
    (r = None \<longrightarrow>
      (\<exists>e data. validateEvent event = Ok e \<and> audit_line marshal (aw_now env) event = Some data \<and>
         suffix data (audit_content (au_log fs')) \<and>
         (\<forall>v \<in> {ae_actor e, ae_peer e, ae_transport e, ae_reason e}.
            length v \<le> 512 \<and> CHR 0x0D \<notin> set v \<and> CHR 0x0A \<notin> set v)))"
proof -
  have mx: "maxEventSize \<le> al_maxBytes l"
    using assms(1) by (auto simp: audit_open_def Let_def split: if_splits option.splits)
  have "retained l (h @ append_bytes marshal env l event fs) fs'"
    by (rule retained_append [OF audit_reach_retained [OF assms(2) mx] mx assms(3)])
  moreover have "\<exists>e data. validateEvent event = Ok e \<and> audit_line marshal (aw_now env) event = Some data \<and>
         suffix data (audit_content (au_log fs')) \<and>
         (\<forall>v \<in> {ae_actor e, ae_peer e, ae_transport e, ae_reason e}.
            length v \<le> 512 \<and> CHR 0x0D \<notin> set v \<and> CHR 0x0A \<notin> set v)" if "r = None"
    using assms(3)
  proof (cases rule: Append_cases)
    case unchanged
    then show ?thesis using that by simp
  next
    case (stored data r1 fs1)
    then obtain e where e: "validateEvent event = Ok e" by (auto simp: audit_line_def split: sum.splits)
    then have "audit_fields [ae_actor e, ae_peer e, ae_transport e, ae_reason e] = None"
      by (auto simp: validateEvent_def Let_def simp del: audit_fields.simps split: if_splits option.splits)
    moreover have "suffix data (audit_content (au_log fs'))" using stored(4,7) that by (simp add: suffix_def)
    ultimately show ?thesis using e stored(1) by (auto simp: audit_fields_ok maxFieldLength_def simp del: audit_fields.simps)
  qed
  ultimately show ?thesis by blast
qed

theorem audit_history_retained_witness:
  "\<exists>fs'. Append (\<lambda>_. Ok [123, 125]) \<lparr>aw_now = time_of_milli 1, aw_lock = None, aw_mkdir = None, aw_lstat = None,
       aw_lstat_archive = None, aw_remove = None, aw_rename = None, aw_chmod_archive = None, aw_open = None,
       aw_chmod = None, aw_write = None, aw_written = 0, aw_sync = None\<rparr> \<lparr>al_maxBytes = 4096\<rparr>
       \<lparr>ae_time = time_of_milli 1, ae_type = ''a'', ae_outcome = ''b'', ae_actor = [], ae_peer = [],
        ae_transport = [], ae_stream = 2, ae_reason = []\<rparr> \<lparr>au_log = None, au_archive = None\<rparr> = (None, fs') \<and>
     suffix [123, 125, 10] (audit_content (au_log fs'))"
proof -
  define env where "env = \<lparr>aw_now = time_of_milli 1, aw_lock = None, aw_mkdir = None, aw_lstat = None,
       aw_lstat_archive = None, aw_remove = None, aw_rename = None, aw_chmod_archive = None, aw_open = None,
       aw_chmod = None, aw_write = None, aw_written = 0, aw_sync = None\<rparr>"
  define e where "e = \<lparr>ae_time = time_of_milli 1, ae_type = ''a'', ae_outcome = ''b'', ae_actor = [], ae_peer = [],
        ae_transport = [], ae_stream = 2, ae_reason = []\<rparr>"
  let ?fs = "\<lparr>au_log = None, au_archive = None\<rparr>" and ?l = "\<lparr>al_maxBytes = 4096\<rparr>" and ?m = "\<lambda>_. Ok [123, 125]"
  have t: "trim_space ''a'' = ''a''" "trim_space ''b'' = ''b''" "trim_space [] = []"
    by (simp_all add: trim_space_graph graph_char_def) (simp add: trim_space_def)
  have v: "validateEvent e = Ok e"
    by (simp add: validateEvent_def e_def t eventNamePattern_def event_alnum_def contains_any_def)
  have o: "audit_open env 4096 ?fs = Ok ?l"
    by (simp add: audit_open_def maxEventSize_def validateExisting_def env_def)
  obtain fs' where a: "Append ?m env ?l e ?fs = (None, fs')"
    using v by (auto simp: Append_def append_locked_def Let_def env_def maxEventSize_def ensureCapacity_def)
  have "audit_line ?m (aw_now env) e = Some [123, 125, 10]"
    by (simp add: audit_line_def v maxEventSize_def)
  then show ?thesis
    using audit_history_retained [OF o audit_reach.start a] a unfolding env_def e_def by auto
qed

end
