(* ===== verification/Typed_Session.thy ===== *)
theory Typed_Session
  imports Engine_Registry Audit_Log
begin

text \<open>
  A typed session of the agent (\<open>internal/session/typed_stream_session.go\<close>, with
  \<open>typed_stream_wiring.go\<close>, \<open>typed_stream_dispatch.go\<close>, \<open>typed_stream_audit.go\<close> and
  \<open>policy.go\<close>): one authenticated connection on which the terminal and the file engine run
  side by side over one registry, watched by the audit tracker and by the idle and duration
  timers.
\<close>

section \<open>Session policy\<close>

definition maxSessionPolicyDuration :: int where
  "maxSessionPolicyDuration = 7 * 24 * 60 * minute"

definition DefaultSessionIdleTimeout :: int where "DefaultSessionIdleTimeout = 30 * minute"
definition DefaultSessionMaxDuration :: int where "DefaultSessionMaxDuration = 12 * 60 * minute"

record session_policy =
  sp_idle :: int
  sp_max :: int

datatype policy_issue = PolicyNegative | PolicyTooShort | PolicyTooLong | PolicyIdleExceedsMax

definition validateSessionPolicyDuration :: "int \<Rightarrow> policy_issue option" where
  "validateSessionPolicyDuration d =
     (if d < 0 then Some PolicyNegative
      else if 0 < d \<and> d < second then Some PolicyTooShort
      else if maxSessionPolicyDuration < d then Some PolicyTooLong
      else None)"

definition SessionPolicy_Validate :: "session_policy \<Rightarrow> policy_issue option" where
  "SessionPolicy_Validate p =
     (case validateSessionPolicyDuration (sp_idle p) of
        Some e \<Rightarrow> Some e
      | None \<Rightarrow>
          (case validateSessionPolicyDuration (sp_max p) of
             Some e \<Rightarrow> Some e
           | None \<Rightarrow>
               if 0 < sp_idle p \<and> 0 < sp_max p \<and> sp_max p < sp_idle p then Some PolicyIdleExceedsMax else None))"

text \<open>
  A running timer is the instant at which its channel becomes ready; stopping and draining a
  fired timer before resetting it leaves only the new instant.
\<close>

record policy_timers =
  pt_idleDuration :: int
  pt_idle :: "int option"
  pt_max :: "int option"

definition newSessionPolicyTimers :: "int \<Rightarrow> session_policy \<Rightarrow> policy_timers" where
  "newSessionPolicyTimers now p =
     \<lparr>pt_idleDuration = sp_idle p,
      pt_idle = (if 0 < sp_idle p then Some (now + sp_idle p) else None),
      pt_max = (if 0 < sp_max p then Some (now + sp_max p) else None)\<rparr>"

definition timers_Activity :: "int \<Rightarrow> policy_timers \<Rightarrow> policy_timers" where
  "timers_Activity now t =
     (if pt_idle t = None then t else t\<lparr>pt_idle := Some (now + pt_idleDuration t)\<rparr>)"

definition timers_Stop :: "policy_timers \<Rightarrow> policy_timers" where
  "timers_Stop t = t\<lparr>pt_idle := None, pt_max := None\<rparr>"

definition timer_ready :: "int \<Rightarrow> int option \<Rightarrow> bool" where
  "timer_ready now t = (case t of None \<Rightarrow> False | Some at \<Rightarrow> at \<le> now)"

section \<open>The audit tracker\<close>

record audit_tracker =
  at_peer :: string
  at_transport :: string
  at_open :: "u32 set"
  at_events :: "audit_event list"

definition newTypedTerminalAuditTracker :: "string \<Rightarrow> string \<Rightarrow> audit_tracker" where
  "newTypedTerminalAuditTracker peerID transport =
     \<lparr>at_peer = peerID, at_transport = transport, at_open = {}, at_events = []\<rparr>"

definition stream_event :: "audit_tracker \<Rightarrow> string \<Rightarrow> u32 \<Rightarrow> string \<Rightarrow> audit_event" where
  "stream_event t kind sid reason =
     \<lparr>ae_time = \<lparr>t_ns = 0, t_loc = 0\<rparr>, ae_type = kind, ae_outcome = ''success'', ae_actor = [], ae_peer = at_peer t,
      ae_transport = at_transport t, ae_stream = sid, ae_reason = reason\<rparr>"

definition audit_emit :: "audit_event \<Rightarrow> audit_tracker \<Rightarrow> audit_tracker" where
  "audit_emit e t = t\<lparr>at_events := at_events t @ [e]\<rparr>"

definition audit_opened :: "u32 \<Rightarrow> audit_tracker \<Rightarrow> audit_tracker" where
  "audit_opened sid t =
     (if sid < MinTypedStreamID \<or> sid \<in> at_open t then t
      else audit_emit (stream_event t ''terminal.stream_opened'' sid []) (t\<lparr>at_open := insert sid (at_open t)\<rparr>))"

definition audit_closed :: "u32 \<Rightarrow> string \<Rightarrow> audit_tracker \<Rightarrow> audit_tracker" where
  "audit_closed sid reason t =
     (if sid \<notin> at_open t then t
      else audit_emit (stream_event t ''terminal.stream_closed'' sid reason) (t\<lparr>at_open := at_open t - {sid}\<rparr>))"

text \<open>
  The tracker sees a frame of the engine after it has been written; it parses the payload the
  engine has just encoded, so the message itself is what it finds.
\<close>

definition observeOutgoing :: "out_msg \<Rightarrow> audit_tracker \<Rightarrow> audit_tracker" where
  "observeOutgoing m t =
     (case m of
        OutAccepted sid _ \<Rightarrow> audit_opened sid t
      | OutClose sid reason \<Rightarrow>
          audit_closed sid
            (if ValidateStreamClose sid \<lparr>cl_reason = reason\<rparr> = Ok () \<and> reason \<noteq> [] then reason else ''stream_close'') t
      | OutError sid code message \<Rightarrow>
          audit_closed sid
            (if ValidateStreamError sid \<lparr>se_code = code, se_message = message\<rparr> = Ok () \<and> code \<noteq> [] then code
             else ''stream_error'') t
      | _ \<Rightarrow> t)"

definition observeIncoming :: "frame \<Rightarrow> audit_tracker \<Rightarrow> audit_tracker" where
  "observeIncoming f t =
     (if f_type f = TypeStreamClose then audit_closed (f_stream f) ''peer_close'' t
      else if f_type f = TypeStreamError then audit_closed (f_stream f) ''peer_error'' t
      else t)"

text \<open>\<open>closeAll\<close> visits the open streams in the order of a Go map; the model takes them in order.\<close>

definition audit_closeAll :: "string \<Rightarrow> audit_tracker \<Rightarrow> audit_tracker" where
  "audit_closeAll reason t =
     fold (\<lambda>sid. audit_emit (stream_event t ''terminal.stream_closed'' sid reason))
       (sorted_list_of_set (at_open t)) (t\<lparr>at_open := {}\<rparr>)"

section \<open>Dispatch of typed frames\<close>

definition isTypedTerminalFrame :: "ftype \<Rightarrow> bool" where
  "isTypedTerminalFrame t \<longleftrightarrow>
     t \<in> {TypeStreamOpen, TypeStreamAccepted, TypeStreamData, TypeStreamWindowUpdate, TypeStreamResize,
           TypeStreamClose, TypeStreamError}"

text \<open>
  A handled frame changes at most one engine; \<open>routed\<close> is what the Go functions return, with
  the new state of the engine that worked on the frame.
\<close>

datatype engine_change =
    NoChange
  | TerminalChange term_server
  | FileChange file_server

type_synonym routed = "bool \<times> srv_error option \<times> engine_change"

definition routeTypedTerminalFrame ::
  "term_env \<Rightarrow> term_codec \<Rightarrow> capability list \<Rightarrow> term_server option \<Rightarrow> frame \<Rightarrow> routed" where
  "routeTypedTerminalFrame env cd capabilities server f =
     (if \<not> isTypedTerminalFrame (f_type f) then (False, None, NoChange)
      else if \<not> hasSessionCapability capabilities CapabilityTypedStreamsV1 then (True, Some ProtoNotNegotiated, NoChange)
      else (case server of
          None \<Rightarrow> (True, Some ProtoUnavailable, NoChange)
        | Some s \<Rightarrow>
            (case srv_Handle env cd f s of
               (Some e, s1) \<Rightarrow> (True, Some e, TerminalChange s1)
             | (None, s1) \<Rightarrow>
                 if f_type f \<noteq> TypeStreamClose then (True, None, TerminalChange s1)
                 else (case ValidateStreamClose (f_stream f) \<lparr>cl_reason = ''peer_close''\<rparr> of
                     Err e \<Rightarrow> (True, Some (ProtoInvalid e), TerminalChange s1)
                   | Ok _ \<Rightarrow>
                       (case srv_writeFrame env (OutClose (f_stream f) ''peer_close'') s1 of
                          (e, s2) \<Rightarrow> (True, e, TerminalChange s2))))))"

text \<open>
  The parsers of one connection; both engines and the dispatcher decode a payload with the
  same \<open>ParseTypedStreamJSON\<close>.
\<close>

record session_codec =
  sc_term :: term_codec
  sc_upload :: "byte list \<Rightarrow> (ts_error, file_upload_open) result"
  sc_download :: "byte list \<Rightarrow> (ts_error, file_download_open) result"

definition sc_file :: "session_codec \<Rightarrow> file_codec" where
  "sc_file cd =
     \<lparr>q_open = p_open (sc_term cd), q_upload = sc_upload cd, q_download = sc_download cd,
      q_update = p_update (sc_term cd), q_close = p_close (sc_term cd), q_error = p_error (sc_term cd)\<rparr>"

definition routeFileFrame ::
  "fsrv_env \<Rightarrow> session_codec \<Rightarrow> capability list \<Rightarrow> file_server option \<Rightarrow> frame \<Rightarrow> routed" where
  "routeFileFrame env cd capabilities fileServer f =
     (if \<not> hasSessionCapability capabilities CapabilityFileTransferV1 then (True, Some ProtoNotNegotiated, NoChange)
      else (case fileServer of
          None \<Rightarrow> (True, Some ProtoUnavailable, NoChange)
        | Some fs \<Rightarrow> (case fsv_Handle env (sc_file cd) f fs of (e, fs1) \<Rightarrow> (True, e, FileChange fs1))))"

definition routeByKind ::
  "term_env \<Rightarrow> fsrv_env \<Rightarrow> session_codec \<Rightarrow> capability list \<Rightarrow> term_server option \<Rightarrow> file_server option \<Rightarrow> frame \<Rightarrow>
     stream_kind \<Rightarrow> routed" where
  "routeByKind tenv fenv cd capabilities terminalServer fileServer f kind =
     (if kind = StreamKindTerminal then routeTypedTerminalFrame tenv (sc_term cd) capabilities terminalServer f
      else if kind = StreamKindFileUpload \<or> kind = StreamKindFileDownload then routeFileFrame fenv cd capabilities fileServer f
      else (True, Some ProtoStreamKind, NoChange))"

definition routeTypedApplicationFrame ::
  "term_env \<Rightarrow> fsrv_env \<Rightarrow> session_codec \<Rightarrow> capability list \<Rightarrow> registry option \<Rightarrow> term_server option \<Rightarrow>
     file_server option \<Rightarrow> frame \<Rightarrow> routed" where
  "routeTypedApplicationFrame tenv fenv cd capabilities registry terminalServer fileServer f =
     (let byKind = routeByKind tenv fenv cd capabilities terminalServer fileServer f in
      if \<not> isTypedTerminalFrame (f_type f) then (False, None, NoChange)
      else if \<not> hasSessionCapability capabilities CapabilityTypedStreamsV1 then (True, Some ProtoNotNegotiated, NoChange)
      else (case registry of
          None \<Rightarrow> (True, Some ProtoUnavailable, NoChange)
        | Some r \<Rightarrow>
            if f_type f = TypeStreamOpen then
              (case p_open (sc_term cd) (f_payload f) of
                 Err _ \<Rightarrow> (True, Some ProtoMalformed, NoChange)
               | Ok open \<Rightarrow> byKind (so_kind open))
            else
              (case registry_kind r (f_stream f) of
                 None \<Rightarrow> (True, Some (ProtoNotOpen (f_stream f)), NoChange)
               | Some kind \<Rightarrow> byKind kind)))"

section \<open>The session\<close>

text \<open>The frames the session writes itself; their payloads are encoded by \<open>encoding/json\<close>.\<close>

datatype session_msg =
    MsgAccepted "capability list"
  | MsgError string string
  | MsgPong
  | MsgClose int string

text \<open>\<open>encode\<close> tells whether the capabilities can be encoded; without any, the payload is empty.\<close>

definition sessionAcceptedFrame :: "(capability list \<Rightarrow> bool) \<Rightarrow> capability list \<Rightarrow> session_msg option" where
  "sessionAcceptedFrame encode capabilities =
     (if capabilities = [] then Some (MsgAccepted [])
      else if encode capabilities then Some (MsgAccepted capabilities) else None)"

definition sessionPolicyExitCode :: int where "sessionPolicyExitCode = 124"

text \<open>
  The registry the engines share is kept in both of their states, always with the same
  content.  \<open>ss_signal\<close> is the activity channel of capacity one, \<open>ss_frames\<close> what the session
  itself has written, \<open>ss_ended\<close> whether the handler has returned.
\<close>

record typed_session =
  ss_terminals :: term_server
  ss_files :: "file_server option"
  ss_audit :: audit_tracker
  ss_timers :: policy_timers
  ss_signal :: bool
  ss_frames :: "session_msg list"
  ss_reason :: string
  ss_ended :: bool

record session_env =
  sn_term :: term_env
  sn_file :: fsrv_env
  sn_now :: int
  sn_write :: "session_msg \<Rightarrow> bool"

definition ss_write :: "session_env \<Rightarrow> session_msg \<Rightarrow> typed_session \<Rightarrow> bool \<times> typed_session" where
  "ss_write env m s =
     (if sn_write env m then (True, s\<lparr>ss_frames := ss_frames s @ [m]\<rparr>) else (False, s))"

definition ss_record :: "audit_event \<Rightarrow> typed_session \<Rightarrow> typed_session" where
  "ss_record e s = s\<lparr>ss_audit := audit_emit e (ss_audit s)\<rparr>"

definition session_event :: "typed_session \<Rightarrow> string \<Rightarrow> string \<Rightarrow> audit_event" where
  "session_event s kind reason = stream_event (ss_audit s) kind 0 reason"

text \<open>
  The start of \<open>handleTypedTerminalSession\<close>, up to its loop; \<open>None\<close> when it returns before a
  session is open.
\<close>

definition startTypedSession ::
  "(capability list \<Rightarrow> bool) \<Rightarrow> session_env \<Rightarrow> session_policy \<Rightarrow> file_runtime option \<Rightarrow> string \<Rightarrow> string \<Rightarrow>
     capability list \<Rightarrow> fsys \<Rightarrow> typed_session option" where
  "startTypedSession encode env policy runtime peerID transport capabilities tree =
     (let fileNegotiated = hasSessionCapability capabilities CapabilityFileTransferV1 in
      if fileNegotiated \<and> \<not> runtime_Ready runtime then None
      else (case sessionAcceptedFrame encode capabilities of
          None \<Rightarrow> None
        | Some accepted \<Rightarrow>
            if \<not> sn_write env accepted then None
            else
              let s = \<lparr>ss_terminals = newTypedTerminalServer None,
                    ss_files = (if fileNegotiated then Some (newTypedFileServer None tree) else None),
                    ss_audit = newTypedTerminalAuditTracker peerID transport,
                    ss_timers = newSessionPolicyTimers (sn_now env) policy, ss_signal = False,
                    ss_frames = [accepted], ss_reason = ''connection_ended'', ss_ended = False\<rparr>
              in Some (ss_record (session_event s ''terminal.session_opened'' []) s)))"

text \<open>What the session sees of an engine's step: the frames it has written.\<close>

definition term_sent :: "term_effect list \<Rightarrow> out_msg list" where
  "term_sent es = concat (map (\<lambda>e. case e of Sent m \<Rightarrow> [m] | _ \<Rightarrow> []) es)"

definition file_sent :: "file_effect list \<Rightarrow> out_msg list" where
  "file_sent es = concat (map (\<lambda>e. case e of FlSent m \<Rightarrow> [m] | _ \<Rightarrow> []) es)"

definition ss_setTerminals :: "term_server \<Rightarrow> typed_session \<Rightarrow> typed_session" where
  "ss_setTerminals t s =
     (let sent = term_sent (drop (length (srv_log (ss_terminals s))) (srv_log t)) in
      s\<lparr>ss_terminals := t,
        ss_files := map_option (\<lambda>f. f\<lparr>fsv_registry := srv_registry t\<rparr>) (ss_files s),
        ss_audit := fold observeOutgoing sent (ss_audit s),
        ss_signal := (ss_signal s \<or> sent \<noteq> [])\<rparr>)"

definition ss_setFiles :: "file_server \<Rightarrow> typed_session \<Rightarrow> typed_session" where
  "ss_setFiles f s =
     (case ss_files s of
        None \<Rightarrow> s
      | Some f0 \<Rightarrow>
          s\<lparr>ss_files := Some f, ss_terminals := srv_put (fsv_registry f) (ss_terminals s),
            ss_signal := (ss_signal s \<or> file_sent (drop (length (fsv_log f0)) (fsv_log f)) \<noteq> [])\<rparr>)"

definition ss_closeEngines :: "session_env \<Rightarrow> typed_session \<Rightarrow> typed_session" where
  "ss_closeEngines env s =
     (let s1 = (case ss_files s of None \<Rightarrow> s | Some f \<Rightarrow> ss_setFiles (fsv_CloseAll (sn_file env) f) s);
          s2 = ss_setTerminals (srv_CloseAll (ss_terminals s1)) s1
      in s2\<lparr>ss_audit := audit_closeAll (ss_reason s2) (ss_audit s2)\<rparr>)"

text \<open>The deferred calls of the handler, in their order.\<close>

definition ss_return :: "session_env \<Rightarrow> typed_session \<Rightarrow> typed_session" where
  "ss_return env s =
     (let s1 = ss_closeEngines env s;
          s2 = s1\<lparr>ss_timers := timers_Stop (ss_timers s1)\<rparr>
      in (ss_record (session_event s2 ''terminal.session_closed'' (ss_reason s2)) s2)\<lparr>ss_ended := True\<rparr>)"

definition expireSession :: "session_env \<Rightarrow> string \<Rightarrow> typed_session \<Rightarrow> typed_session" where
  "expireSession env reason s =
     snd (ss_write env (MsgClose sessionPolicyExitCode reason) (ss_closeEngines env s))"

definition ss_change :: "engine_change \<Rightarrow> typed_session \<Rightarrow> typed_session" where
  "ss_change ch s =
     (case ch of
        NoChange \<Rightarrow> s
      | TerminalChange t \<Rightarrow> ss_setTerminals t s
      | FileChange f \<Rightarrow> ss_setFiles f s)"

definition ss_frame :: "session_env \<Rightarrow> session_codec \<Rightarrow> capability list \<Rightarrow> frame \<Rightarrow> typed_session \<Rightarrow> typed_session" where
  "ss_frame env cd capabilities f s =
     (case routeTypedApplicationFrame (sn_term env) (sn_file env) cd capabilities (Some (srv_registry (ss_terminals s)))
            (Some (ss_terminals s)) (ss_files s) f of (handled, err, ch) \<Rightarrow>
        if handled then
          let s1 = ss_change ch s in
          (case err of
             Some _ \<Rightarrow>
               ss_return env (snd (ss_write env (MsgError ''protocol_error'' ''invalid typed stream operation'')
                 (s1\<lparr>ss_reason := ''typed_stream_protocol_error''\<rparr>)))
           | None \<Rightarrow>
               s1\<lparr>ss_audit := observeIncoming f (ss_audit s1), ss_timers := timers_Activity (sn_now env) (ss_timers s1)\<rparr>)
        else if f_type f = TypePing then
          (case ss_write env MsgPong s of
             (True, s2) \<Rightarrow> s2
           | (False, s2) \<Rightarrow> ss_return env (s2\<lparr>ss_reason := ''transport_write_failed''\<rparr>))
        else if f_type f = TypeClose then ss_return env (s\<lparr>ss_reason := ''peer_close''\<rparr>)
        else
          ss_return env (snd (ss_write env (MsgError ''unexpected_message'' ''unexpected frame in typed terminal session'')
            (s\<lparr>ss_reason := ''unexpected_message''\<rparr>))))"

text \<open>
  What can happen: the ready cases of the loop's \<open>select\<close>, while the handler runs, and the
  steps of the engines' goroutines, at any time.
\<close>

datatype session_step_event =
    SeReadError
  | SeFrame frame
  | SeActivity
  | SeIdle
  | SeMax
  | SeOutput u32 "byte list option"
  | SeResume u32
  | SeExit u32 bool
  | SeDownload u32 "nat \<Rightarrow> byte list \<times> io_error option"
  | SeTree fsys

fun session_loop :: "session_env \<Rightarrow> session_codec \<Rightarrow> capability list \<Rightarrow> session_step_event \<Rightarrow> typed_session \<Rightarrow> typed_session" where
  "session_loop env cd caps SeReadError s = ss_return env (s\<lparr>ss_reason := ''peer_disconnect''\<rparr>)"
| "session_loop env cd caps (SeFrame f) s = ss_frame env cd caps f s"
| "session_loop env cd caps SeActivity s =
     (if ss_signal s then s\<lparr>ss_signal := False, ss_timers := timers_Activity (sn_now env) (ss_timers s)\<rparr> else s)"
| "session_loop env cd caps SeIdle s =
     (if timer_ready (sn_now env) (pt_idle (ss_timers s))
      then ss_return env (expireSession env ''session idle timeout'' (s\<lparr>ss_reason := ''policy_idle_timeout''\<rparr>)) else s)"
| "session_loop env cd caps SeMax s =
     (if timer_ready (sn_now env) (pt_max (ss_timers s))
      then ss_return env (expireSession env ''session maximum duration reached'' (s\<lparr>ss_reason := ''policy_max_duration''\<rparr>))
      else s)"
| "session_loop env cd caps ev s = s"

definition ss_terminalStep :: "session_env \<Rightarrow> session_codec \<Rightarrow> srv_event \<Rightarrow> typed_session \<Rightarrow> typed_session" where
  "ss_terminalStep env cd ev s = ss_setTerminals (srv_step (sc_term cd) (sn_term env) ev (ss_terminals s)) s"

fun session_step :: "session_env \<Rightarrow> session_codec \<Rightarrow> capability list \<Rightarrow> session_step_event \<Rightarrow> typed_session \<Rightarrow> typed_session" where
  "session_step env cd caps (SeOutput i chunk) s = ss_terminalStep env cd (EvOutput i chunk) s"
| "session_step env cd caps (SeResume i) s = ss_terminalStep env cd (EvResume i) s"
| "session_step env cd caps (SeExit i timedOut) s = ss_terminalStep env cd (EvExit i timedOut) s"
| "session_step env cd caps (SeDownload i answer) s =
     (case ss_files s of None \<Rightarrow> s | Some f \<Rightarrow> ss_setFiles (fsv_forwardDownload (sn_file env) i answer f) s)"
| "session_step env cd caps (SeTree tree) s =
     (case ss_files s of None \<Rightarrow> s
      | Some f \<Rightarrow> if others_allowed f tree then ss_setFiles (f\<lparr>fsv_fs := tree\<rparr>) s else s)"
| "session_step env cd caps ev s = (if ss_ended s then s else session_loop env cd caps ev s)"

end
