(* ===== verification/Session_Runs.thy ===== *)
theory Session_Runs
  imports Typed_Session
begin

text \<open>
  Runs of a typed session: the two engines stay in step with their shared registry, the audit
  trail is complete, and every way out of the session leaves nothing behind.
\<close>

section \<open>What a step of the terminal engine sends\<close>

definition names_end :: "u32 \<Rightarrow> term_effect \<Rightarrow> bool" where
  "names_end i e = (case e of Sent (OutClose j _) \<Rightarrow> j = i | Sent (OutError j _ _) \<Rightarrow> j = i | _ \<Rightarrow> False)"

definition names_start :: "term_effect \<Rightarrow> bool" where
  "names_start e = (case e of Sent (OutAccepted _ _) \<Rightarrow> True | _ \<Rightarrow> False)"

lemma names_simps [simp]:
  "names_end i (Sent (OutClose j r)) = (j = i)" "names_end i (Sent (OutError j c m)) = (j = i)"
  "\<not> names_end i (Sent (OutData j d))" "\<not> names_end i (Sent (OutWindowUpdate j n))" "\<not> names_end i (Sent (OutAccepted j n))"
  "\<not> names_end i (PtyStart j a b c)" "\<not> names_end i (PtyInput j d)" "\<not> names_end i (PtyResize j a b)" "\<not> names_end i (PtyClose j)"
  "\<not> names_start (Sent (OutClose j r))" "\<not> names_start (Sent (OutError j c' m))" "\<not> names_start (Sent (OutData j d))"
  "\<not> names_start (Sent (OutWindowUpdate j n))" "names_start (Sent (OutAccepted j n))"
  "\<not> names_start (PtyStart j a b c)" "\<not> names_start (PtyInput j d)" "\<not> names_start (PtyResize j a b)" "\<not> names_start (PtyClose j)"
  by (simp_all add: names_end_def names_start_def)

text \<open>
  A calm step opens no stream, accepts none, and names the end only of streams that are gone.
\<close>

definition calm :: "term_server \<Rightarrow> term_server \<Rightarrow> bool" where
  "calm s s' \<longleftrightarrow>
     (\<exists>es. srv_log s' = srv_log s @ es \<and> (\<forall>e \<in> set es. \<not> names_start e) \<and>
        (\<forall>i \<in> srv_streams s'. \<forall>e \<in> set es. \<not> names_end i e)) \<and>
     srv_streams s' \<subseteq> srv_streams s"

lemma calm_refl [simp]: "calm s s"
  by (simp add: calm_def)

lemma calm_trans:
  assumes "calm s t" "calm t u"
  shows "calm s u"
proof -
  obtain es where e: "srv_log t = srv_log s @ es" "\<forall>e \<in> set es. \<not> names_start e"
    "\<forall>i \<in> srv_streams t. \<forall>e \<in> set es. \<not> names_end i e" "srv_streams t \<subseteq> srv_streams s"
    using assms(1) unfolding calm_def by blast
  obtain fs where f: "srv_log u = srv_log t @ fs" "\<forall>e \<in> set fs. \<not> names_start e"
    "\<forall>i \<in> srv_streams u. \<forall>e \<in> set fs. \<not> names_end i e" "srv_streams u \<subseteq> srv_streams t"
    using assms(2) unfolding calm_def by blast
  show ?thesis unfolding calm_def using e f by (intro conjI exI [of _ "es @ fs"]) auto
qed

lemma calm_log:
  "srv_log s' = srv_log s \<Longrightarrow> srv_streams s' = srv_streams s \<Longrightarrow> calm s s'"
  by (simp add: calm_def)

lemma calm_effect: "\<not> names_start e \<Longrightarrow> \<forall>i \<in> srv_streams t. \<not> names_end i e \<Longrightarrow> calm s t \<Longrightarrow> calm s (srv_effect e t)"
  by (erule calm_trans) (auto simp: calm_def)

lemma calm_setChild [simp]: "calm s (srv_setChild i c t) = calm s t"
  by (simp add: calm_def)

lemma calm_write: "calm s t \<Longrightarrow> \<not> names_start (Sent m) \<Longrightarrow> \<forall>i \<in> srv_streams t. \<not> names_end i (Sent m) \<Longrightarrow>
    calm s (snd (srv_writeFrame env m t))"
  by (simp add: srv_writeFrame_def calm_effect)

lemma calm_sendStreamError: "calm s t \<Longrightarrow> i \<notin> srv_streams t \<Longrightarrow> calm s (snd (srv_sendStreamError env i c m t))"
  by (auto simp: srv_sendStreamError_def intro!: calm_write split: sum.split)

lemma calm_closeChildOnce: "calm s t \<Longrightarrow> calm s (srv_closeChildOnce i t)"
  by (auto simp: srv_closeChildOnce_def calm_def split: option.split)

lemma closeStream_streams:
  "srv_streams (snd (srv_closeStream env i reason b t)) =
     (if i \<notin> srv_streams t \<or> \<not> terminals_isOpen (srv_states t) i then srv_streams t else srv_streams t - {i})"
proof -
  have c: "srv_streams (srv_closeChildOnce i u) = srv_streams u" for u
    by (simp add: srv_closeChildOnce_def split: option.split)
  have w: "srv_streams (snd (srv_writeFrame env m u)) = srv_streams u" for m u by (simp add: srv_writeFrame_def)
  show ?thesis by (simp add: srv_closeStream_def Let_def c w split: sum.split)
qed

lemma calm_closeStream:
  assumes "calm s t"
  shows "calm s (snd (srv_closeStream env i reason b t))"
proof (cases "i \<notin> srv_streams t \<or> \<not> terminals_isOpen (srv_states t) i")
  case True
  then show ?thesis using assms by (simp add: srv_closeStream_def)
next
  case False
  let ?s1 = "(srv_statesClose i t)\<lparr>srv_streams := srv_streams t - {i}\<rparr>"
  have "calm t ?s1" by (simp add: calm_def srv_statesClose_def split: sum.split)
  then have c: "calm s (srv_closeChildOnce i ?s1)" using calm_trans [OF assms] calm_closeChildOnce by blast
  have "srv_streams (srv_closeChildOnce i ?s1) = srv_streams t - {i}"
    by (simp add: srv_closeChildOnce_def split: option.split)
  then have "calm s (snd (srv_writeFrame env (OutClose i reason) (srv_closeChildOnce i ?s1)))" by (intro calm_write c) auto
  then show ?thesis using False c by (simp add: srv_closeStream_def Let_def split: sum.split)
qed

lemma calm_closed_error:
  assumes "calm s t" "srv_openChild i s = Ok c" "srv_states t = srv_states s" "srv_streams t = srv_streams s"
  shows "calm s (snd (srv_sendStreamError env i code m (snd (srv_closeStream env i reason False t))))"
  using assms by (intro calm_sendStreamError calm_closeStream) (simp_all add: closeStream_streams openChild_Ok)

lemma calm_data: "calm s (snd (srv_data env f s))"
proof (cases "\<exists>c. ValidateStreamData (f_stream f) (f_payload f) = Ok () \<and> srv_openChild (f_stream f) s = Ok c")
  case False
  then show ?thesis by (auto simp: srv_data_def Let_def split: sum.splits)
next
  case True
  then obtain c where c: "ValidateStreamData (f_stream f) (f_payload f) = Ok ()" "srv_openChild (f_stream f) s = Ok c" by blast
  show ?thesis
  proof (cases "credit_consume (tc_recv c) (of_nat (length (f_payload f)))")
    case (Inr rc)
    obtain n bad where w: "env_pty_write env (f_stream f) (f_payload f) = (n, bad)" by fastforce
    let ?s2 = "srv_effect (PtyInput (f_stream f) (take n (f_payload f))) (srv_setChild (f_stream f) (c\<lparr>tc_recv := rc\<rparr>) s)"
    have s2: "calm s ?s2" by (intro calm_effect) simp_all
    obtain e s3 where s3: "srv_writeFrame env (OutWindowUpdate (f_stream f) (of_nat n)) ?s2 = (e, s3)" by fastforce
    have c3: "calm s s3" using calm_write [OF s2, of "OutWindowUpdate (f_stream f) (of_nat n)" env] by (simp add: s3)
    show ?thesis
    proof (cases "bad \<or> n \<noteq> length (f_payload f)")
      case True
      then show ?thesis
        using calm_closed_error [OF s2 c(2)] by (simp add: srv_data_def c Inr w Let_def)
    next
      case False
      then show ?thesis
        using s2 s3 c3 calm_closeStream [OF c3]
        by (simp add: srv_data_def c Inr w Let_def split: sum.split option.split)
    qed
  qed (simp add: srv_data_def c)
qed

lemma calm_windowUpdate: "calm s (snd (srv_windowUpdate cd f s))"
  by (simp add: srv_windowUpdate_def split: sum.split)

lemma calm_resize: "calm s (snd (srv_resize env cd f s))"
  by (auto simp: srv_resize_def intro!: calm_closed_error calm_effect split: sum.split)

lemma calm_peerClose: "calm s (snd (srv_peerClose env cd f s))"
  by (simp add: srv_peerClose_def calm_closeStream split: sum.split)

lemma calm_peerError: "calm s (snd (srv_peerError env cd f s))"
  by (simp add: srv_peerError_def calm_closeStream split: sum.split)

lemma calm_sendData: "calm s (snd (srv_sendData env i data s))"
proof (cases "srv_children s i")
  case (Some c)
  obtain out s' where r: "srv_sendData env i data s = (out, s')" by fastforce
  from sendData_sends [OF Some r] obtain ps sc where "s' = sent_output i ps sc c s" by auto
  then show ?thesis unfolding r by (auto simp: calm_def sent_output_def)
next
  case None
  then show ?thesis by (subst srv_sendData.simps) simp
qed

lemma calm_finishSend: "calm s (snd r) \<Longrightarrow> calm s (srv_finishSend i r)"
  by (simp add: srv_finishSend_def split: option.split)

lemma calm_output:
  "calm s (srv_forwardOutput env i ch s)" "calm s (srv_resumeOutput env i s)" "calm s (srv_waitProcess env i b s)"
  by (simp_all add: srv_forwardOutput_def srv_resumeOutput_def srv_waitProcess_def calm_finishSend calm_sendData
      calm_closeStream split: option.split)

lemma calm_CloseAll: "calm s (srv_CloseAll s)"
  unfolding calm_def by (intro conjI exI [of _ "map PtyClose (sorted_list_of_set
         {sid \<in> srv_streams s. \<exists>c. srv_children s sid = Some c \<and> \<not> tc_done c})"]) (auto simp: srv_CloseAll_def)

text \<open>An open frame either is calm or opens exactly one new stream and says so.\<close>

definition opens_new :: "u32 \<Rightarrow> term_server \<Rightarrow> term_server \<Rightarrow> bool" where
  "opens_new i s s' \<longleftrightarrow>
     (\<exists>a b c n. srv_log s' = srv_log s @ [PtyStart i a b c, Sent (OutAccepted i n)]) \<and>
     srv_streams s' = insert i (srv_streams s) \<and> srv_registry s i = None \<and> srv_registry s' i \<noteq> None \<and> MinTypedStreamID \<le> i"

lemma open_outcome:
  assumes "server_ok s"
  shows "calm s (snd (srv_open env cd f s)) \<or> opens_new (f_stream f) s (snd (srv_open env cd f s))"
proof (cases "\<exists>op st. p_open cd (f_payload f) = Ok op \<and> ValidateStreamOpen (f_stream f) op = Ok () \<and>
     terminals_reserve (srv_states s) (f_stream f) = Ok st")
  case True
  then obtain op st where p: "p_open cd (f_payload f) = Ok op" and v: "ValidateStreamOpen (f_stream f) op = Ok ()"
    and r: "terminals_reserve (srv_states s) (f_stream f) = Ok st" by blast
  let ?i = "f_stream f"
  have new: "srv_registry s ?i = None" "MinTypedStreamID \<le> ?i"
    using r by (simp_all add: terminals_reserve_Ok srv_registry_def)
  then have "?i \<notin> srv_streams s"
    using server_ok_inv [OF assms] by (auto simp: server_inv_def live_streams_def)
  have "calm s (srv_refused ?i s)" by (auto simp: calm_def srv_refused_def)
  then have refused: "calm s (snd (srv_sendStreamError env ?i c m (srv_refused ?i s)))" for c m
    by (rule calm_sendStreamError) (simp add: srv_refused_def)
  have "srv_log (snd (srv_closeStream env ?i reason False (srv_opened ?i op False s))) =
      srv_log s @ [PtyStart ?i (so_cols op) (so_rows op) (so_term op), PtyClose ?i]" for reason
    by (simp add: srv_closeStream_def srv_opened_def terminals_isOpen_def registry_isOpen_def terminal_opened_def Let_def
        srv_closeChildOnce_def srv_statesClose_def split: sum.split)
  moreover have "srv_streams (snd (srv_closeStream env ?i reason False (srv_opened ?i op False s))) = srv_streams s - {?i}" for reason
    by (simp add: closeStream_streams srv_opened_def terminals_isOpen_def registry_isOpen_def terminal_opened_def)
  ultimately have failed: "calm s (snd (srv_closeStream env ?i reason False (srv_opened ?i op False s)))" for reason
    by (auto simp: calm_def)
  have "opens_new ?i s (srv_effect (Sent (OutAccepted ?i typedTerminalReceiveWindow)) (srv_opened ?i op True s))"
    using new by (auto simp: opens_new_def srv_opened_def srv_registry_def terminal_opened_def)
  then show ?thesis using refused failed by (simp add: srv_open_reserved [OF p v r])
next
  case False
  then show ?thesis by (simp add: srv_open_rejected)
qed

lemma handle_outcome:
  assumes "server_ok s"
  shows "calm s (snd (srv_Handle env cd f s)) \<or> opens_new (f_stream f) s (snd (srv_Handle env cd f s)) \<and> f_type f = TypeStreamOpen"
  using open_outcome [OF assms, of env cd f]
  by (auto simp: srv_Handle_def calm_data calm_windowUpdate calm_resize calm_peerClose calm_peerError)

lemma ended_by_peer:
  assumes "srv_Handle env cd f s = (None, s')" "f_type f = TypeStreamClose \<or> f_type f = TypeStreamError"
  shows "f_stream f \<notin> srv_streams s'"
proof -
  have c: "f_stream f \<notin> srv_streams s'" if "srv_closeStream env (f_stream f) reason False s = (None, s')" for reason
    using that closeStream_streams [of env "f_stream f" reason False s]
    by (simp add: srv_closeStream_def split: if_splits)
  from assms show ?thesis
    by (auto simp: srv_Handle_def frame_type_defs srv_peerClose_def srv_peerError_def dest: c split: sum.splits)
qed

section \<open>The audit trail\<close>

definition opened_count :: "u32 \<Rightarrow> audit_tracker \<Rightarrow> nat" where
  "opened_count i t = length (filter (\<lambda>e. ae_type e = ''terminal.stream_opened'' \<and> ae_stream e = i) (at_events t))"

definition closed_count :: "u32 \<Rightarrow> audit_tracker \<Rightarrow> nat" where
  "closed_count i t = length (filter (\<lambda>e. ae_type e = ''terminal.stream_closed'' \<and> ae_stream e = i) (at_events t))"

definition tracker_ok :: "audit_tracker \<Rightarrow> bool" where
  "tracker_ok t \<longleftrightarrow> finite (at_open t) \<and> (\<forall>i. opened_count i t = closed_count i t + of_bool (i \<in> at_open t))"

lemma counts_emit [simp]:
  "opened_count i (audit_emit e t) = opened_count i t + of_bool (ae_type e = ''terminal.stream_opened'' \<and> ae_stream e = i)"
  "closed_count i (audit_emit e t) = closed_count i t + of_bool (ae_type e = ''terminal.stream_closed'' \<and> ae_stream e = i)"
  "at_open (audit_emit e t) = at_open t"
  "opened_count i (t\<lparr>at_open := X\<rparr>) = opened_count i t" "closed_count i (t\<lparr>at_open := X\<rparr>) = closed_count i t"
  by (simp_all add: opened_count_def closed_count_def audit_emit_def)

lemma stream_event_sel [simp]: "ae_type (stream_event t k i r) = k" "ae_stream (stream_event t k i r) = i"
  by (simp_all add: stream_event_def)

lemma tracker_opened:
  assumes "tracker_ok t"
  shows "tracker_ok (audit_opened i t)" "at_open (audit_opened i t) = (if i < MinTypedStreamID then at_open t else insert i (at_open t))"
    "opened_count j (audit_opened i t) \<le> opened_count j t + of_bool (i = j)"
  using assms by (auto simp: audit_opened_def tracker_ok_def)

lemma tracker_closed:
  assumes "tracker_ok t"
  shows "tracker_ok (audit_closed i r t)" "at_open (audit_closed i r t) = at_open t - {i}"
    "opened_count j (audit_closed i r t) = opened_count j t"
  using assms by (auto simp: audit_closed_def tracker_ok_def)

lemma tracker_closeAll:
  assumes "tracker_ok t"
  shows "tracker_ok (audit_closeAll r t)" "at_open (audit_closeAll r t) = {}"
    "opened_count j (audit_closeAll r t) = opened_count j t"
proof -
  let ?f = "\<lambda>sid. audit_emit (stream_event t ''terminal.stream_closed'' sid r)"
  have f: "at_open (fold ?f xs u) = at_open u \<and> opened_count j (fold ?f xs u) = opened_count j u \<and>
      (distinct xs \<longrightarrow> closed_count j (fold ?f xs u) = closed_count j u + of_bool (j \<in> set xs))" for xs u j
    by (induction xs arbitrary: u) auto
  show "at_open (audit_closeAll r t) = {}" "opened_count j (audit_closeAll r t) = opened_count j t"
    using f [of "sorted_list_of_set (at_open t)" "t\<lparr>at_open := {}\<rparr>"] by (simp_all add: audit_closeAll_def)
  show "tracker_ok (audit_closeAll r t)"
    using f [of "sorted_list_of_set (at_open t)" "t\<lparr>at_open := {}\<rparr>"] assms
    by (simp add: audit_closeAll_def tracker_ok_def)
qed

lemma tracker_observeIncoming:
  assumes "tracker_ok t"
  shows "tracker_ok (observeIncoming f t)" "opened_count j (observeIncoming f t) = opened_count j t"
    "at_open (observeIncoming f t) =
       (if f_type f = TypeStreamClose \<or> f_type f = TypeStreamError then at_open t - {f_stream f} else at_open t)"
  using tracker_closed [OF assms] assms by (auto simp: observeIncoming_def)

lemma observe_end:
  assumes "tracker_ok t" "\<not> names_start (Sent m)"
  shows "tracker_ok (observeOutgoing m t)" "opened_count j (observeOutgoing m t) = opened_count j t"
    "at_open (observeOutgoing m t) \<subseteq> at_open t"
    "i \<in> at_open t \<Longrightarrow> \<not> names_end i (Sent m) \<Longrightarrow> i \<in> at_open (observeOutgoing m t)"
  using assms tracker_closed [OF assms(1)] by (auto simp: observeOutgoing_def split: out_msg.splits)

lemma fold_observe:
  assumes "tracker_ok t" "\<forall>m \<in> set ms. \<not> names_start (Sent m)"
  shows "tracker_ok (fold observeOutgoing ms t) \<and> opened_count j (fold observeOutgoing ms t) = opened_count j t \<and>
     at_open (fold observeOutgoing ms t) \<subseteq> at_open t \<and>
     (i \<in> at_open t \<longrightarrow> (\<forall>m \<in> set ms. \<not> names_end i (Sent m)) \<longrightarrow> i \<in> at_open (fold observeOutgoing ms t))"
  using assms
proof (induction ms arbitrary: t)
  case (Cons m ms)
  then have m: "\<not> names_start (Sent m)" "\<forall>m \<in> set ms. \<not> names_start (Sent m)" by simp_all
  note o = observe_end [OF Cons.prems(1) m(1)]
  show ?case using Cons.IH [OF o(1) m(2)] o by auto
qed simp

section \<open>The invariant of a session\<close>

definition audit_ok :: "typed_session \<Rightarrow> bool" where
  "audit_ok s \<longleftrightarrow> tracker_ok (ss_audit s) \<and> srv_streams (ss_terminals s) \<subseteq> at_open (ss_audit s) \<and>
     (\<forall>i. opened_count i (ss_audit s) \<le> of_bool (i \<in> dom (srv_registry (ss_terminals s))))"

lemma term_sent_names:
  assumes "m \<in> set (term_sent es)"
  shows "Sent m \<in> set es"
  using assms by (auto simp: term_sent_def split: term_effect.splits)

lemma term_sent_append [simp]: "term_sent (xs @ ys) = term_sent xs @ term_sent ys"
  by (simp add: term_sent_def)

lemma audit_ok_calm:
  assumes "audit_ok s" "calm (ss_terminals s) t" "dom (srv_registry (ss_terminals s)) \<subseteq> dom (srv_registry t)"
  shows "audit_ok (ss_setTerminals t s)" "at_open (ss_audit (ss_setTerminals t s)) \<subseteq> at_open (ss_audit s)"
proof -
  from assms(2) obtain es where es: "srv_log t = srv_log (ss_terminals s) @ es" "\<forall>e \<in> set es. \<not> names_start e"
    "\<forall>i \<in> srv_streams t. \<forall>e \<in> set es. \<not> names_end i e" "srv_streams t \<subseteq> srv_streams (ss_terminals s)"
    unfolding calm_def by blast
  let ?ms = "term_sent es"
  have ms: "\<forall>m \<in> set ?ms. \<not> names_start (Sent m)" using es(2) term_sent_names by blast
  have ok: "tracker_ok (ss_audit s)" using assms(1) by (simp add: audit_ok_def)
  note fo = fold_observe [OF ok ms]
  have a: "ss_audit (ss_setTerminals t s) = fold observeOutgoing ?ms (ss_audit s)"
    by (simp add: ss_setTerminals_def Let_def es(1))
  have "i \<in> at_open (fold observeOutgoing ?ms (ss_audit s))" if "i \<in> srv_streams t" for i
    using fo [of 0 i] that es(3,4) assms(1) term_sent_names by (auto simp: audit_ok_def)
  moreover have "opened_count i (fold observeOutgoing ?ms (ss_audit s)) \<le> of_bool (i \<in> dom (srv_registry t))" for i
  proof -
    have "opened_count i (ss_audit s) \<le> of_bool (i \<in> dom (srv_registry (ss_terminals s)))"
      using assms(1) by (simp add: audit_ok_def)
    also have "\<dots> \<le> of_bool (i \<in> dom (srv_registry t))" using assms(3) by auto
    finally show ?thesis using fo by simp
  qed
  ultimately show "audit_ok (ss_setTerminals t s)"
    using fo [of 0 0] unfolding audit_ok_def a by (auto simp: ss_setTerminals_def Let_def)
  show "at_open (ss_audit (ss_setTerminals t s)) \<subseteq> at_open (ss_audit s)" unfolding a using fo [of 0 0] by blast
qed

lemma audit_ok_opens:
  assumes "audit_ok s" "opens_new i (ss_terminals s) t" "dom (srv_registry (ss_terminals s)) \<subseteq> dom (srv_registry t)"
  shows "audit_ok (ss_setTerminals t s)"
proof -
  from assms(2) obtain a b c n where l: "srv_log t = srv_log (ss_terminals s) @ [PtyStart i a b c, Sent (OutAccepted i n)]"
    and st: "srv_streams t = insert i (srv_streams (ss_terminals s))"
    and new: "srv_registry (ss_terminals s) i = None" "srv_registry t i \<noteq> None" "MinTypedStreamID \<le> i"
    unfolding opens_new_def by blast
  have ok: "tracker_ok (ss_audit s)" using assms(1) by (simp add: audit_ok_def)
  have au: "ss_audit (ss_setTerminals t s) = audit_opened i (ss_audit s)"
    by (simp add: ss_setTerminals_def Let_def l term_sent_def observeOutgoing_def)
  have cnt: "opened_count j (audit_opened i (ss_audit s)) \<le> of_bool (j \<in> dom (srv_registry t))" for j
  proof -
    have old: "opened_count j (ss_audit s) \<le> of_bool (j \<in> dom (srv_registry (ss_terminals s)))"
      using assms(1) by (simp add: audit_ok_def)
    show ?thesis
    proof (cases "j = i")
      case True
      have "opened_count j (ss_audit s) = 0" using old new(1) True by (auto simp: dom_def)
      then show ?thesis using tracker_opened(3) [OF ok, of j i] new(2) True by (auto simp: dom_def)
    next
      case False
      have "opened_count j (ss_audit s) \<le> of_bool (j \<in> dom (srv_registry t))"
        using assms(3) by (intro order_trans [OF old]) auto
      then show ?thesis using tracker_opened(3) [OF ok, of j i] False by simp
    qed
  qed
  show ?thesis
    unfolding audit_ok_def au using tracker_opened [OF ok, of i] cnt new(3) st assms(1)
    by (auto simp: audit_ok_def ss_setTerminals_def Let_def not_less)
qed

lemma audit_ok_files:
  assumes "audit_ok s" "ss_files s = Some f0" "dom (srv_registry (ss_terminals s)) \<subseteq> dom (fsv_registry f)"
  shows "audit_ok (ss_setFiles f s)"
proof -
  have "srv_streams (srv_put r t) = srv_streams t" "srv_registry (srv_put r t) = r" for r t
    by (simp_all add: srv_put_def srv_registry_def)
  moreover have "opened_count i (ss_audit s) \<le> of_bool (i \<in> dom (fsv_registry f))" for i
  proof -
    have "opened_count i (ss_audit s) \<le> of_bool (i \<in> dom (srv_registry (ss_terminals s)))"
      using assms(1) by (simp add: audit_ok_def)
    also have "\<dots> \<le> of_bool (i \<in> dom (fsv_registry f))" using assms(3) by auto
    finally show ?thesis .
  qed
  ultimately show ?thesis using assms(1) by (simp add: audit_ok_def ss_setFiles_def assms(2))
qed

text \<open>The engines of a session are reachable side by side, over equal registries.\<close>

definition engines_ok :: "session_codec \<Rightarrow> fsys \<Rightarrow> typed_session \<Rightarrow> bool" where
  "engines_ok cd tree s \<longleftrightarrow> start_ok None tree \<and> term_reach (sc_term cd) (ss_terminals s) \<and>
     (\<forall>f. ss_files s = Some f \<longrightarrow> fsv_reach None tree f \<and> srv_registry (ss_terminals s) = fsv_registry f)"

lemma reg_moves_dom: "registry_inv r \<Longrightarrow> reg_moves K r r' \<Longrightarrow> dom r \<subseteq> dom r'"
proof -
  assume "registry_inv r" "reg_moves K r r'"
  then obtain ops where r': "r' = foldl registry_step r ops" and "registry_inv r" by (auto simp: reg_moves_def)
  from this(2) have "dom r \<subseteq> dom (foldl registry_step r ops)"
  proof (induction ops arbitrary: r)
    case (Cons op ops)
    then show ?case using registry_step_dom [of r op] registry_step_inv [of r op] by fastforce
  qed simp
  with r' show ?thesis by simp
qed

lemma term_reach_registry: "term_reach cd s \<Longrightarrow> registry_inv (srv_registry s)"
  using server_ok_inv [OF term_reach_ok] by (auto simp: server_inv_def terminal_set_inv_def srv_registry_def)

lemma terminal_step_ok:
  assumes "engines_ok cd tree s" "term_step (sc_term cd) (ss_terminals s) t"
  shows "engines_ok cd tree (ss_setTerminals t s)" "dom (srv_registry (ss_terminals s)) \<subseteq> dom (srv_registry t)"
proof -
  have r: "term_reach (sc_term cd) (ss_terminals s)" "start_ok None tree" using assms(1) by (simp_all add: engines_ok_def)
  have t: "term_reach (sc_term cd) t" using terminals.step_reach [OF r(1) assms(2)] .
  show "engines_ok cd tree (ss_setTerminals t s)"
  proof (cases "ss_files s")
    case None
    then show ?thesis using r t by (simp add: engines_ok_def ss_setTerminals_def Let_def)
  next
    case (Some f)
    then have "term_reach (sc_term cd) (ss_terminals s) \<and> (start_ok None tree \<and> fsv_reach None tree f) \<and>
        srv_registry (ss_terminals s) = fsv_registry f" using assms(1) by (simp add: engines_ok_def)
    from engines.joint_step_a [unfolded engines.joint_def, OF this assms(2)]
    show ?thesis using Some by (simp add: engines_ok_def ss_setTerminals_def Let_def)
  qed
  show "dom (srv_registry (ss_terminals s)) \<subseteq> dom (srv_registry t)"
    using reg_moves_dom [OF term_reach_registry [OF r(1)] terminals.step_moves [OF r(1) assms(2)]] .
qed

lemma file_step_ok:
  assumes "engines_ok cd tree s" "ss_files s = Some f" "file_step f f'"
  shows "engines_ok cd tree (ss_setFiles f' s)" "dom (srv_registry (ss_terminals s)) \<subseteq> dom (fsv_registry f')"
proof -
  have j: "term_reach (sc_term cd) (ss_terminals s) \<and> (start_ok None tree \<and> fsv_reach None tree f) \<and>
      srv_registry (ss_terminals s) = fsv_registry f" using assms(1,2) by (simp add: engines_ok_def)
  from engines.joint_step_b [unfolded engines.joint_def, OF j assms(3)]
  show "engines_ok cd tree (ss_setFiles f' s)" using assms(2) by (simp add: engines_ok_def ss_setFiles_def)
  have m: "reg_moves file_kinds (srv_registry (ss_terminals s)) (fsv_registry f')"
    using files.step_moves [OF conjunct1 [OF conjunct2 [OF j]] assms(3)] j by simp
  show "dom (srv_registry (ss_terminals s)) \<subseteq> dom (fsv_registry f')"
    using reg_moves_dom [OF term_reach_registry [OF conjunct1 [OF j]] m] .
qed

definition all_closed :: "typed_session \<Rightarrow> bool" where
  "all_closed s \<longleftrightarrow> srv_streams (ss_terminals s) = {} \<and> at_open (ss_audit s) = {} \<and>
     (\<forall>f. ss_files s = Some f \<longrightarrow> fsv_streams f = {})"

definition session_inv :: "session_codec \<Rightarrow> fsys \<Rightarrow> typed_session \<Rightarrow> bool" where
  "session_inv cd tree s \<longleftrightarrow> engines_ok cd tree s \<and> audit_ok s"

lemma session_inv_cong:
  assumes "ss_terminals s' = ss_terminals s" "ss_files s' = ss_files s" "ss_audit s' = ss_audit s"
  shows "session_inv cd tree s' = session_inv cd tree s" "all_closed s' = all_closed s"
  using assms by (simp_all add: session_inv_def engines_ok_def audit_ok_def all_closed_def)

lemma session_inv_simps [simp]:
  "session_inv cd tree (s\<lparr>ss_timers := a\<rparr>) = session_inv cd tree s" "all_closed (s\<lparr>ss_timers := a\<rparr>) = all_closed s"
  "session_inv cd tree (s\<lparr>ss_reason := r\<rparr>) = session_inv cd tree s" "all_closed (s\<lparr>ss_reason := r\<rparr>) = all_closed s"
  "session_inv cd tree (s\<lparr>ss_signal := b\<rparr>) = session_inv cd tree s" "all_closed (s\<lparr>ss_signal := b\<rparr>) = all_closed s"
  "session_inv cd tree (s\<lparr>ss_ended := b\<rparr>) = session_inv cd tree s" "all_closed (s\<lparr>ss_ended := b\<rparr>) = all_closed s"
  "session_inv cd tree (snd (ss_write env m s)) = session_inv cd tree s" "all_closed (snd (ss_write env m s)) = all_closed s"
  by (rule session_inv_cong; simp add: ss_write_def)+

lemma session_inv_audit:
  assumes "session_inv cd tree s" "tracker_ok a" "\<forall>i. opened_count i a = opened_count i (ss_audit s)"
    "srv_streams (ss_terminals s) \<subseteq> at_open a"
  shows "session_inv cd tree (s\<lparr>ss_audit := a\<rparr>)"
  using assms by (simp add: session_inv_def engines_ok_def audit_ok_def)

lemma session_inv_terminals:
  assumes "session_inv cd tree s" "term_step (sc_term cd) (ss_terminals s) t" "calm (ss_terminals s) t"
  shows "session_inv cd tree (ss_setTerminals t s)" "at_open (ss_audit (ss_setTerminals t s)) \<subseteq> at_open (ss_audit s)"
  using assms terminal_step_ok [of cd tree s t] audit_ok_calm [of s t] by (simp_all add: session_inv_def)

lemma session_inv_files:
  assumes "session_inv cd tree s" "ss_files s = Some f" "file_step f f'"
  shows "session_inv cd tree (ss_setFiles f' s)"
  using assms file_step_ok [of cd tree s f f'] audit_ok_files [of s f f'] by (simp add: session_inv_def)

lemma setFiles_sel:
  "ss_files s = Some f \<Longrightarrow> srv_streams (ss_terminals (ss_setFiles f' s)) = srv_streams (ss_terminals s) \<and>
     ss_audit (ss_setFiles f' s) = ss_audit s \<and> ss_files (ss_setFiles f' s) = Some f' \<and> ss_ended (ss_setFiles f' s) = ss_ended s"
  by (simp add: ss_setFiles_def srv_put_def)

lemma setTerminals_sel [simp]:
  "ss_terminals (ss_setTerminals t s) = t" "ss_ended (ss_setTerminals t s) = ss_ended s"
  "ss_files (ss_setTerminals t s) = map_option (\<lambda>f. f\<lparr>fsv_registry := srv_registry t\<rparr>) (ss_files s)"
  by (simp_all add: ss_setTerminals_def Let_def)

lemma closeEngines_ok:
  assumes "session_inv cd tree s"
  shows "session_inv cd tree (ss_closeEngines env s)" "all_closed (ss_closeEngines env s)"
proof -
  define s1 where "s1 = (case ss_files s of None \<Rightarrow> s | Some f \<Rightarrow> ss_setFiles (fsv_CloseAll (sn_file env) f) s)"
  have s1: "session_inv cd tree s1 \<and> (\<forall>f. ss_files s1 = Some f \<longrightarrow> fsv_streams f = {})"
  proof (cases "ss_files s")
    case None
    then show ?thesis using assms by (simp add: s1_def)
  next
    case (Some f)
    have "file_step f (fsv_CloseAll (sn_file env) f)" by (auto simp: file_step_def)
    from session_inv_files [OF assms Some this] have "session_inv cd tree s1" by (simp add: s1_def Some)
    moreover have "fsv_inv f" using assms Some fsv_reach_inv by (auto simp: session_inv_def engines_ok_def)
    then have "fsv_streams (fsv_CloseAll (sn_file env) f) = {}" using fsv_CloseAll_inv by blast
    ultimately show ?thesis using setFiles_sel [OF Some] by (simp add: s1_def Some)
  qed
  let ?t = "srv_CloseAll (ss_terminals s1)" and ?s2 = "ss_setTerminals (srv_CloseAll (ss_terminals s1)) s1"
  have "term_step (sc_term cd) (ss_terminals s1) ?t"
    unfolding term_step_def by (intro exI [of _ "sn_term env"] exI [of _ EvCloseAll]) simp
  then have s2: "session_inv cd tree ?s2" using session_inv_terminals(1) [OF _ _ calm_CloseAll] s1 by blast
  then have tok: "tracker_ok (ss_audit ?s2)" by (simp add: session_inv_def audit_ok_def)
  have eq: "ss_closeEngines env s = ?s2\<lparr>ss_audit := audit_closeAll (ss_reason ?s2) (ss_audit ?s2)\<rparr>"
    by (simp add: ss_closeEngines_def s1_def Let_def)
  show "session_inv cd tree (ss_closeEngines env s)"
    unfolding eq using tracker_closeAll [OF tok] by (intro session_inv_audit [OF s2]) (simp_all add: srv_CloseAll_def)
  show "all_closed (ss_closeEngines env s)"
    unfolding eq using tracker_closeAll [OF tok] s1 by (auto simp: all_closed_def srv_CloseAll_def)
qed

lemma return_ok:
  assumes "session_inv cd tree s"
  shows "session_inv cd tree (ss_return env s)" "all_closed (ss_return env s)"
proof -
  let ?s1 = "ss_closeEngines env s"
  note c = closeEngines_ok [OF assms, of env]
  have tok: "tracker_ok (ss_audit ?s1)" using c(1) by (simp add: session_inv_def audit_ok_def)
  define e where "e = session_event (?s1\<lparr>ss_timers := timers_Stop (ss_timers ?s1)\<rparr>) ''terminal.session_closed'' (ss_reason ?s1)"
  have eq: "ss_return env s = (?s1\<lparr>ss_timers := timers_Stop (ss_timers ?s1)\<rparr>)\<lparr>ss_audit := audit_emit e (ss_audit ?s1), ss_ended := True\<rparr>"
    by (simp add: ss_return_def Let_def ss_record_def e_def)
  have t: "ae_type e = ''terminal.session_closed''" by (simp add: e_def session_event_def)
  have "tracker_ok (audit_emit e (ss_audit ?s1))" using tok t by (simp add: tracker_ok_def)
  then have "session_inv cd tree ((?s1\<lparr>ss_timers := timers_Stop (ss_timers ?s1)\<rparr>)\<lparr>ss_audit := audit_emit e (ss_audit ?s1)\<rparr>)"
    using c t by (intro session_inv_audit) (simp_all add: all_closed_def)
  then show "session_inv cd tree (ss_return env s)" unfolding eq by (simp add: session_inv_def engines_ok_def audit_ok_def)
  show "all_closed (ss_return env s)" unfolding eq using c(2) by (simp add: all_closed_def)
qed

section \<open>Frames and other steps\<close>

lemma route_cases:
  assumes "routeTypedApplicationFrame tenv fenv cd caps (Some r) (Some t) fs f = (handled, err, ch)"
  obtains (none) "ch = NoChange" "handled \<longrightarrow> err \<noteq> None"
  | (terminal) s1 where "srv_Handle tenv (sc_term cd) f t = (err, s1)" "ch = TerminalChange s1" "f_type f \<noteq> TypeStreamClose \<or> err \<noteq> None"
  | (invalid) s1 where "srv_Handle tenv (sc_term cd) f t = (None, s1)" "ch = TerminalChange s1" "err \<noteq> None"
  | (ack) s1 s2 where "srv_Handle tenv (sc_term cd) f t = (None, s1)" "f_type f = TypeStreamClose"
      "srv_writeFrame tenv (OutClose (f_stream f) ''peer_close'') s1 = (err, s2)" "ch = TerminalChange s2"
  | (upon_file) fs0 fs1 where "fs = Some fs0" "fsv_Handle fenv (sc_file cd) f fs0 = (err, fs1)" "ch = FileChange fs1"
      "hasSessionCapability caps CapabilityFileTransferV1"
      "f_type f \<noteq> TypeStreamOpen \<longrightarrow> registry_kind r (f_stream f) \<in> {Some StreamKindFileUpload, Some StreamKindFileDownload}"
proof -
  have T: thesis if "routeTypedTerminalFrame tenv (sc_term cd) caps (Some t) f = (handled, err, ch)"
    "isTypedTerminalFrame (f_type f)"
  proof -
    obtain e s1 where h: "srv_Handle tenv (sc_term cd) f t = (e, s1)" by fastforce
    show thesis
    proof (cases "hasSessionCapability caps CapabilityTypedStreamsV1 \<and> e = None \<and> f_type f = TypeStreamClose")
      case False
      then show thesis
        using that h terminal none by (auto simp: routeTypedTerminalFrame_def split: if_splits option.splits)
    next
      case True
      obtain e2 s2 where w: "srv_writeFrame tenv (OutClose (f_stream f) ''peer_close'') s1 = (e2, s2)" by fastforce
      show thesis
        using True that h w invalid [of s1] ack [of s1 s2] by (auto simp: routeTypedTerminalFrame_def split: sum.splits)
    qed
  qed
  have F: thesis if k: "routeFileFrame fenv cd caps fs f = (handled, err, ch)"
    "f_type f \<noteq> TypeStreamOpen \<longrightarrow> registry_kind r (f_stream f) \<in> {Some StreamKindFileUpload, Some StreamKindFileDownload}"
  proof (cases "\<exists>fs0. hasSessionCapability caps CapabilityFileTransferV1 \<and> fs = Some fs0")
    case True
    then obtain fs0 where f0: "hasSessionCapability caps CapabilityFileTransferV1" "fs = Some fs0" by blast
    obtain e fs1 where "fsv_Handle fenv (sc_file cd) f fs0 = (e, fs1)" by fastforce
    with f0 k show thesis by (intro upon_file [OF f0(2), of fs1]) (auto simp: routeFileFrame_def)
  next
    case False
    then show thesis using k none by (auto simp: routeFileFrame_def split: if_splits option.splits)
  qed
  have K: thesis if k: "routeByKind tenv fenv cd caps (Some t) fs f kind = (handled, err, ch)"
    "isTypedTerminalFrame (f_type f)" "f_type f \<noteq> TypeStreamOpen \<longrightarrow> registry_kind r (f_stream f) = Some kind" for kind
    using k T F none by (auto simp: routeByKind_def split: if_splits)
  show thesis
  proof (cases "isTypedTerminalFrame (f_type f) \<and> hasSessionCapability caps CapabilityTypedStreamsV1")
    case False
    then show thesis using assms none by (auto simp: routeTypedApplicationFrame_def Let_def split: if_splits)
  next
    case True
    show thesis
    proof (cases "f_type f = TypeStreamOpen")
      case opn: True
      show thesis
      proof (cases "p_open (sc_term cd) (f_payload f)")
        case (Inl e)
        then show thesis using assms True opn none by (auto simp: routeTypedApplicationFrame_def Let_def)
      next
        case (Inr o1)
        then show thesis
          using assms True opn K [of "so_kind o1"] by (auto simp: routeTypedApplicationFrame_def Let_def)
      qed
    next
      case later: False
      show thesis
      proof (cases "registry_kind r (f_stream f)")
        case None
        then show thesis using assms True later none by (auto simp: routeTypedApplicationFrame_def Let_def)
      next
        case (Some k)
        then show thesis using assms True later K [of k] by (auto simp: routeTypedApplicationFrame_def Let_def)
      qed
    qed
  qed
qed

lemma handle_term_step: "srv_Handle env cd f s = (e, s') \<Longrightarrow> term_step cd s s'"
  unfolding term_step_def by (intro exI [of _ env] exI [of _ "EvFrame f"]) simp

lemma session_server_ok: "session_inv cd tree s \<Longrightarrow> server_ok (ss_terminals s)"
  using term_reach_ok by (auto simp: session_inv_def engines_ok_def)

lemma session_inv_handle:
  assumes "session_inv cd tree s" "srv_Handle env (sc_term cd) f (ss_terminals s) = (e, t)"
  shows "session_inv cd tree (ss_setTerminals t s)"
proof -
  note st = handle_term_step [OF assms(2)]
  consider "calm (ss_terminals s) t" | "opens_new (f_stream f) (ss_terminals s) t"
    using handle_outcome [OF session_server_ok [OF assms(1)], of env "sc_term cd" f] assms(2) by auto
  then show ?thesis
  proof cases
    case 1
    then show ?thesis using session_inv_terminals [OF assms(1) st] by blast
  next
    case 2
    then show ?thesis
      using assms(1) terminal_step_ok [OF _ st, of tree] audit_ok_opens [OF _ 2] by (simp add: session_inv_def)
  qed
qed

lemma setTerminals_twice:
  "engines_ok cd tree (ss_setTerminals u (ss_setTerminals t s)) = engines_ok cd tree (ss_setTerminals u s)"
  by (auto simp: engines_ok_def)

text \<open>A handled frame keeps the invariant; after a peer's close or error the stream is gone.\<close>

lemma change_ok:
  assumes "session_inv cd tree s"
    and "routeTypedApplicationFrame tenv fenv cd caps (Some (srv_registry (ss_terminals s))) (Some (ss_terminals s)) (ss_files s) f =
      (handled, err, ch)"
  shows "session_inv cd tree (ss_change ch s) \<and> ss_ended (ss_change ch s) = ss_ended s \<and>
    (handled \<and> err = None \<and> (f_type f = TypeStreamClose \<or> f_type f = TypeStreamError) \<longrightarrow>
       f_stream f \<notin> srv_streams (ss_terminals (ss_change ch s)))"
  using assms(2)
proof (cases rule: route_cases)
  case none
  then show ?thesis using assms(1) by (auto simp: ss_change_def)
next
  case (terminal s1)
  then show ?thesis
    using session_inv_handle [OF assms(1) terminal(1)] ended_by_peer [of tenv "sc_term cd" f "ss_terminals s" s1]
    by (auto simp: ss_change_def)
next
  case (invalid s1)
  then show ?thesis using session_inv_handle [OF assms(1) invalid(1)] by (auto simp: ss_change_def)
next
  case (ack s1 s2)
  have gone: "f_stream f \<notin> srv_streams s1" using ended_by_peer [OF ack(1)] ack(2) by simp
  have s2: "srv_streams s2 = srv_streams s1" "calm s1 s2"
    using ack(3) calm_write [OF calm_refl, of "OutClose (f_stream f) ''peer_close''" s1 tenv] gone
    by (auto simp: srv_writeFrame_def split: if_splits)
  have c1: "calm (ss_terminals s) s1"
    using handle_outcome [OF session_server_ok [OF assms(1)], of tenv "sc_term cd" f] ack(1,2) by (auto simp: frame_type_defs)
  have t1: "term_step (sc_term cd) (ss_terminals s) s1" by (rule handle_term_step [OF ack(1)])
  have t2: "term_step (sc_term cd) (ss_terminals (ss_setTerminals s1 s)) s2"
    unfolding term_step_def using ack(3) by (intro exI [of _ tenv] exI [of _ "EvAck (f_stream f)"]) simp
  have e1: "engines_ok cd tree (ss_setTerminals s1 s)" "dom (srv_registry (ss_terminals s)) \<subseteq> dom (srv_registry s1)"
    using assms(1) terminal_step_ok [OF _ t1, of tree] by (simp_all add: session_inv_def)
  have e2: "engines_ok cd tree (ss_setTerminals s2 s)" "dom (srv_registry s1) \<subseteq> dom (srv_registry s2)"
    using terminal_step_ok [OF e1(1) t2] by (simp_all add: setTerminals_twice)
  have "audit_ok (ss_setTerminals s2 s)"
    using assms(1) e1(2) e2(2) by (intro audit_ok_calm calm_trans [OF c1 s2(2)]) (auto simp: session_inv_def)
  then show ?thesis using e2 ack(4) gone s2(1) by (simp add: ss_change_def session_inv_def)
next
  case (upon_file fs0 fs1)
  have st: "file_step fs0 fs1" using upon_file(2) by (auto simp: file_step_def)
  have live: "srv_streams (ss_terminals s) = live_streams (srv_registry (ss_terminals s)) StreamKindTerminal"
    using server_ok_inv [OF session_server_ok [OF assms(1)]] by (simp add: server_inv_def)
  have "f_stream f \<notin> srv_streams (ss_terminals s)" if "f_type f \<noteq> TypeStreamOpen"
    using upon_file(5) that unfolding live
    by (auto simp: registry_kind_def live_streams_def StreamKindTerminal_def StreamKindFileUpload_def
        StreamKindFileDownload_def split: option.splits if_splits)
  then show ?thesis
    using session_inv_files [OF assms(1) upon_file(1) st] setFiles_sel [OF upon_file(1)] upon_file(3)
    by (auto simp: ss_change_def frame_type_defs)
qed

definition session_ok :: "session_codec \<Rightarrow> fsys \<Rightarrow> typed_session \<Rightarrow> bool" where
  "session_ok cd tree s \<longleftrightarrow> session_inv cd tree s \<and> (ss_ended s \<longrightarrow> all_closed s)"

lemma return_session_ok: "session_inv cd tree s \<Longrightarrow> session_ok cd tree (ss_return env s)"
  using return_ok by (simp add: session_ok_def)

lemma frame_ok:
  assumes "session_inv cd tree s" "\<not> ss_ended s"
  shows "session_ok cd tree (ss_frame env cd caps f s)"
proof -
  obtain handled err ch where r: "routeTypedApplicationFrame (sn_term env) (sn_file env) cd caps
      (Some (srv_registry (ss_terminals s))) (Some (ss_terminals s)) (ss_files s) f = (handled, err, ch)"
    by (metis prod.collapse)
  note c = change_ok [OF assms(1) r]
  have inv: "session_inv cd tree (ss_change ch s)" using c by blast
  then have tok: "tracker_ok (ss_audit (ss_change ch s))" "srv_streams (ss_terminals (ss_change ch s)) \<subseteq> at_open (ss_audit (ss_change ch s))"
    by (simp_all add: session_inv_def audit_ok_def)
  show ?thesis
  proof (cases "handled \<and> err = None")
    case True
    then have "session_inv cd tree ((ss_change ch s)\<lparr>ss_audit := observeIncoming f (ss_audit (ss_change ch s))\<rparr>)"
      using tracker_observeIncoming [OF tok(1)] c tok(2) by (intro session_inv_audit [OF inv]) auto
    moreover have "ss_frame env cd caps f s = (ss_change ch s)\<lparr>ss_audit := observeIncoming f (ss_audit (ss_change ch s)),
        ss_timers := timers_Activity (sn_now env) (ss_timers (ss_change ch s))\<rparr>"
      using True by (simp add: ss_frame_def r Let_def)
    ultimately show ?thesis using c assms(2) by (simp add: session_ok_def)
  next
    case False
    have pong: "session_ok cd tree (snd (ss_write env MsgPong s))"
      using assms by (simp add: session_ok_def ss_write_def session_inv_def engines_ok_def audit_ok_def)
    show ?thesis
    proof (cases handled)
      case True
      then show ?thesis
        using False by (auto simp: ss_frame_def r Let_def inv intro!: return_session_ok split: option.split)
    next
      case unhandled: False
      then show ?thesis
        using pong assms
        by (auto simp: ss_frame_def r Let_def intro!: return_session_ok split: prod.split bool.split) (simp_all add: session_ok_def)
    qed
  qed
qed

lemma expire_ok: "session_inv cd tree s \<Longrightarrow> session_ok cd tree (ss_return env (expireSession env r s))"
  unfolding expireSession_def by (intro return_session_ok) (simp add: closeEngines_ok)

lemma forward_streams: "fsv_streams (fsv_forwardDownload env i answer f) \<subseteq> fsv_streams f"
proof -
  have st: "fsv_streams (fsv_stopForward i g) = fsv_streams g" for g
    by (simp add: fsv_stopForward_def fsv_setChild_def split: option.split)
  have w: "fsv_streams h = fsv_streams g" if "fsv_writeFrame env m g = (e, h)" for m g e h
    using fsv_writeFrame_keeps [OF that] by simp
  have se: "fsv_streams h = fsv_streams g" if "fsv_sendStreamError env i c m g = (e, h)" for c m g e h
    using that w by (auto simp: fsv_sendStreamError_def split: sum.splits)
  have sc: "fsv_streams h = fsv_streams g" if "fsv_sendClose env i c g = (e, h)" for c g e h
    using that w by (auto simp: fsv_sendClose_def split: sum.splits)
  have cl: "fsv_streams (fsv_closeChild env i g) \<subseteq> fsv_streams g" for g
    by (auto simp: fsv_closeChild_def fsv_closeOnce_def fsv_registryClose_def fsv_setChild_def Let_def
        split: option.splits prod.splits sum.splits)
  have fin: "fsv_streams (fsv_finishDownload env i g) \<subseteq> fsv_streams g" for g
    using cl sc by (fastforce simp: fsv_finishDownload_def st split: prod.splits option.splits)
  have rf: "fsv_streams (fsv_readFailed env i g) \<subseteq> fsv_streams g" for g
    unfolding fsv_readFailed_def st using se cl by (metis prod.collapse)
  have ab: "fsv_streams (fsv_abortDownload env i g) \<subseteq> fsv_streams g" for g
    unfolding fsv_abortDownload_def st by (rule cl)
  have set: "fsv_streams (fsv_setChild i c g) = fsv_streams g" for c g by (simp add: fsv_setChild_def)
  show ?thesis
  proof (cases rule: fsv_forwardDownload_cases [of env i answer f])
    case same
    then show ?thesis by simp
  next
    case (idle c d' g)
    from idle(2) have "fsv_streams (g x) \<subseteq> fsv_streams x" for x
      by (elim insertE emptyE) (simp_all only: st fin rf subset_refl)
    then show ?thesis unfolding idle(3) by (metis set)
  next
    case (failed c d' rem)
    then show ?thesis unfolding failed(2) by (metis ab set)
  next
    case (sent c d d' bs err sc w1 s2 g)
    have s2: "fsv_streams s2 = fsv_streams f" using w [OF sent(9)] set by simp
    from sent(10) have "fsv_streams (g x) \<subseteq> fsv_streams x" for x
      by (elim insertE emptyE) (simp_all only: ab fin rf subset_refl)
    then show ?thesis unfolding sent(11) by (metis s2)
  qed
qed

lemma goroutine_ok:
  assumes "session_ok cd tree s" "\<forall>op. ev \<noteq> EvOthers op"
    "calm (ss_terminals s) (srv_step (sc_term cd) (sn_term env) ev (ss_terminals s))"
  shows "session_ok cd tree (ss_terminalStep env cd ev s)"
proof -
  let ?t = "srv_step (sc_term cd) (sn_term env) ev (ss_terminals s)"
  have st: "term_step (sc_term cd) (ss_terminals s) ?t" unfolding term_step_def using assms(2) by blast
  have inv: "session_inv cd tree s" using assms(1) by (simp add: session_ok_def)
  note n = session_inv_terminals [OF inv st assms(3)]
  have "srv_streams ?t \<subseteq> srv_streams (ss_terminals s)" using assms(3) by (simp add: calm_def)
  then show ?thesis
    using n assms(1) by (auto simp: ss_terminalStep_def session_ok_def all_closed_def)
qed

lemma session_step_ok:
  assumes "session_ok cd tree s"
  shows "session_ok cd tree (session_step env cd caps ev s)"
proof -
  have inv: "session_inv cd tree s" using assms by (simp add: session_ok_def)
  have files: "session_ok cd tree (ss_setFiles f' s)" if k: "ss_files s = Some f" "file_step f f'" "fsv_streams f' \<subseteq> fsv_streams f" for f f'
    using session_inv_files [OF inv k(1,2)] setFiles_sel [OF k(1), of f'] k(1,3) assms
    by (auto simp: session_ok_def all_closed_def)
  have loop: "session_ok cd tree (session_loop env cd caps ev s)" if "\<not> ss_ended s"
    using that inv assms frame_ok expire_ok return_session_ok
    by (cases ev) (auto simp: session_ok_def)
  show ?thesis
  proof (cases ev)
    case (SeDownload i answer)
    show ?thesis
    proof (cases "ss_files s")
      case (Some f)
      have "file_step f (fsv_forwardDownload (sn_file env) i answer f)" unfolding file_step_def by blast
      then show ?thesis using files [OF Some] forward_streams SeDownload Some by simp
    qed (use assms SeDownload in simp)
  next
    case (SeTree tree')
    show ?thesis
    proof (cases "ss_files s")
      case (Some f)
      have "session_ok cd tree (ss_setFiles (f\<lparr>fsv_fs := tree'\<rparr>) s)" if "others_allowed f tree'"
        using that by (intro files [OF Some]) (auto simp: file_step_def)
      then show ?thesis using SeTree Some assms by simp
    qed (use assms SeTree in simp)
  qed (use loop assms goroutine_ok [OF assms] calm_output in simp_all)
qed

lemma session_start_ok:
  assumes "startTypedSession encode env policy runtime peerID transport caps tree = Some s" "start_ok None tree"
  shows "session_ok cd tree s"
proof -
  have t: "term_reach (sc_term cd) (newTypedTerminalServer None)"
    unfolding term_reach_def by (intro exI [of _ "[]"]) simp
  have r: "srv_registry (newTypedTerminalServer None) = fsv_registry (newTypedFileServer None tree)"
    by (simp add: srv_registry_def newTypedTerminalServer_def newTypedTerminalStreamSetWithRegistry_def newTypedFileServer_def)
  have "engines_ok cd tree s"
    using assms t r fsv_reach.start [of None tree]
    by (auto simp: startTypedSession_def Let_def engines_ok_def ss_record_def split: if_splits option.splits)
  moreover have "audit_ok s"
    using assms(1)
    by (auto simp: startTypedSession_def Let_def audit_ok_def ss_record_def newTypedTerminalAuditTracker_def
        tracker_ok_def opened_count_def closed_count_def audit_emit_def session_event_def newTypedTerminalServer_def
        split: if_splits option.splits)
  moreover have "\<not> ss_ended s"
    using assms(1) by (auto simp: startTypedSession_def Let_def ss_record_def split: if_splits option.splits)
  ultimately show ?thesis by (simp add: session_ok_def session_inv_def)
qed

fun session_run :: "session_codec \<Rightarrow> capability list \<Rightarrow> (session_env \<times> session_step_event) list \<Rightarrow> typed_session \<Rightarrow> typed_session" where
  "session_run cd caps [] s = s"
| "session_run cd caps ((env, ev) # evs) s = session_run cd caps evs (session_step env cd caps ev s)"

lemma session_run_induct [consumes 1, case_names init step]:
  assumes "P s0" "\<And>s env ev. P s \<Longrightarrow> P (session_step env cd caps ev s)"
  shows "P (session_run cd caps evs s0)"
  using assms by (induction cd caps evs s0 rule: session_run.induct) auto

lemma session_run_ok:
  assumes "startTypedSession encode env policy runtime peerID transport caps tree = Some s0" "fs_ok tree"
  shows "session_ok cd tree (session_run cd caps evs s0)"
proof -
  have "session_ok cd tree s0" using session_start_ok [OF assms(1)] assms(2) by (simp add: start_ok_def)
  then show ?thesis by (induction rule: session_run_induct) (rule session_step_ok)
qed

section \<open>Sessions without a capability\<close>

lemma unnegotiated_step:
  assumes "ss_files s = None"
  shows "ss_files (session_step env cd caps ev s) = None"
proof -
  have sf: "ss_files (ss_setFiles f x) = None" if "ss_files x = None" for f x using that by (simp add: ss_setFiles_def)
  have ce: "ss_files (ss_closeEngines env x) = None" if "ss_files x = None" for x
    using that by (simp add: ss_closeEngines_def Let_def)
  have rt: "ss_files (ss_return env x) = None" if "ss_files x = None" for x
    using ce [OF that] by (simp add: ss_return_def Let_def ss_record_def)
  have wr: "ss_files (snd (ss_write env m x)) = ss_files x" for m x by (simp add: ss_write_def)
  have ch: "ss_files (ss_change c s) = None" for c
    using assms sf by (cases c) (simp_all add: ss_change_def)
  have fr: "ss_files (ss_frame env cd caps f s) = None" for f
    using assms ch rt wr by (auto simp: ss_frame_def Let_def ss_write_def split: prod.split option.split bool.split)
  have "ss_files (session_loop env cd caps ev s) = None"
    using assms rt fr ce by (cases ev) (simp_all add: expireSession_def ss_write_def)
  then show ?thesis using assms by (cases ev) (simp_all add: ss_terminalStep_def)
qed

definition untouched :: "term_server \<Rightarrow> bool" where
  "untouched t \<longleftrightarrow> srv_log t = [] \<and> srv_children t = Map.empty \<and> srv_streams t = {}"

lemma untouched_output:
  assumes "untouched t"
  shows "untouched (srv_forwardOutput env i ch t)" "untouched (srv_resumeOutput env i t)" "untouched (srv_waitProcess env i b t)"
    "untouched (srv_CloseAll t)" "untouched (srv_put r t)"
  using assms by (simp_all add: untouched_def srv_forwardOutput_def srv_resumeOutput_def srv_waitProcess_def srv_CloseAll_def
      srv_put_def)

lemma untouched_step:
  assumes "\<not> hasSessionCapability caps CapabilityTypedStreamsV1" "untouched (ss_terminals s)"
  shows "untouched (ss_terminals (session_step env cd caps ev s))"
proof -
  note out = untouched_output
  have sf: "untouched (ss_terminals (ss_setFiles f x)) = untouched (ss_terminals x)" for f x
    by (simp add: ss_setFiles_def untouched_def srv_put_def split: option.split)
  have ce: "untouched (ss_terminals (ss_closeEngines env x))" if "untouched (ss_terminals x)" for x
    using that out(4) sf by (auto simp: ss_closeEngines_def Let_def split: option.split)
  have rt: "untouched (ss_terminals (ss_return env x))" if "untouched (ss_terminals x)" for x
    using ce [OF that] by (simp add: ss_return_def Let_def ss_record_def)
  have ro: "\<exists>h e. routeTypedApplicationFrame a b cd caps r t fs f = (h, e, NoChange)" for a b r t fs f
    using assms(1) by (auto simp: routeTypedApplicationFrame_def Let_def)
  have fr: "untouched (ss_terminals (ss_frame env cd caps f s))" for f
  proof -
    obtain h e where "routeTypedApplicationFrame (sn_term env) (sn_file env) cd caps (Some (srv_registry (ss_terminals s)))
        (Some (ss_terminals s)) (ss_files s) f = (h, e, NoChange)" using ro by blast
    then show ?thesis
      using assms(2) rt by (auto simp: ss_frame_def Let_def ss_change_def ss_write_def split: prod.split option.split bool.split)
  qed
  have "untouched (ss_terminals (session_loop env cd caps ev s))"
    using assms(2) rt fr ce by (cases ev) (simp_all add: expireSession_def ss_write_def)
  then show ?thesis using assms(2) out sf by (cases ev) (simp_all add: ss_terminalStep_def split: option.split)
qed

section \<open>The duration timer\<close>

lemma timer_step:
  assumes "ss_ended s \<or> pt_max (ss_timers s) = d"
  shows "ss_ended (session_step env cd caps ev s) \<or> pt_max (ss_timers (session_step env cd caps ev s)) = d"
proof -
  have sf: "ss_timers (ss_setFiles f x) = ss_timers x" "ss_ended (ss_setFiles f x) = ss_ended x" for f x
    by (simp_all add: ss_setFiles_def split: option.split)
  have st: "ss_timers (ss_setTerminals t x) = ss_timers x" "ss_ended (ss_setTerminals t x) = ss_ended x" for t x
    by (simp_all add: ss_setTerminals_def Let_def)
  have ch: "ss_timers (ss_change c x) = ss_timers x" for c x by (cases c) (simp_all add: ss_change_def sf st)
  have ac: "pt_max (timers_Activity n t) = pt_max t" for n t by (simp add: timers_Activity_def)
  have rt: "ss_ended (ss_return env x)" for x by (simp add: ss_return_def Let_def)
  have fr: "ss_ended (ss_frame env cd caps f s) \<or> pt_max (ss_timers (ss_frame env cd caps f s)) = pt_max (ss_timers s)" for f
    by (auto simp: ss_frame_def Let_def ss_write_def rt ch ac split: prod.split option.split bool.split)
  have "ss_ended (session_loop env cd caps ev s) \<or> pt_max (ss_timers (session_loop env cd caps ev s)) = pt_max (ss_timers s)"
    using fr by (cases ev) (auto simp: rt ac)
  then show ?thesis using assms by (cases ev) (auto simp: ss_terminalStep_def sf st split: option.split)
qed

section \<open>Properties\<close>

text \<open>
  Claim C19. In every run of a typed session the two engines share the connection without
  mixing: a stream is in the terminal engine's table exactly when the registry routes its
  frames there, and in the file engine's table exactly when the registry routes them to that
  engine; no identifier is in both, at most seven terminals and four file streams are open,
  and each engine only ever does what it could do alone.
\<close>

theorem session_engines_separate:
  assumes "startTypedSession encode env policy runtime peerID transport caps tree = Some s0" and "fs_ok tree"
    and "s = session_run cd caps evs s0"
  shows "(\<forall>i. i \<in> srv_streams (ss_terminals s) \<longleftrightarrow> registry_kind (srv_registry (ss_terminals s)) i = Some StreamKindTerminal) \<and>
    card (srv_streams (ss_terminals s)) \<le> 7 \<and>
    (\<exists>tevs. ss_terminals s = srv_run (sc_term cd) tevs (newTypedTerminalServer None)) \<and>
    (\<forall>f. ss_files s = Some f \<longrightarrow>
       fsv_registry f = srv_registry (ss_terminals s) \<and> fsv_reach None tree f \<and> card (fsv_streams f) \<le> 4 \<and>
       fsv_streams f \<inter> srv_streams (ss_terminals s) = {} \<and>
       (\<forall>i. i \<in> fsv_streams f \<longleftrightarrow>
          registry_kind (fsv_registry f) i \<in> {Some StreamKindFileUpload, Some StreamKindFileDownload}))"
proof -
  have ok: "engines_ok cd tree s"
    using session_run_ok [OF assms(1,2)] assms(3) by (simp add: session_ok_def session_inv_def)
  then have tr: "term_reach (sc_term cd) (ss_terminals s)" "start_ok None tree" by (simp_all add: engines_ok_def)
  note inv = server_invD [OF server_ok_inv [OF term_reach_ok [OF tr(1)]]]
  have kind: "registry_kind r i = Some k \<longleftrightarrow> i \<in> live_streams r k" for r i k
    by (auto simp: registry_kind_def live_streams_def split: option.splits if_splits)
  have t: "i \<in> srv_streams (ss_terminals s) \<longleftrightarrow> registry_kind (srv_registry (ss_terminals s)) i = Some StreamKindTerminal" for i
    using inv(2) by (simp add: kind)
  have "card (srv_streams (ss_terminals s)) \<le> 7"
    using inv(1,2) by (simp add: terminal_set_inv_def srv_registry_def maxTerminalStreamsPerConnection_def)
  moreover have "fsv_registry f = srv_registry (ss_terminals s) \<and> fsv_reach None tree f \<and> card (fsv_streams f) \<le> 4 \<and>
       fsv_streams f \<inter> srv_streams (ss_terminals s) = {} \<and>
       (\<forall>i. i \<in> fsv_streams f \<longleftrightarrow>
          registry_kind (fsv_registry f) i \<in> {Some StreamKindFileUpload, Some StreamKindFileDownload})"
    if f: "ss_files s = Some f" for f
  proof -
    have r: "fsv_reach None tree f" "fsv_registry f = srv_registry (ss_terminals s)"
      using ok f by (auto simp: engines_ok_def)
    have tab: "table_ok f" using fsv_reach_inv [OF r(1) tr(2)] by (simp add: fsv_inv_def)
    have k: "i \<in> fsv_streams f \<longleftrightarrow>
        registry_kind (fsv_registry f) i \<in> {Some StreamKindFileUpload, Some StreamKindFileDownload}" for i
      using table_okD(5) [OF tab, of i] table_okD(8) [OF tab] by (fastforce simp: kind live_streams_def)
    then have "fsv_streams f \<inter> srv_streams (ss_terminals s) = {}"
      using t r(2) by (auto simp: StreamKindTerminal_def StreamKindFileUpload_def StreamKindFileDownload_def)
    then show ?thesis using k r table_okD(3,4) [OF tab] by (simp add: maxFileStreamsPerConnection_def)
  qed
  ultimately show ?thesis using t tr(1) by (auto simp: term_reach_def)
qed

text \<open>
  Claim C13. The audit trail of a session is complete.  A terminal stream that is open has been
  recorded as opened and not as closed; every stream is recorded as opened at most once and as
  closed at most as often; and once the session has ended, however it ended, nothing is left:
  no stream is open in either engine, every pseudo-terminal that was started has been closed
  exactly once, every upload has been given up or published, and every recorded opening has
  its recorded closing.
\<close>

theorem session_audit_complete:
  assumes "startTypedSession encode env policy runtime peerID transport caps tree = Some s0" and "fs_ok tree"
    and "s = session_run cd caps evs s0"
  shows "srv_streams (ss_terminals s) \<subseteq> {i. opened_count i (ss_audit s) = 1 \<and> closed_count i (ss_audit s) = 0} \<and>
    (\<forall>i. opened_count i (ss_audit s) \<le> 1 \<and> closed_count i (ss_audit s) \<le> opened_count i (ss_audit s)) \<and>
    (ss_ended s \<longrightarrow>
       srv_streams (ss_terminals s) = {} \<and>
       (\<forall>i. opened_count i (ss_audit s) = closed_count i (ss_audit s) \<and>
            pty_starts i (srv_log (ss_terminals s)) = pty_closes i (srv_log (ss_terminals s))) \<and>
       (\<forall>f. ss_files s = Some f \<longrightarrow> fsv_streams f = {} \<and> (\<forall>i u. upload_of f i = Some u \<longrightarrow> up_closed u)))"
proof -
  have ok: "session_ok cd tree s" using session_run_ok [OF assms(1,2)] assms(3) by simp
  then have e: "engines_ok cd tree s" and a: "audit_ok s" and c: "ss_ended s \<longrightarrow> all_closed s"
    by (simp_all add: session_ok_def session_inv_def)
  have o: "opened_count i (ss_audit s) = closed_count i (ss_audit s) + of_bool (i \<in> at_open (ss_audit s))" for i
    using a by (simp add: audit_ok_def tracker_ok_def)
  have one: "opened_count i (ss_audit s) \<le> 1" for i
  proof -
    have "opened_count i (ss_audit s) \<le> of_bool (i \<in> dom (srv_registry (ss_terminals s)))" using a by (simp add: audit_ok_def)
    also have "\<dots> \<le> 1" by simp
    finally show ?thesis .
  qed
  have live: "opened_count i (ss_audit s) = 1 \<and> closed_count i (ss_audit s) = 0" if "i \<in> srv_streams (ss_terminals s)" for i
    using that a o [of i] one [of i] by (auto simp: audit_ok_def)
  have pty: "pty_starts i (srv_log (ss_terminals s)) = pty_closes i (srv_log (ss_terminals s)) +
      (if i \<in> srv_streams (ss_terminals s) then 1 else 0)" for i
    using server_invD(7) [OF server_ok_inv [OF term_reach_ok]] e by (auto simp: engines_ok_def)
  have up: "up_closed u" if "ss_ended s" "ss_files s = Some f" "upload_of f i = Some u" for f i u
  proof -
    have "fsv_inv f" using e that(2) fsv_reach_inv by (auto simp: engines_ok_def)
    moreover have "i \<notin> fsv_streams f" using c that(1,2) by (auto simp: all_closed_def)
    ultimately show ?thesis using that(3) table_okD(7) [of f i _ u] by (auto simp: fsv_inv_def upload_of_def split: option.splits)
  qed
  have "srv_streams (ss_terminals s) \<subseteq> {i. opened_count i (ss_audit s) = 1 \<and> closed_count i (ss_audit s) = 0}"
    using live by blast
  moreover have "opened_count i (ss_audit s) \<le> 1 \<and> closed_count i (ss_audit s) \<le> opened_count i (ss_audit s)" for i
    using one [of i] o [of i] le_add1 [of "closed_count i (ss_audit s)"] by metis
  moreover have "srv_streams (ss_terminals s) = {} \<and>
       (\<forall>i. opened_count i (ss_audit s) = closed_count i (ss_audit s) \<and>
            pty_starts i (srv_log (ss_terminals s)) = pty_closes i (srv_log (ss_terminals s))) \<and>
       (\<forall>f. ss_files s = Some f \<longrightarrow> fsv_streams f = {} \<and> (\<forall>i u. upload_of f i = Some u \<longrightarrow> up_closed u))" if en: "ss_ended s"
  proof -
    have cl: "srv_streams (ss_terminals s) = {}" "at_open (ss_audit s) = {}" "\<forall>f. ss_files s = Some f \<longrightarrow> fsv_streams f = {}"
      using c en by (simp_all add: all_closed_def)
    show ?thesis using cl o pty up [OF en] by simp
  qed
  ultimately show ?thesis by blast
qed


text \<open>
  Claim C22. A session cannot outlive its policy.  Whatever has happened since it started, and
  however busy it was, when the maximum duration is over and the handler takes the timer's
  event, the session ends with that reason and nothing is left open.
\<close>

theorem session_max_duration_enforced:
  assumes "startTypedSession encode env policy runtime peerID transport caps tree = Some s0" and "fs_ok tree"
    and "0 < sp_max policy" and "sn_now env + sp_max policy \<le> sn_now env'"
    and "s = session_run cd caps evs s0" and "\<not> ss_ended s"
  shows "let s' = session_step env' cd caps SeMax s in
     ss_ended s' \<and> ss_reason s' = ''policy_max_duration'' \<and> srv_streams (ss_terminals s') = {} \<and>
     (\<forall>f. ss_files s' = Some f \<longrightarrow> fsv_streams f = {}) \<and>
     (sn_write env' (MsgClose 124 ''session maximum duration reached'') \<longrightarrow>
        MsgClose 124 ''session maximum duration reached'' \<in> set (ss_frames s'))"
proof -
  let ?d = "Some (sn_now env + sp_max policy)"
  have "ss_ended s0 \<or> pt_max (ss_timers s0) = ?d"
    using assms(1,3)
    by (auto simp: startTypedSession_def Let_def ss_record_def newSessionPolicyTimers_def split: if_splits option.splits)
  then have "ss_ended s \<or> pt_max (ss_timers s) = ?d"
    unfolding assms(5) by (induction rule: session_run_induct) (rule timer_step)
  then have ready: "timer_ready (sn_now env') (pt_max (ss_timers s))" using assms(4,6) by (simp add: timer_ready_def)
  have ok: "session_ok cd tree s" using session_run_ok [OF assms(1,2)] assms(5) by simp
  define s' where "s' = session_step env' cd caps SeMax s"
  have s': "s' = ss_return env' (expireSession env' ''session maximum duration reached'' (s\<lparr>ss_reason := ''policy_max_duration''\<rparr>))"
    using ready assms(6) by (simp add: s'_def)
  have en: "ss_ended s'" unfolding s' by (simp add: ss_return_def Let_def)
  have "session_ok cd tree s'" unfolding s'_def by (rule session_step_ok [OF ok])
  then have cl: "all_closed s'" using en by (simp add: session_ok_def)
  have ce: "ss_reason (ss_closeEngines e x) = ss_reason x" "ss_frames (ss_closeEngines e x) = ss_frames x" for e x
    by (simp_all add: ss_closeEngines_def Let_def ss_setTerminals_def ss_setFiles_def split: option.split)
  have rr: "ss_reason (ss_return e x) = ss_reason x" "ss_frames (ss_return e x) = ss_frames x" for e x
    using ce by (simp_all add: ss_return_def Let_def ss_record_def)
  have "ss_reason s' = ''policy_max_duration''" unfolding s' expireSession_def rr by (simp add: ss_write_def ce)
  moreover have "MsgClose 124 ''session maximum duration reached'' \<in> set (ss_frames s')"
    if "sn_write env' (MsgClose 124 ''session maximum duration reached'')"
    using that unfolding s' expireSession_def rr by (simp add: ss_write_def sessionPolicyExitCode_def)
  ultimately show ?thesis using en cl unfolding Let_def s'_def [symmetric] by (auto simp: all_closed_def)
qed

text \<open>A session with both capabilities, on which the properties are applied.\<close>

definition sample_session_env :: "int \<Rightarrow> session_env" where
  "sample_session_env now = \<lparr>sn_term = sample_env, sn_file = sample_file_env, sn_now = now, sn_write = (\<lambda>_. True)\<rparr>"

definition sample_session_codec :: session_codec where
  "sample_session_codec = \<lparr>sc_term = sample_codec, sc_upload = (\<lambda>_. Err TsKind), sc_download = (\<lambda>_. Err TsKind)\<rparr>"

definition sample_policy :: session_policy where
  "sample_policy = \<lparr>sp_idle = 10 * second, sp_max = 100 * second\<rparr>"

abbreviation sample_caps :: "capability list" where
  "sample_caps \<equiv> negotiateSessionCapabilitiesForRuntime [CapabilityFileTransferV1, CapabilityTypedStreamsV1] True True"

definition sample_session :: "typed_session option" where
  "sample_session = startTypedSession (\<lambda>_. True) (sample_session_env 0) sample_policy
     (ev_runtime sample_file_env) ''peer'' ''lan'' sample_caps sample_fs"

lemma sample_session_Some: "\<exists>s. sample_session = Some s \<and> \<not> ss_ended s"
  by (simp add: sample_session_def startTypedSession_def sample_file_env_def runtime_Ready_def sessionAcceptedFrame_def
      sample_session_env_def Let_def ss_record_def)

theorem session_engines_separate_witness:
  "\<exists>s0. sample_session = Some s0 \<and> card (srv_streams (ss_terminals (session_run sample_session_codec sample_caps
     [(sample_session_env 1, SeFrame (sample_frame TypeStreamOpen []))] s0))) \<le> 7"
proof -
  obtain s0 where s: "sample_session = Some s0" using sample_session_Some by blast
  show ?thesis
    using session_engines_separate [OF s [unfolded sample_session_def] sample_fs_ok refl] s by blast
qed

theorem session_audit_complete_witness:
  "\<exists>s0. sample_session = Some s0 \<and>
     (let s = session_run sample_session_codec sample_caps
        [(sample_session_env 1, SeFrame (sample_frame TypeStreamOpen [])), (sample_session_env 2, SeReadError)] s0
      in opened_count 2 (ss_audit s) \<le> 1)"
proof -
  obtain s0 where s: "sample_session = Some s0" using sample_session_Some by blast
  show ?thesis
    using session_audit_complete [OF s [unfolded sample_session_def] sample_fs_ok refl, of sample_session_codec
        "[(sample_session_env 1, SeFrame (sample_frame TypeStreamOpen [])), (sample_session_env 2, SeReadError)]"] s
    unfolding Let_def by blast
qed


theorem session_max_duration_enforced_witness:
  "\<exists>s0. sample_session = Some s0 \<and>
     ss_reason (session_step (sample_session_env (200 * second)) sample_session_codec sample_caps SeMax s0) = ''policy_max_duration''"
proof -
  obtain s0 where s: "sample_session = Some s0" "\<not> ss_ended s0" using sample_session_Some by blast
  have p: "0 < sp_max sample_policy"
    "sn_now (sample_session_env 0) + sp_max sample_policy \<le> sn_now (sample_session_env (200 * second))"
    by (simp_all add: sample_policy_def sample_session_env_def second_def)
  show ?thesis
    using session_max_duration_enforced [OF s(1) [unfolded sample_session_def] sample_fs_ok p, of s0 sample_session_codec "[]"] s
    by (auto simp: Let_def)
qed

end
