(* ===== verification/Go_JSON.thy ===== *)
theory Go_JSON
  imports Go_Bytes
begin

text \<open>
  \<open>encoding/json\<close> as the program uses it: the text of numbers and strings that \<open>json.Marshal\<close>
  writes, the values a \<open>json.Decoder\<close> reads, and the way a decoded object is stored in
  a struct (field names compared exactly first and then by case folding, \<open>null\<close> leaving a
  field alone, unknown names refused when \<open>DisallowUnknownFields\<close> is set).  A decoder checks
  the syntax of a whole value before it stores anything, so decoding is parsing to \<open>json\<close>
  followed by \<open>decode_struct\<close>.
\<close>

section \<open>Decimal numbers\<close>

function decimal :: "nat \<Rightarrow> string" where
  "decimal n = (if n < 10 then [char_of (48 + n)] else decimal (n div 10) @ [char_of (48 + n mod 10)])"
  by pat_completeness auto
termination
  by (relation "measure id") auto

declare decimal.simps [simp del]

definition is_digit :: "char \<Rightarrow> bool" where
  "is_digit c = (let n = (of_char c :: nat) in 48 \<le> n \<and> n \<le> 57)"

definition digit_val :: "char \<Rightarrow> nat" where
  "digit_val c = of_char c - 48"

definition number_of :: "string \<Rightarrow> nat" where
  "number_of s = foldl (\<lambda>a c. a * 10 + digit_val c) 0 s"

text \<open>\<open>0|[1-9][0-9]*\<close>\<close>

definition plain_number :: "string \<Rightarrow> bool" where
  "plain_number s =
     (case s of
        [] \<Rightarrow> False
      | c # cs \<Rightarrow> is_digit c \<and> list_all is_digit cs \<and> (c = CHR ''0'' \<longrightarrow> cs = []))"

section \<open>Values\<close>

datatype json =
    JNull
  | JBool bool
  | JNum string
  | JStr string
  | JArr "json list"
  | JObj "(string \<times> json) list"

definition json_ws :: "char \<Rightarrow> bool" where
  "json_ws c \<longleftrightarrow> c \<in> {CHR '' '', CHR 0x09, CHR 0x0A, CHR 0x0D}"

definition skip_ws :: "string \<Rightarrow> string" where
  "skip_ws s = dropWhile json_ws s"

section \<open>Strings\<close>

definition hex4 :: "nat \<Rightarrow> string" where
  "hex4 n = [hex_char (n div 4096 mod 16), hex_char (n div 256 mod 16), hex_char (n div 16 mod 16),
             hex_char (n mod 16)]"

definition unicode_escape :: "nat \<Rightarrow> string" where
  "unicode_escape n = CHR 0x5C # CHR ''u'' # hex4 n"

text \<open>
  The text \<open>json.Marshal\<close> writes for one rune given as its bytes: short escapes, \<open>\u00XX\<close> for
  the other control characters and for the characters that are special in HTML, the two line
  separators escaped, an invalid byte replaced, anything else as it is.
\<close>

definition escape_rune :: "nat \<Rightarrow> nat list \<Rightarrow> string" where
  "escape_rune r bs =
     (if r = 34 \<or> r = 92 then [CHR 0x5C, char_of r]
      else if r = 8 then [CHR 0x5C, CHR ''b'']
      else if r = 12 then [CHR 0x5C, CHR ''f'']
      else if r = 10 then [CHR 0x5C, CHR ''n'']
      else if r = 13 then [CHR 0x5C, CHR ''r'']
      else if r = 9 then [CHR 0x5C, CHR ''t'']
      else if r < 32 \<or> r = 38 \<or> r = 60 \<or> r = 62 \<or> r = 8232 \<or> r = 8233 then unicode_escape r
      else if r = rune_error \<and> length bs = 1 then unicode_escape rune_error
      else map char_of bs)"

function escape_bytes :: "nat list \<Rightarrow> string" where
  "escape_bytes [] = []"
| "escape_bytes (b # bs) =
     (let rw = decode_rune (b # bs) in
        escape_rune (fst rw) (b # take (snd rw - 1) bs) @ escape_bytes (drop (snd rw - 1) bs))"
  by pat_completeness auto
termination
  by (relation "measure length") auto

definition json_quote :: "string \<Rightarrow> string" where
  "json_quote s = CHR 0x22 # escape_bytes (map of_char s) @ [CHR 0x22]"

text \<open>\<open>utf8.AppendRune\<close>\<close>

definition encode_rune :: "nat \<Rightarrow> string" where
  "encode_rune r =
     map char_of
       (if r < 128 then [r]
        else if r < 2048 then [192 + r div 64, 128 + r mod 64]
        else if r < 65536 then [224 + r div 4096, 128 + r div 64 mod 64, 128 + r mod 64]
        else [240 + r div 262144, 128 + r div 4096 mod 64, 128 + r div 64 mod 64, 128 + r mod 64])"

fun get_hex4 :: "string \<Rightarrow> (nat \<times> string) option" where
  "get_hex4 (a # b # c # d # s) =
     (case (hex_digit a, hex_digit b, hex_digit c, hex_digit d) of
        (Some h, Some i, Some j, Some k) \<Rightarrow> Some (((h * 16 + i) * 16 + j) * 16 + k, s)
      | _ \<Rightarrow> None)"
| "get_hex4 _ = None"

text \<open>
  A \<open>\u\<close> escape: a high surrogate followed by an escaped low one is one rune, any other
  surrogate is the replacement rune.
\<close>

definition low_surrogate :: "string \<Rightarrow> (nat \<times> string) option" where
  "low_surrogate s =
     (case s of
        a # b # t \<Rightarrow>
          if a = CHR 0x5C \<and> b = CHR ''u''
          then (case get_hex4 t of
              Some (l, t') \<Rightarrow> if 56320 \<le> l \<and> l < 57344 then Some (l, t') else None
            | None \<Rightarrow> None)
          else None
      | _ \<Rightarrow> None)"

definition unescape_u :: "string \<Rightarrow> (string \<times> string) option" where
  "unescape_u s =
     (case get_hex4 s of
        None \<Rightarrow> None
      | Some (r, t) \<Rightarrow>
          if 55296 \<le> r \<and> r < 57344 then
            (case (if r < 56320 then low_surrogate t else None) of
               Some (l, t') \<Rightarrow> Some (encode_rune (65536 + (r - 55296) * 1024 + (l - 56320)), t')
             | None \<Rightarrow> Some (encode_rune rune_error, t))
          else Some (encode_rune r, t))"

definition unescape :: "string \<Rightarrow> (string \<times> string) option" where
  "unescape s =
     (case s of
        [] \<Rightarrow> None
      | c # t \<Rightarrow>
          if c = CHR 0x22 \<or> c = CHR 0x5C \<or> c = CHR ''/'' then Some ([c], t)
          else if c = CHR ''b'' then Some ([CHR 0x08], t)
          else if c = CHR ''f'' then Some ([CHR 0x0C], t)
          else if c = CHR ''n'' then Some ([CHR 0x0A], t)
          else if c = CHR ''r'' then Some ([CHR 0x0D], t)
          else if c = CHR ''t'' then Some ([CHR 0x09], t)
          else if c = CHR ''u'' then unescape_u t
          else None)"

lemma get_hex4_length: "get_hex4 s = Some (n, t) \<Longrightarrow> length t < length s"
  by (induction s rule: get_hex4.induct) (auto split: option.splits)

lemma unescape_u_length: "unescape_u s = Some (u, t) \<Longrightarrow> length t < length s"
  unfolding unescape_u_def low_surrogate_def
  by (fastforce split: option.splits if_splits list.splits dest: get_hex4_length)

lemma unescape_length: "unescape s = Some (u, t) \<Longrightarrow> length t < length s"
  unfolding unescape_def by (auto split: list.splits if_splits dest: unescape_u_length)

text \<open>The body of a string up to its closing quote: the decoded text and what follows.\<close>

function json_chars :: "string \<Rightarrow> (string \<times> string) option" where
  "json_chars s =
     (case s of
        [] \<Rightarrow> None
      | c # t \<Rightarrow>
          if c = CHR 0x22 then Some ([], t)
          else if (of_char c :: nat) < 32 then None
          else if c = CHR 0x5C then
            (case unescape t of
               None \<Rightarrow> None
             | Some (u, t') \<Rightarrow> map_option (\<lambda>(v, r). (u @ v, r)) (json_chars t'))
          else
            (let rw = decode_rune (map of_char s);
                 u = (if rw = (rune_error, 1) then encode_rune rune_error else c # take (snd rw - 1) t)
             in map_option (\<lambda>(v, r). (u @ v, r)) (json_chars (drop (snd rw - 1) t))))"
  by pat_completeness auto
termination
  by (relation "measure length") (auto dest: unescape_length)

declare json_chars.simps [simp del]

section \<open>Reading a value\<close>

definition int_part :: "string \<Rightarrow> (string \<times> string) option" where
  "int_part s =
     (case s of
        [] \<Rightarrow> None
      | c # t \<Rightarrow>
          if c = CHR ''0'' then Some ([c], t)
          else if is_digit c then Some (takeWhile is_digit s, dropWhile is_digit s)
          else None)"

definition frac_part :: "string \<Rightarrow> (string \<times> string) option" where
  "frac_part s =
     (case s of
        [] \<Rightarrow> Some ([], [])
      | c # t \<Rightarrow>
          if c = CHR ''.'' then
            (if takeWhile is_digit t = [] then None else Some (c # takeWhile is_digit t, dropWhile is_digit t))
          else Some ([], s))"

definition exp_part :: "string \<Rightarrow> (string \<times> string) option" where
  "exp_part s =
     (case s of
        [] \<Rightarrow> Some ([], [])
      | c # t \<Rightarrow>
          if c = CHR ''e'' \<or> c = CHR ''E'' then
            (let (sg, t') = (case t of [] \<Rightarrow> ([], []) | d # u \<Rightarrow>
                    if d = CHR ''+'' \<or> d = CHR ''-'' then ([d], u) else ([], t))
             in if takeWhile is_digit t' = [] then None
                else Some (c # sg @ takeWhile is_digit t', dropWhile is_digit t'))
          else Some ([], s))"

definition json_number :: "string \<Rightarrow> (string \<times> string) option" where
  "json_number s =
     (let (sg, s0) = (case s of [] \<Rightarrow> ([], []) | c # t \<Rightarrow> if c = CHR ''-'' then ([c], t) else ([], s)) in
      case int_part s0 of None \<Rightarrow> None | Some (i, s1) \<Rightarrow>
      (case frac_part s1 of None \<Rightarrow> None | Some (f, s2) \<Rightarrow>
       (case exp_part s2 of None \<Rightarrow> None | Some (e, s3) \<Rightarrow> Some (sg @ i @ f @ e, s3))))"

definition literal :: "string \<Rightarrow> json \<Rightarrow> string \<Rightarrow> (json \<times> string) option" where
  "literal w j s = (if take (length w) s = w then Some (j, drop (length w) s) else None)"

definition expect :: "char \<Rightarrow> string \<Rightarrow> string option" where
  "expect c s = (case skip_ws s of [] \<Rightarrow> None | d # t \<Rightarrow> if d = c then Some t else None)"

definition json_name :: "string \<Rightarrow> (string \<times> string) option" where
  "json_name s =
     (case expect CHR 0x22 s of None \<Rightarrow> None | Some t \<Rightarrow>
      (case json_chars t of None \<Rightarrow> None | Some (k, t') \<Rightarrow>
       map_option (\<lambda>u. (k, u)) (expect CHR '':'' t')))"

text \<open>
  The grammar, by recursion on fuel: every call reads at least one character before it calls
  another, so \<open>json_decode\<close> gives as much as any larger amount would.
\<close>

fun json_value :: "nat \<Rightarrow> string \<Rightarrow> (json \<times> string) option"
  and json_elements :: "nat \<Rightarrow> string \<Rightarrow> (json list \<times> string) option"
  and json_members :: "nat \<Rightarrow> string \<Rightarrow> ((string \<times> json) list \<times> string) option" where
  "json_value 0 s = None"
| "json_value (Suc n) s =
     (case skip_ws s of
        [] \<Rightarrow> None
      | c # t \<Rightarrow>
          if c = CHR ''{'' then
            (case expect CHR ''}'' t of
               Some t' \<Rightarrow> Some (JObj [], t')
             | None \<Rightarrow> map_option (\<lambda>(ms, r). (JObj ms, r)) (json_members n t))
          else if c = CHR ''['' then
            (case expect CHR '']'' t of
               Some t' \<Rightarrow> Some (JArr [], t')
             | None \<Rightarrow> map_option (\<lambda>(vs, r). (JArr vs, r)) (json_elements n t))
          else if c = CHR 0x22 then map_option (\<lambda>(v, r). (JStr v, r)) (json_chars t)
          else if c = CHR ''t'' then literal ''true'' (JBool True) (c # t)
          else if c = CHR ''f'' then literal ''false'' (JBool False) (c # t)
          else if c = CHR ''n'' then literal ''null'' JNull (c # t)
          else map_option (\<lambda>(v, r). (JNum v, r)) (json_number (c # t)))"
| "json_elements 0 s = None"
| "json_elements (Suc n) s =
     (case json_value n s of
        None \<Rightarrow> None
      | Some (v, t) \<Rightarrow>
          (case expect CHR '']'' t of
             Some t' \<Rightarrow> Some ([v], t')
           | None \<Rightarrow>
               (case expect CHR '','' t of
                  None \<Rightarrow> None
                | Some t' \<Rightarrow> map_option (\<lambda>(vs, r). (v # vs, r)) (json_elements n t'))))"
| "json_members 0 s = None"
| "json_members (Suc n) s =
     (case json_name s of
        None \<Rightarrow> None
      | Some (k, t) \<Rightarrow>
          (case json_value n t of
             None \<Rightarrow> None
           | Some (v, t') \<Rightarrow>
               (case expect CHR ''}'' t' of
                  Some t'' \<Rightarrow> Some ([(k, v)], t'')
                | None \<Rightarrow>
                    (case expect CHR '','' t' of
                       None \<Rightarrow> None
                     | Some t'' \<Rightarrow> map_option (\<lambda>(ms, r). ((k, v) # ms, r)) (json_members n t'')))))"

text \<open>\<open>Decoder.Decode\<close> up to the end of the first value, with the input that is left.\<close>

definition json_decode :: "string \<Rightarrow> (json \<times> string) option" where
  "json_decode s = json_value (Suc (length s)) s"

text \<open>A second \<open>Decode\<close> reports \<open>io.EOF\<close> exactly when only white space is left.\<close>

definition json_eof :: "string \<Rightarrow> bool" where
  "json_eof s \<longleftrightarrow> skip_ws s = []"

section \<open>Storing an object in a struct\<close>

text \<open>
  The folding of names that \<open>encoding/json\<close> uses: letters without case, with the two runes
  outside ASCII whose simple folding is an ASCII letter.
\<close>

definition fold_rune :: "nat \<Rightarrow> nat" where
  "fold_rune r =
     (if 65 \<le> r \<and> r \<le> 90 then r + 32 else if r = 383 then 115 else if r = 8490 then 107 else r)"

definition fold_name :: "string \<Rightarrow> nat list" where
  "fold_name s = map fold_rune (runes s)"

type_synonym 'a json_field = "string \<times> (json \<Rightarrow> 'a \<Rightarrow> 'a option)"

definition find_field :: "'a json_field list \<Rightarrow> string \<Rightarrow> (json \<Rightarrow> 'a \<Rightarrow> 'a option) option" where
  "find_field fs k =
     (case find (\<lambda>f. fst f = k) fs of
        Some f \<Rightarrow> Some (snd f)
      | None \<Rightarrow> map_option snd (find (\<lambda>f. fold_name (fst f) = fold_name k) fs))"

fun store_members :: "bool \<Rightarrow> 'a json_field list \<Rightarrow> (string \<times> json) list \<Rightarrow> 'a \<Rightarrow> 'a option" where
  "store_members strict fs [] x = Some x"
| "store_members strict fs ((k, v) # ms) x =
     (case find_field fs k of
        None \<Rightarrow> if strict then None else store_members strict fs ms x
      | Some put \<Rightarrow>
          (case put v x of None \<Rightarrow> None | Some x' \<Rightarrow> store_members strict fs ms x'))"

definition decode_struct :: "bool \<Rightarrow> 'a json_field list \<Rightarrow> json \<Rightarrow> 'a \<Rightarrow> 'a option" where
  "decode_struct strict fs j x =
     (case j of JNull \<Rightarrow> Some x | JObj ms \<Rightarrow> store_members strict fs ms x | _ \<Rightarrow> None)"

text \<open>
  Fields of the types \<open>string\<close>, \<open>int\<close> and \<open>uint64\<close>: \<open>strconv.ParseInt\<close> and \<open>ParseUint\<close> refuse
  a fraction, an exponent and a value out of range.
\<close>

definition put_string :: "(string \<Rightarrow> 'a \<Rightarrow> 'a) \<Rightarrow> json \<Rightarrow> 'a \<Rightarrow> 'a option" where
  "put_string upd j x = (case j of JNull \<Rightarrow> Some x | JStr s \<Rightarrow> Some (upd s x) | _ \<Rightarrow> None)"

definition put_int :: "(int \<Rightarrow> 'a \<Rightarrow> 'a) \<Rightarrow> json \<Rightarrow> 'a \<Rightarrow> 'a option" where
  "put_int upd j x =
     (case j of
        JNull \<Rightarrow> Some x
      | JNum s \<Rightarrow>
          (let (neg, d) = (case s of [] \<Rightarrow> (False, []) | c # t \<Rightarrow> if c = CHR ''-'' then (True, t) else (False, s));
               n = int (number_of d)
           in if list_all is_digit d \<and> (if neg then n \<le> 2 ^ 63 else n < 2 ^ 63)
              then Some (upd (if neg then - n else n) x) else None)
      | _ \<Rightarrow> None)"

definition put_uint64_field :: "(u64 \<Rightarrow> 'a \<Rightarrow> 'a) \<Rightarrow> json \<Rightarrow> 'a \<Rightarrow> 'a option" where
  "put_uint64_field upd j x =
     (case j of
        JNull \<Rightarrow> Some x
      | JNum s \<Rightarrow>
          if list_all is_digit s \<and> number_of s < 2 ^ 64
          then Some (upd (of_nat (number_of s)) x) else None
      | _ \<Rightarrow> None)"

lemma char_of_escapes:
  "char_of (34 :: nat) = CHR 0x22" "char_of (92 :: nat) = CHR 0x5C" "char_of (8 :: nat) = CHR 0x08"
  "char_of (12 :: nat) = CHR 0x0C" "char_of (10 :: nat) = CHR 0x0A" "char_of (13 :: nat) = CHR 0x0D"
  "char_of (9 :: nat) = CHR 0x09"
  by (simp_all add: char_of_iff)

section \<open>Decimal numbers are read back\<close>

lemma char_of_digit [simp]: "(n :: nat) < 10 \<Longrightarrow> is_digit (char_of (48 + n))"
  by (simp add: is_digit_def)

lemma digit_val_char [simp]: "n < 10 \<Longrightarrow> digit_val (char_of (48 + n)) = n"
  by (simp add: digit_val_def)

lemma digit_char_val: "is_digit c \<Longrightarrow> char_of (48 + digit_val c) = c"
  by (simp add: is_digit_def digit_val_def Let_def)

lemma digit_val_less: "is_digit c \<Longrightarrow> digit_val c < 10"
  unfolding is_digit_def digit_val_def Let_def by linarith

lemma decimal_digits: "list_all is_digit (decimal n)"
  by (induction n rule: decimal.induct) (subst decimal.simps, auto)

lemma decimal_not_Nil [simp]: "decimal n \<noteq> []"
  by (subst decimal.simps) simp

lemma number_of_snoc: "number_of (s @ [c]) = number_of s * 10 + digit_val c"
  by (simp add: number_of_def)

lemma number_of_decimal [simp]: "number_of (decimal n) = n"
proof (induction n rule: decimal.induct)
  case (1 n)
  show ?case
  proof (cases "n < 10")
    case True
    then show ?thesis by (simp add: decimal.simps [of n] number_of_def)
  next
    case False
    then show ?thesis using 1 by (simp add: decimal.simps [of n] number_of_snoc)
  qed
qed

lemma decimal_inject [simp]: "decimal m = decimal n \<longleftrightarrow> m = n"
  by (metis number_of_decimal)

lemma hd_decimal_zero: "hd (decimal n) = CHR ''0'' \<Longrightarrow> n = 0"
proof (induction n rule: decimal.induct)
  case (1 n)
  show ?case
  proof (cases "n < 10")
    case True
    have "char_of (48 + n) = CHR ''0''" using "1.prems" True by (simp add: decimal.simps [of n])
    then have "digit_val (char_of (48 + n)) = digit_val CHR ''0''" by simp
    then show ?thesis using True by (simp add: digit_val_def)
  next
    case False
    then have "hd (decimal (n div 10)) = CHR ''0''" using "1.prems" by (simp add: decimal.simps [of n])
    with "1.IH" False have "n div 10 = 0" by blast
    with False show ?thesis by simp
  qed
qed

lemma plain_decimal: "plain_number (decimal n)"
proof (cases "decimal n")
  case (Cons c cs)
  moreover have "c = CHR ''0'' \<Longrightarrow> cs = []"
  proof -
    assume "c = CHR ''0''"
    then have "n = 0" using Cons hd_decimal_zero [of n] by simp
    then show "cs = []" using Cons by (simp add: decimal.simps [of 0])
  qed
  ultimately show ?thesis using decimal_digits [of n] by (simp add: plain_number_def)
qed simp

lemma number_of_positive: "is_digit c \<Longrightarrow> c \<noteq> CHR ''0'' \<Longrightarrow> 0 < number_of (c # s)"
proof (induction s rule: rev_induct)
  case Nil
  have "digit_val c \<noteq> 0"
  proof
    assume "digit_val c = 0"
    then have "char_of (48 :: nat) = c" using digit_char_val [OF Nil(1)] by simp
    moreover have "char_of (48 :: nat) = CHR ''0''" by (simp add: char_of_iff)
    ultimately show False using Nil(2) by simp
  qed
  then show ?case by (simp add: number_of_def)
next
  case (snoc d s)
  then show ?case using number_of_snoc [of "c # s" d] by simp
qed

lemma plain_number_snoc:
  "plain_number (s @ [c]) \<longleftrightarrow> is_digit c \<and> (s = [] \<or> plain_number s \<and> s \<noteq> ''0'')"
  by (cases s) (auto simp: plain_number_def)

lemma decimal_number_of: "plain_number s \<Longrightarrow> decimal (number_of s) = s"
proof (induction s rule: rev_induct)
  case (snoc c s)
  show ?case
  proof (cases "s = []")
    case True
    then show ?thesis using snoc.prems digit_char_val [of c] digit_val_less [of c]
      by (simp add: plain_number_def number_of_def decimal.simps)
  next
    case False
    then have s: "plain_number s" "s \<noteq> ''0''" "is_digit c" using snoc.prems by (auto simp: plain_number_snoc)
    then have "0 < number_of s"
      using number_of_positive by (cases s) (auto simp: plain_number_def)
    then have "\<not> number_of (s @ [c]) < 10" by (simp add: number_of_snoc)
    moreover have "number_of (s @ [c]) div 10 = number_of s" "number_of (s @ [c]) mod 10 = digit_val c"
      using digit_val_less [OF s(3)] by (simp_all add: number_of_snoc)
    ultimately show ?thesis using snoc.IH [OF s(1)] digit_char_val [OF s(3)]
      by (simp add: decimal.simps [of "number_of (s @ [c])"])
  qed
qed (simp add: plain_number_def)
section \<open>ASCII strings are read back\<close>

definition ascii :: "string \<Rightarrow> bool" where
  "ascii s \<longleftrightarrow> list_all (\<lambda>c. (of_char c :: nat) < 128) s"

lemma escape_bytes_ascii:
  "n < 128 \<Longrightarrow> escape_bytes (n # bs) = escape_rune n [n] @ escape_bytes bs"
  by simp

lemma json_chars_quote [simp]: "json_chars (CHR 0x22 # s) = Some ([], s)"
  by (simp add: json_chars.simps)

lemma json_chars_escape:
  "unescape t = Some (u, r) \<Longrightarrow>
   json_chars (CHR 0x5C # t) = map_option (\<lambda>(v, q). (u @ v, q)) (json_chars r)"
  by (subst json_chars.simps) simp

lemma json_chars_plain:
  "32 \<le> (of_char c :: nat) \<Longrightarrow> (of_char c :: nat) < 128 \<Longrightarrow> c \<noteq> CHR 0x22 \<Longrightarrow> c \<noteq> CHR 0x5C \<Longrightarrow>
   json_chars (c # t) = map_option (\<lambda>(v, q). (c # v, q)) (json_chars t)"
  by (subst json_chars.simps) (simp add: Let_def rune_error_def)

lemma get_hex4_hex4: "n < 65536 \<Longrightarrow> get_hex4 (hex4 n @ s) = Some (n, s)"
proof -
  assume n: "n < 65536"
  have "((n div 4096 mod 16 * 16 + n div 256 mod 16) * 16 + n div 16 mod 16) * 16 + n mod 16 = n"
  proof -
    have "n div 4096 = n div 256 div 16" "n div 256 = n div 16 div 16"
      by (simp_all flip: div_mult2_eq)
    moreover have "n div 4096 mod 16 = n div 4096" using n by simp
    ultimately show ?thesis by (metis div_mult_mod_eq)
  qed
  then show ?thesis unfolding hex4_def by (simp only: append.simps get_hex4.simps hex_digit_char
        mod_less_divisor zero_less_numeral option.case prod.case)
qed

lemma unescape_unicode:
  "n < 128 \<Longrightarrow> unescape (CHR ''u'' # hex4 n @ s) = Some ([char_of n], s)"
  by (simp add: unescape_def unescape_u_def get_hex4_hex4 encode_rune_def)

lemma json_chars_escape_rune:
  assumes "n < 128"
  shows "json_chars (escape_rune n [n] @ r) = map_option (\<lambda>(v, q). (char_of n # v, q)) (json_chars r)"
proof -
  consider (short) "n \<in> {34, 92, 8, 12, 10, 13, 9}"
    | (long) "n \<notin> {34, 92, 8, 12, 10, 13, 9}" "n < 32 \<or> n = 38 \<or> n = 60 \<or> n = 62"
    | (plain) "n \<notin> {34, 92, 8, 12, 10, 13, 9}" "\<not> (n < 32 \<or> n = 38 \<or> n = 60 \<or> n = 62)"
    by blast
  then show ?thesis
  proof cases
    case short
    then show ?thesis
      by (elim insertE emptyE) (simp_all add: escape_rune_def json_chars_escape unescape_def char_of_escapes)
  next
    case long
    then have "escape_rune n [n] = CHR 0x5C # CHR ''u'' # hex4 n"
      by (auto simp: escape_rune_def unicode_escape_def)
    then show ?thesis using json_chars_escape [OF unescape_unicode [OF assms]] by simp
  next
    case plain
    then have "escape_rune n [n] = [char_of n]"
      using assms by (auto simp: escape_rune_def rune_error_def)
    moreover have "char_of n \<noteq> CHR 0x22" "char_of n \<noteq> CHR 0x5C"
      using plain assms by (simp_all add: char_of_iff)
    ultimately show ?thesis using plain assms by (simp add: json_chars_plain)
  qed
qed

lemma json_chars_ascii:
  "ascii s \<Longrightarrow> json_chars (escape_bytes (map of_char s) @ CHR 0x22 # r) = Some (s, r)"
  by (induction s) (simp_all add: ascii_def json_chars_escape_rune del: escape_bytes.simps(2)
      add: escape_bytes_ascii)

lemma ascii_decimal [simp]: "ascii (decimal n)"
  using decimal_digits [of n] unfolding ascii_def list_all_iff is_digit_def Let_def by fastforce

lemma ascii_append [simp]: "ascii (s @ t) \<longleftrightarrow> ascii s \<and> ascii t"
  by (simp add: ascii_def)

lemma ascii_Cons [simp]: "ascii (c # s) \<longleftrightarrow> (of_char c :: nat) < 128 \<and> ascii s"
  by (simp add: ascii_def)

lemma ascii_Nil [simp]: "ascii []"
  by (simp add: ascii_def)

section \<open>Flat objects are read back\<close>

text \<open>
  The text \<open>json.Marshal\<close> writes for a struct, given the text of each field; \<open>reads\<close> says that a
  field's text is read as a value wherever a comma, a brace or a line feed follows.
\<close>

definition follows :: "string \<Rightarrow> bool" where
  "follows r \<longleftrightarrow> (case r of [] \<Rightarrow> True | c # _ \<Rightarrow> c \<in> {CHR '','', CHR ''}'', CHR 0x0A})"

definition reads :: "string \<Rightarrow> json \<Rightarrow> bool" where
  "reads txt v \<longleftrightarrow> (\<forall>n r. follows r \<longrightarrow> json_value (Suc n) (txt @ r) = Some (v, r))"

fun member_texts :: "(string \<times> string) list \<Rightarrow> string" where
  "member_texts [] = ''}''"
| "member_texts [(k, v)] = json_quote k @ CHR '':'' # v @ ''}''"
| "member_texts ((k, v) # ms) = json_quote k @ CHR '':'' # v @ CHR '','' # member_texts ms"

definition json_object :: "(string \<times> string) list \<Rightarrow> string" where
  "json_object ms = CHR ''{'' # member_texts ms"

lemma skip_ws_Cons [simp]: "\<not> json_ws c \<Longrightarrow> skip_ws (c # s) = c # s"
  by (simp add: skip_ws_def)

lemma reads_quote: "ascii s \<Longrightarrow> reads (json_quote s) (JStr s)"
  by (simp add: reads_def json_quote_def json_ws_def json_chars_ascii)

lemma digit_not_special: "is_digit c \<Longrightarrow> \<not> json_ws c \<and> c \<notin> set ''{[tfn.eE-+'' \<and> c \<noteq> CHR 0x22"
  by (auto simp: is_digit_def json_ws_def)

lemma takeWhile_digits:
  "list_all is_digit s \<Longrightarrow> follows r \<Longrightarrow> takeWhile is_digit (s @ r) = s \<and> dropWhile is_digit (s @ r) = r"
  by (induction s) (auto simp: follows_def is_digit_def split: list.splits)

lemma json_number_plain:
  assumes "plain_number s" and "follows r"
  shows "json_number (s @ r) = Some (s, r)"
proof -
  obtain c cs where s: "s = c # cs" using assms(1) by (cases s) (auto simp: plain_number_def)
  have c: "is_digit c" "list_all is_digit s" using assms(1) by (auto simp: s plain_number_def)
  have "c \<noteq> CHR ''-''" using digit_not_special [OF c(1)] by auto
  moreover have "int_part (s @ r) = Some (s, r)"
    using takeWhile_digits [OF c(2) assms(2)] c assms(1)
    by (auto simp: s int_part_def plain_number_def)
  moreover have "frac_part r = Some ([], r)" "exp_part r = Some ([], r)"
    using assms(2) by (auto simp: follows_def frac_part_def exp_part_def split: list.splits)
  ultimately show ?thesis by (simp add: json_number_def s)
qed

lemma reads_decimal: "reads (decimal n) (JNum (decimal n))"
proof -
  obtain c cs where s: "decimal n = c # cs" by (cases "decimal n") auto
  then have "is_digit c" using decimal_digits [of n] by simp
  from digit_not_special [OF this] show ?thesis
    using json_number_plain [OF plain_decimal [of n]]
    by (auto simp: reads_def s)
qed

lemma json_name_quote:
  "ascii k \<Longrightarrow> json_name (json_quote k @ CHR '':'' # r) = Some (k, r)"
  by (simp add: json_name_def expect_def json_quote_def json_ws_def json_chars_ascii)

lemma expect_hit: "\<not> json_ws c \<Longrightarrow> expect c (c # s) = Some s"
  by (simp add: expect_def)

lemma expect_miss: "\<not> json_ws d \<Longrightarrow> d \<noteq> c \<Longrightarrow> expect c (d # s) = None"
  by (simp add: expect_def)

lemma json_members_texts:
  assumes "list_all2 (\<lambda>m f. fst f = fst m \<and> ascii (fst m) \<and> reads (snd m) (snd f)) ms fs"
    and "ms \<noteq> []" and "2 * length ms \<le> n"
  shows "json_members n (member_texts ms @ r) = Some (fs, r)"
  using assms
proof (induction ms arbitrary: fs n rule: member_texts.induct)
  case (2 k v)
  then obtain j where fs: "fs = [(k, j)]" "ascii k" "reads v j" by (auto simp: list_all2_Cons1)
  obtain m where n: "n = Suc (Suc m)" using "2.prems"(3) by (cases n; cases "n - 1") auto
  have "json_value (Suc m) (v @ CHR ''}'' # r) = Some (j, CHR ''}'' # r)"
    using fs(3) unfolding reads_def by (metis follows_def insertCI list.simps(5))
  with fs n show ?case by (simp add: json_name_quote expect_hit json_ws_def del: json_value.simps)
next
  case (3 k v m2 ms)
  then obtain j fs' where fs: "fs = (k, j) # fs'" "ascii k" "reads v j"
    and rest: "list_all2 (\<lambda>m f. fst f = fst m \<and> ascii (fst m) \<and> reads (snd m) (snd f)) (m2 # ms) fs'"
    by (auto simp: list_all2_Cons1)
  obtain m where n: "n = Suc (Suc m)" using "3.prems"(3) by (cases n; cases "n - 1") auto
  have "json_value (Suc m) (v @ CHR '','' # t) = Some (j, CHR '','' # t)" for t
    using fs(3) unfolding reads_def by (metis follows_def insertCI list.simps(5))
  moreover have "json_members (Suc m) (member_texts (m2 # ms) @ r) = Some (fs', r)"
    using "3.IH" [OF rest, of "Suc m"] "3.prems"(3) n by (simp del: json_members.simps)
  ultimately show ?case using fs n
    by (simp add: json_name_quote expect_hit expect_miss json_ws_def del: json_value.simps json_members.simps(2)
        add: json_members.simps(2) [of "Suc m"])
qed simp

lemma length_member_texts: "ms \<noteq> [] \<Longrightarrow> 2 * length ms \<le> length (member_texts ms)"
  by (induction ms rule: member_texts.induct) (auto simp: json_quote_def)

theorem json_decode_object:
  assumes "list_all2 (\<lambda>m f. fst f = fst m \<and> ascii (fst m) \<and> reads (snd m) (snd f)) ms fs"
    and "ms \<noteq> []"
  shows "json_decode (json_object ms @ r) = Some (JObj fs, r)"
proof -
  obtain k v ms' where ms: "ms = (k, v) # ms'" using assms(2) by (cases ms) auto
  have "\<exists>t. member_texts ms @ r = CHR 0x22 # t"
    by (cases ms') (auto simp: ms json_quote_def)
  then have "expect CHR ''}'' (member_texts ms @ r) = None" by (auto simp: expect_def json_ws_def)
  moreover have "json_members (length (json_object ms @ r)) (member_texts ms @ r) = Some (fs, r)"
    using length_member_texts [OF assms(2)]
    by (intro json_members_texts [OF assms]) (simp add: json_object_def)
  ultimately show ?thesis by (simp add: json_decode_def json_object_def json_ws_def)
qed

end
