(* ===== verification/Update_Manifest.thy ===== *)
theory Update_Manifest
  imports Go_JSON "HOL-Library.Product_Lexorder"
begin

text \<open>
  The signed update manifest of the stable Windows channel (\<open>internal/updateinfo/manifest.go\<close>
  and \<open>key.go\<close>) and its discovery (\<open>discovery.go\<close>): validation, the canonical encoding that may
  be signed, verification under a pinned key, the order of versions and the check that a
  candidate advances both sequence and version.  Ed25519 verification is the parameter
  \<open>ed_verify\<close> (key, message, signature); an HTTP exchange is the parameter \<open>http\<close>.  Errors
  keep the sentinel they wrap and not their message.
\<close>

section \<open>Manifests\<close>

definition ManifestSchemaV1 :: int where "ManifestSchemaV1 = 1"
definition StableChannel :: string where "StableChannel = ''stable''"
definition DownloadHost :: string where "DownloadHost = ''downloads.wedecent.com''"
definition MaxManifestBytes :: nat where "MaxManifestBytes = 16384"
definition ed_PublicKeySize :: nat where "ed_PublicKeySize = 32"
definition ed_SignatureSize :: nat where "ed_SignatureSize = 64"

datatype update_error =
    ErrInvalidManifest
  | ErrInvalidSignature
  | ErrRollback
  | ErrDiscovery
  | ErrInvalidState
  | ErrInstallerStage
  | ErrInstallerPackage
  | ErrInstallerApply
  | ErrSequenceCommit
  | ErrInstallerUnavailable
  | ErrContext nat

record manifest =
  mf_schema :: int
  mf_channel :: string
  mf_sequence :: u64
  mf_version :: string
  mf_published :: string
  mf_releaseURL :: string
  mf_releaseSHA :: string
  mf_installerURL :: string
  mf_installerSHA :: string

text \<open>
  The pattern is \<open>v\<close> and three components \<open>0|[1-9][0-9]*\<close> with dots between them; a component
  holds no dot, so splitting at the dots finds the submatches.
\<close>

definition parseStableVersion :: "string \<Rightarrow> (update_error, nat \<times> nat \<times> nat) result" where
  "parseStableVersion version =
     (case version of
        [] \<Rightarrow> Err ErrInvalidManifest
      | v # rest \<Rightarrow>
          (case split_on CHR ''.'' rest of
             [a, b, c] \<Rightarrow>
               if v = CHR ''v'' \<and> plain_number a \<and> plain_number b \<and> plain_number c
               then Ok (number_of a, number_of b, number_of c)
               else Err ErrInvalidManifest
           | _ \<Rightarrow> Err ErrInvalidManifest))"

text \<open>
  \<open>time.Parse\<close> with the layout \<open>RFC3339\<close> accepts more than this (fractions of a second, zone
  offsets, an hour of one digit), but only a text of the form below is what formatting the
  parsed time in UTC gives back.
\<close>

definition digits_at :: "string \<Rightarrow> nat \<Rightarrow> nat \<Rightarrow> nat option" where
  "digits_at s i n =
     (let d = take n (drop i s) in
      if length d = n \<and> list_all is_digit d then Some (number_of d) else None)"

definition leap_year :: "nat \<Rightarrow> bool" where
  "leap_year y \<longleftrightarrow> y mod 4 = 0 \<and> (y mod 100 \<noteq> 0 \<or> y mod 400 = 0)"

definition days_in :: "nat \<Rightarrow> nat \<Rightarrow> nat" where
  "days_in m y =
     (if m = 2 then (if leap_year y then 29 else 28)
      else if m = 4 \<or> m = 6 \<or> m = 9 \<or> m = 11 then 30 else 31)"

definition rfc3339_utc :: "string \<Rightarrow> bool" where
  "rfc3339_utc s \<longleftrightarrow>
     length s = 20 \<and> s ! 4 = CHR ''-'' \<and> s ! 7 = CHR ''-'' \<and> s ! 10 = CHR ''T'' \<and>
     s ! 13 = CHR '':'' \<and> s ! 16 = CHR '':'' \<and> s ! 19 = CHR ''Z'' \<and>
     (case (digits_at s 0 4, digits_at s 5 2, digits_at s 8 2,
            digits_at s 11 2, digits_at s 14 2, digits_at s 17 2) of
        (Some y, Some mo, Some d, Some h, Some mi, Some sec) \<Rightarrow>
          1 \<le> mo \<and> mo \<le> 12 \<and> 1 \<le> d \<and> d \<le> days_in mo y \<and> h < 24 \<and> mi < 60 \<and> sec < 60
      | _ \<Rightarrow> False)"

definition validatePublishedAt :: "string \<Rightarrow> (update_error, unit) result" where
  "validatePublishedAt value = (if rfc3339_utc value then Ok () else Err ErrInvalidManifest)"

text \<open>
  \<open>strings.ToLower\<close> on ASCII; a text with other bytes is refused by \<open>hex.DecodeString\<close> with
  the same error.
\<close>

definition ascii_lower :: "char \<Rightarrow> char" where
  "ascii_lower c = (let n = (of_char c :: nat) in if 65 \<le> n \<and> n \<le> 90 then char_of (n + 32) else c)"

definition validateSHA256 :: "string \<Rightarrow> (update_error, unit) result" where
  "validateSHA256 value =
     (if length value \<noteq> 64 \<or> map ascii_lower value \<noteq> value then Err ErrInvalidManifest
      else (case hex_decode value of
          None \<Rightarrow> Err ErrInvalidManifest
        | Some decoded \<Rightarrow> if length decoded \<noteq> 32 then Err ErrInvalidManifest else Ok ()))"

definition validateDownloadURL :: "string \<Rightarrow> string \<Rightarrow> (update_error, unit) result" where
  "validateDownloadURL raw expectedPath =
     (if raw \<noteq> ''https://'' @ DownloadHost @ expectedPath then Err ErrInvalidManifest else Ok ())"

definition manifest_Validate :: "manifest \<Rightarrow> (update_error, unit) result" where
  "manifest_Validate m =
     (if mf_schema m \<noteq> ManifestSchemaV1 then Err ErrInvalidManifest
      else if mf_channel m \<noteq> StableChannel then Err ErrInvalidManifest
      else if mf_sequence m = 0 then Err ErrInvalidManifest
      else bind_res (parseStableVersion (mf_version m)) (\<lambda>_.
       bind_res (validatePublishedAt (mf_published m)) (\<lambda>_.
        bind_res (validateSHA256 (mf_releaseSHA m)) (\<lambda>_.
         bind_res (validateSHA256 (mf_installerSHA m)) (\<lambda>_.
          bind_res (validateDownloadURL (mf_releaseURL m)
            (''/windows/'' @ mf_version m @ ''/wedecent-'' @ mf_version m @ ''-windows-amd64.zip'')) (\<lambda>_.
           validateDownloadURL (mf_installerURL m)
            (''/windows/'' @ mf_version m @ ''/wedecent-'' @ mf_version m @ ''-windows-installer.zip''))))))) "

section \<open>The canonical encoding\<close>

definition manifest_json :: "manifest \<Rightarrow> string" where
  "manifest_json m = json_object
     [(''schema'', (if mf_schema m < 0 then CHR ''-'' # decimal (nat (- mf_schema m)) else decimal (nat (mf_schema m)))),
      (''channel'', json_quote (mf_channel m)),
      (''sequence'', decimal (unat (mf_sequence m))),
      (''version'', json_quote (mf_version m)),
      (''published_at'', json_quote (mf_published m)),
      (''release_url'', json_quote (mf_releaseURL m)),
      (''release_sha256'', json_quote (mf_releaseSHA m)),
      (''installer_url'', json_quote (mf_installerURL m)),
      (''installer_sha256'', json_quote (mf_installerSHA m))]"

definition EncodeCanonical :: "manifest \<Rightarrow> (update_error, byte list) result" where
  "EncodeCanonical m =
     bind_res (manifest_Validate m) (\<lambda>_.
       let encoded = bytes_of (manifest_json m @ [CHR 0x0A]) in
       if MaxManifestBytes < length encoded then Err ErrInvalidManifest else Ok encoded)"

definition zero_manifest :: manifest where
  "zero_manifest = \<lparr>mf_schema = 0, mf_channel = [], mf_sequence = 0, mf_version = [], mf_published = [],
     mf_releaseURL = [], mf_releaseSHA = [], mf_installerURL = [], mf_installerSHA = []\<rparr>"

definition manifest_fields :: "manifest json_field list" where
  "manifest_fields =
     [(''schema'', put_int (\<lambda>v m. m\<lparr>mf_schema := v\<rparr>)),
      (''channel'', put_string (\<lambda>v m. m\<lparr>mf_channel := v\<rparr>)),
      (''sequence'', put_uint64_field (\<lambda>v m. m\<lparr>mf_sequence := v\<rparr>)),
      (''version'', put_string (\<lambda>v m. m\<lparr>mf_version := v\<rparr>)),
      (''published_at'', put_string (\<lambda>v m. m\<lparr>mf_published := v\<rparr>)),
      (''release_url'', put_string (\<lambda>v m. m\<lparr>mf_releaseURL := v\<rparr>)),
      (''release_sha256'', put_string (\<lambda>v m. m\<lparr>mf_releaseSHA := v\<rparr>)),
      (''installer_url'', put_string (\<lambda>v m. m\<lparr>mf_installerURL := v\<rparr>)),
      (''installer_sha256'', put_string (\<lambda>v m. m\<lparr>mf_installerSHA := v\<rparr>))]"

definition ParseCanonical :: "byte list \<Rightarrow> (update_error, manifest) result" where
  "ParseCanonical data =
     (if data = [] \<or> MaxManifestBytes < length data then Err ErrInvalidManifest
      else (case json_decode (string_of data) of
          None \<Rightarrow> Err ErrInvalidManifest
        | Some (j, rest) \<Rightarrow>
            (case decode_struct True manifest_fields j zero_manifest of
               None \<Rightarrow> Err ErrInvalidManifest
             | Some m \<Rightarrow>
                 if \<not> json_eof rest then Err ErrInvalidManifest
                 else bind_res (EncodeCanonical m) (\<lambda>canonical.
                   if data \<noteq> canonical then Err ErrInvalidManifest else Ok m))))"

section \<open>Signatures and keys\<close>

definition strip_eol :: "string \<Rightarrow> string" where
  "strip_eol s =
     (if has_suffix s [CHR 0x0D, CHR 0x0A] then take (length s - 2) s
      else if has_suffix s [CHR 0x0A] then take (length s - 1) s
      else s)"

definition EncodeSignature :: "byte list \<Rightarrow> (update_error, byte list) result" where
  "EncodeSignature signature =
     (if length signature \<noteq> ed_SignatureSize then Err ErrInvalidSignature
      else Ok (bytes_of (base64url_encode signature @ [CHR 0x0A])))"

definition DecodeSignature :: "byte list \<Rightarrow> (update_error, byte list) result" where
  "DecodeSignature data =
     (if data = [] \<or> 128 < length data then Err ErrInvalidSignature
      else (let s = strip_eol (string_of data) in
        if s = [] \<or> contains_any s [CHR '' '', CHR 0x09, CHR 0x0D, CHR 0x0A] then Err ErrInvalidSignature
        else (case base64url_strict_decode s of
            None \<Rightarrow> Err ErrInvalidSignature
          | Some signature \<Rightarrow>
              if length signature \<noteq> ed_SignatureSize then Err ErrInvalidSignature else Ok signature)))"

definition EncodePublicKey :: "byte list \<Rightarrow> (update_error, byte list) result" where
  "EncodePublicKey publicKey =
     (if length publicKey \<noteq> ed_PublicKeySize then Err ErrInvalidSignature
      else Ok (bytes_of (base64url_encode publicKey @ [CHR 0x0A])))"

definition DecodePublicKey :: "byte list \<Rightarrow> (update_error, byte list) result" where
  "DecodePublicKey data =
     (if data = [] \<or> 96 < length data then Err ErrInvalidSignature
      else (let s = strip_eol (string_of data) in
        if s = [] \<or> contains_any s [CHR '' '', CHR 0x09, CHR 0x0D, CHR 0x0A] \<or> contains_any s ''=''
        then Err ErrInvalidSignature
        else (case base64url_strict_decode s of
            None \<Rightarrow> Err ErrInvalidSignature
          | Some decoded \<Rightarrow>
              if length decoded \<noteq> ed_PublicKeySize then Err ErrInvalidSignature else Ok decoded)))"

definition Verify ::
  "(byte list \<Rightarrow> byte list \<Rightarrow> byte list \<Rightarrow> bool) \<Rightarrow> byte list \<Rightarrow> byte list \<Rightarrow> byte list
     \<Rightarrow> (update_error, manifest) result" where
  "Verify ed_verify publicKey manifestBytes signatureBytes =
     (if length publicKey \<noteq> ed_PublicKeySize then Err ErrInvalidSignature
      else if manifestBytes = [] \<or> MaxManifestBytes < length manifestBytes then Err ErrInvalidManifest
      else bind_res (DecodeSignature signatureBytes) (\<lambda>signature.
        if \<not> ed_verify publicKey manifestBytes signature then Err ErrInvalidSignature
        else ParseCanonical manifestBytes))"

section \<open>Order and advance\<close>

definition cmp_int :: "nat \<Rightarrow> nat \<Rightarrow> int" where
  "cmp_int a b = (if a < b then -1 else if b < a then 1 else 0)"

fun cmp_components :: "(nat \<times> nat) list \<Rightarrow> int" where
  "cmp_components [] = 0"
| "cmp_components ((l, r) # ps) =
     (if cmp_int l r < 0 then -1 else if 0 < cmp_int l r then 1 else cmp_components ps)"

definition CompareStableVersions :: "string \<Rightarrow> string \<Rightarrow> (update_error, int) result" where
  "CompareStableVersions left right =
     bind_res (parseStableVersion left) (\<lambda>(l0, l1, l2).
      bind_res (parseStableVersion right) (\<lambda>(r0, r1, r2).
       Ok (cmp_components [(l0, r0), (l1, r1), (l2, r2)])))"

definition CheckAdvance :: "string \<Rightarrow> u64 \<Rightarrow> manifest \<Rightarrow> (update_error, unit) result" where
  "CheckAdvance currentVersion currentSequence candidate =
     bind_res (manifest_Validate candidate) (\<lambda>_.
      if mf_sequence candidate \<le> currentSequence then Err ErrRollback
      else bind_res (CompareStableVersions (mf_version candidate) currentVersion) (\<lambda>cmp.
        if cmp \<le> 0 then Err ErrRollback else Ok ()))"

section \<open>Discovery\<close>

definition StableManifestURL :: string where
  "StableManifestURL = ''https://downloads.wedecent.com/windows/stable/manifest-v1.json''"
definition StableSignatureURL :: string where
  "StableSignatureURL = ''https://downloads.wedecent.com/windows/stable/manifest-v1.sig''"
definition MaxSignatureFileBytes :: nat where "MaxSignatureFileBytes = 128"
definition DefaultFetchTimeout :: int where "DefaultFetchTimeout = 10 * second"

text \<open>
  What \<open>client.Do\<close> and the body of the response answer: \<open>hr_length\<close> is \<open>ContentLength\<close> (-1 when
  unknown), \<open>hr_body\<close> what the body yields and \<open>hr_read\<close> whether reading it then fails.  The
  redirect policy makes \<open>client.Do\<close> fail on every redirect, so no redirect appears here.
\<close>

record http_response =
  hr_status :: int
  hr_length :: int
  hr_body :: "byte list"
  hr_read :: "nat option"

record discovery_client =
  dc_publicKey :: "byte list"
  dc_timeout :: int

type_synonym http_client = "int \<Rightarrow> string \<Rightarrow> http_response option"

text \<open>\<open>io.ReadAll(io.LimitReader(body, n))\<close>: the first \<open>n\<close> bytes, a fault beyond them unseen.\<close>

definition read_limited :: "nat \<Rightarrow> byte list \<Rightarrow> nat option \<Rightarrow> byte list option" where
  "read_limited n body fault =
     (if fault \<noteq> None \<and> length body < n then None else Some (take n body))"

definition discovery_fetch ::
  "http_client \<Rightarrow> discovery_client \<Rightarrow> string \<Rightarrow> nat \<Rightarrow> (update_error, byte list) result" where
  "discovery_fetch http c rawURL limit =
     (let timeout = (if dc_timeout c = 0 then DefaultFetchTimeout else dc_timeout c) in
      case http timeout rawURL of
        None \<Rightarrow> Err ErrDiscovery
      | Some resp \<Rightarrow>
          if hr_status resp \<noteq> 200 then Err ErrDiscovery
          else if int limit < hr_length resp then Err ErrDiscovery
          else (case read_limited (limit + 1) (hr_body resp) (hr_read resp) of
              None \<Rightarrow> Err ErrDiscovery
            | Some body \<Rightarrow>
                if body = [] \<or> limit < length body then Err ErrDiscovery else Ok body))"

definition DiscoverStable ::
  "(byte list \<Rightarrow> byte list \<Rightarrow> byte list \<Rightarrow> bool) \<Rightarrow> http_client \<Rightarrow> discovery_client \<Rightarrow> string \<Rightarrow> u64
     \<Rightarrow> (update_error, manifest) result" where
  "DiscoverStable ed_verify http c currentVersion highestSequence =
     (if length (dc_publicKey c) \<noteq> ed_PublicKeySize then Err ErrDiscovery
      else if dc_timeout c < 0 then Err ErrDiscovery
      else bind_res (discovery_fetch http c StableManifestURL MaxManifestBytes) (\<lambda>manifestBytes.
       bind_res (discovery_fetch http c StableSignatureURL MaxSignatureFileBytes) (\<lambda>signatureBytes.
        bind_res (Verify ed_verify (dc_publicKey c) manifestBytes signatureBytes) (\<lambda>manifest.
         bind_res (CheckAdvance currentVersion highestSequence manifest) (\<lambda>_. Ok manifest)))))"

section \<open>Versions\<close>

lemma split_on_append: "sep \<notin> set a \<Longrightarrow> split_on sep (a @ sep # r) = a # split_on sep r"
  by (induction a) auto

lemma split_on_single: "sep \<notin> set a \<Longrightarrow> split_on sep a = [a]"
  by (induction a) auto

lemma split_on_join: "split_on sep s = p # ps \<Longrightarrow> s = p @ concat (map (Cons sep) ps)"
  by (induction s arbitrary: p ps) (auto split: list.splits if_splits)

definition stable_version :: "nat \<times> nat \<times> nat \<Rightarrow> string" where
  "stable_version v =
     (case v of (a, b, c) \<Rightarrow> CHR ''v'' # decimal a @ CHR ''.'' # decimal b @ CHR ''.'' # decimal c)"

lemma dot_not_decimal: "CHR ''.'' \<notin> set (decimal n)"
  using decimal_digits [of n] by (auto simp: list_all_iff is_digit_def)

lemma parseStableVersion_iff: "parseStableVersion s = Ok v \<longleftrightarrow> s = stable_version v"
proof -
  obtain a b c where v: "v = (a, b, c)" by (cases v)
  have "parseStableVersion (stable_version (a, b, c)) = Ok (a, b, c)"
    by (simp add: parseStableVersion_def stable_version_def split_on_append split_on_single
        dot_not_decimal plain_decimal)
  moreover have "s = stable_version (a, b, c)" if m: "parseStableVersion s = Ok (a, b, c)"
  proof -
    obtain rest x y z where s: "s = CHR ''v'' # rest" "split_on CHR ''.'' rest = [x, y, z]"
      "plain_number x" "plain_number y" "plain_number z"
      "number_of x = a" "number_of y = b" "number_of z = c"
      using m by (auto simp: parseStableVersion_def split: list.splits if_splits)
    then have "rest = x @ CHR ''.'' # y @ CHR ''.'' # z" using split_on_join [OF s(2)] by simp
    with s decimal_number_of show ?thesis by (auto simp: stable_version_def)
  qed
  ultimately show ?thesis using v by blast
qed

lemma parseStableVersion_stable [simp]: "parseStableVersion (stable_version v) = Ok v"
  by (simp add: parseStableVersion_iff)

lemma stable_version_inject [simp]: "stable_version v = stable_version w \<longleftrightarrow> v = w"
  by (metis parseStableVersion_stable sum.inject(2))

lemma cmp_components_lex:
  "cmp_components [(a, a'), (b, b'), (c, c')] =
     (if (a, b, c) < (a', b', c') then -1 else if (a, b, c) = (a', b', c') then 0 else 1)"
  by (auto simp: cmp_int_def)

lemma CompareStableVersions_Ok_iff:
  "CompareStableVersions left right = Ok k \<longleftrightarrow>
     (\<exists>v w. left = stable_version v \<and> right = stable_version w \<and>
        k = (if v < w then -1 else if v = w then 0 else 1))"
proof
  assume "CompareStableVersions left right = Ok k"
  then obtain v w where "left = stable_version v" "right = stable_version w"
    and k: "k = cmp_components [(fst v, fst w), (fst (snd v), fst (snd w)), (snd (snd v), snd (snd w))]"
    by (auto simp: CompareStableVersions_def bind_res_Ok_iff parseStableVersion_iff)
  then show "\<exists>v w. left = stable_version v \<and> right = stable_version w \<and>
        k = (if v < w then -1 else if v = w then 0 else 1)"
    by (cases v; cases w) (auto simp: cmp_components_lex simp del: cmp_components.simps)
next
  assume "\<exists>v w. left = stable_version v \<and> right = stable_version w \<and>
        k = (if v < w then -1 else if v = w then 0 else 1)"
  then show "CompareStableVersions left right = Ok k"
    by (auto simp: CompareStableVersions_def cmp_components_lex simp del: cmp_components.simps split: prod.splits)
qed

section \<open>Canonical bytes\<close>

lemma of_char_char_byte [simp]: "(of_char (char_byte b) :: byte) = b"
proof -
  have "(of_char (char_byte b) :: byte) = of_nat (of_char (char_byte b))"
    by (simp only: of_nat_of_char)
  also have "(of_char (char_byte b) :: nat) = unat b"
    using unat_byte_less [of b] by (simp add: char_byte_def)
  finally show ?thesis by simp
qed

lemma bytes_of_string_of [simp]: "bytes_of (string_of bs) = bs"
  by (simp add: bytes_of_def string_of_def comp_def)

lemma bytes_of_append [simp]: "bytes_of (s @ t) = bytes_of s @ bytes_of t"
  by (simp add: bytes_of_def)

lemma string_of_append [simp]: "string_of (s @ t) = string_of s @ string_of t"
  by (simp add: string_of_def)

lemma string_of_eq_iff: "string_of bs = s \<longleftrightarrow> bs = bytes_of s"
  by auto

lemma ascii_stable_version: "ascii (stable_version v)"
  by (cases v) (simp add: stable_version_def)

lemma is_digit_ascii: "list_all is_digit s \<Longrightarrow> ascii s"
  by (auto simp: ascii_def is_digit_def Let_def list_all_iff)

lemma hex_decode_ascii: "hex_decode s = Some bs \<Longrightarrow> ascii s"
  by (induction s arbitrary: bs rule: hex_decode.induct)
     (auto simp: hex_digit_def Let_def split: option.splits if_splits)

lemma digits_at_ascii:
  "digits_at s i n = Some k \<Longrightarrow> ascii (take n (drop i s))"
  by (auto simp: digits_at_def Let_def is_digit_ascii split: if_splits)

lemma take_drop_nth: "i < length s \<Longrightarrow> take (Suc n) (drop i s) = s ! i # take n (drop (Suc i) s)"
  by (simp add: Cons_nth_drop_Suc [symmetric])

lemma rfc3339_utc_ascii: "rfc3339_utc s \<Longrightarrow> ascii s"
proof -
  assume r: "rfc3339_utc s"
  have len: "length s = 20" using r by (simp add: rfc3339_utc_def)
  have eq: "s = take 4 (drop 0 s) @ s ! 4 # take 2 (drop 5 s) @ s ! 7 # take 2 (drop 8 s) @ s ! 10 #
      take 2 (drop 11 s) @ s ! 13 # take 2 (drop 14 s) @ s ! 16 # take 2 (drop 17 s) @ [s ! 19]"
    using len by (intro nth_equalityI) (auto simp: nth_append nth_Cons' less_Suc_eq numeral_eq_Suc)
  have "ascii (take 4 (drop 0 s))" "ascii (take 2 (drop 5 s))" "ascii (take 2 (drop 8 s))"
    "ascii (take 2 (drop 11 s))" "ascii (take 2 (drop 14 s))" "ascii (take 2 (drop 17 s))"
    using r by (auto simp: rfc3339_utc_def split: option.splits dest!: digits_at_ascii)
  moreover have "s ! 4 = CHR ''-''" "s ! 7 = CHR ''-''" "s ! 10 = CHR ''T''" "s ! 13 = CHR '':''"
    "s ! 16 = CHR '':''" "s ! 19 = CHR ''Z''"
    using r by (auto simp: rfc3339_utc_def)
  ultimately show ?thesis using arg_cong [OF eq, of ascii]
    by (simp only: ascii_append ascii_Cons ascii_Nil) simp
qed
lemma manifest_Validate_iff:
  "manifest_Validate m = Ok () \<longleftrightarrow>
     mf_schema m = 1 \<and> mf_channel m = ''stable'' \<and> mf_sequence m \<noteq> 0 \<and>
     (\<exists>v. mf_version m = stable_version v) \<and> rfc3339_utc (mf_published m) \<and>
     validateSHA256 (mf_releaseSHA m) = Ok () \<and> validateSHA256 (mf_installerSHA m) = Ok () \<and>
     mf_releaseURL m = ''https://downloads.wedecent.com/windows/'' @ mf_version m @ ''/wedecent-''
       @ mf_version m @ ''-windows-amd64.zip'' \<and>
     mf_installerURL m = ''https://downloads.wedecent.com/windows/'' @ mf_version m @ ''/wedecent-''
       @ mf_version m @ ''-windows-installer.zip''"
  by (auto simp: manifest_Validate_def ManifestSchemaV1_def StableChannel_def DownloadHost_def
      bind_res_Ok_iff parseStableVersion_iff validatePublishedAt_def validateDownloadURL_def if_Err_Ok_iff
      split: if_splits)

lemma validateSHA256_iff:
  "validateSHA256 s = Ok () \<longleftrightarrow> length s = 64 \<and> map ascii_lower s = s \<and> hex_decode s \<noteq> None"
  by (auto simp: validateSHA256_def split: option.splits dest: hex_decode_length)

lemma validateSHA256_ascii: "validateSHA256 s = Ok () \<Longrightarrow> ascii s"
  by (auto simp: validateSHA256_iff hex_decode_ascii)

text \<open>The members a decoder finds in the encoding of a manifest, and what storing them gives.\<close>

definition manifest_members :: "manifest \<Rightarrow> (string \<times> json) list" where
  "manifest_members m =
     [(''schema'', JNum (decimal 1)), (''channel'', JStr (mf_channel m)),
      (''sequence'', JNum (decimal (unat (mf_sequence m)))), (''version'', JStr (mf_version m)),
      (''published_at'', JStr (mf_published m)), (''release_url'', JStr (mf_releaseURL m)),
      (''release_sha256'', JStr (mf_releaseSHA m)), (''installer_url'', JStr (mf_installerURL m)),
      (''installer_sha256'', JStr (mf_installerSHA m))]"

lemma manifest_decodes:
  assumes "manifest_Validate m = Ok ()"
  shows "json_decode (manifest_json m @ r) = Some (JObj (manifest_members m), r)"
proof -
  have "ascii (mf_channel m)" "ascii (mf_version m)" "ascii (mf_published m)" "ascii (mf_releaseURL m)"
    "ascii (mf_releaseSHA m)" "ascii (mf_installerURL m)" "ascii (mf_installerSHA m)"
    using assms validateSHA256_ascii rfc3339_utc_ascii ascii_stable_version
    by (auto simp: manifest_Validate_iff)
  moreover have "mf_schema m = 1" using assms by (simp add: manifest_Validate_iff)
  ultimately show ?thesis
    unfolding manifest_json_def
    by (intro json_decode_object) (simp_all add: manifest_members_def reads_quote reads_decimal)
qed

lemma store_string: "put_string upd (JStr s) x = Some (upd s x)"
  by (simp add: put_string_def)

lemma store_uint64: "put_uint64_field upd (JNum (decimal (unat n))) x = Some (upd n x)"
  using unat_u64_less [of n] by (simp add: put_uint64_field_def decimal_digits)

lemma store_int:
  assumes "n < 2 ^ 63"
  shows "put_int upd (JNum (decimal n)) x = Some (upd (int n) x)"
proof -
  obtain c cs where s: "decimal n = c # cs" by (cases "decimal n") auto
  have d: "list_all is_digit (decimal n)" by (rule decimal_digits)
  then have "c \<noteq> CHR ''-''" using digit_not_special [of c] s by auto
  then show ?thesis using s d assms number_of_decimal [of n] by (simp add: put_int_def)
qed

lemma manifest_stores:
  assumes "manifest_Validate m = Ok ()"
  shows "decode_struct True manifest_fields (JObj (manifest_members m)) zero_manifest = Some m"
proof -
  have "mf_schema m = 1" using assms by (simp add: manifest_Validate_iff)
  then show ?thesis
    by (cases m)
       (simp add: decode_struct_def manifest_members_def manifest_fields_def find_field_def zero_manifest_def
         store_string store_uint64 store_int)
qed

lemma EncodeCanonical_Ok_iff:
  "EncodeCanonical m = Ok data \<longleftrightarrow>
     manifest_Validate m = Ok () \<and> data = bytes_of (manifest_json m @ [CHR 0x0A]) \<and>
     length data \<le> MaxManifestBytes"
  by (auto simp: EncodeCanonical_def bind_res_Ok_iff Let_def)

lemma ParseCanonical_encoded:
  assumes "EncodeCanonical m = Ok data"
  shows "ParseCanonical data = Ok m"
proof -
  have v: "manifest_Validate m = Ok ()" and d: "data = bytes_of (manifest_json m @ [CHR 0x0A])"
    "length data \<le> MaxManifestBytes"
    using assms by (auto simp: EncodeCanonical_Ok_iff)
  have "json_decode (string_of data) = Some (JObj (manifest_members m), [CHR 0x0A])"
    using manifest_decodes [OF v, of "[CHR 0x0A]"] by (simp add: d(1) del: bytes_of_append)
  moreover have "json_eof [CHR 0x0A]" by (simp add: json_eof_def skip_ws_def json_ws_def)
  moreover have "data \<noteq> []" using d(1) by (auto simp: bytes_of_def)
  ultimately show ?thesis
    using d(2) assms by (simp add: ParseCanonical_def manifest_stores [OF v])
qed

lemma ParseCanonical_Ok_iff: "ParseCanonical data = Ok m \<longleftrightarrow> EncodeCanonical m = Ok data"
proof
  assume "ParseCanonical data = Ok m"
  then show "EncodeCanonical m = Ok data"
    by (auto simp: ParseCanonical_def bind_res_Ok_iff split: if_splits option.splits)
qed (rule ParseCanonical_encoded)

text \<open>
  The interface of a canonical encoding: reading accepts exactly what writing produces, so no
  value has two encodings and no encoding two values.
\<close>

locale canonical_codec =
  fixes enc :: "'a \<Rightarrow> ('e, byte list) result"
    and dec :: "byte list \<Rightarrow> ('e, 'a) result"
  assumes dec_iff: "dec b = Ok a \<longleftrightarrow> enc a = Ok b"
begin

lemma one_encoding: "dec b = Ok a \<Longrightarrow> dec b' = Ok a \<Longrightarrow> b = b'"
  by (simp add: dec_iff)

lemma one_value: "enc a = Ok b \<Longrightarrow> enc a' = Ok b \<Longrightarrow> a = a'"
  by (metis dec_iff sum.inject(2))

lemma not_written_not_read: "(\<forall>a. enc a \<noteq> Ok b) \<Longrightarrow> \<exists>e. dec b = Err e"
  by (cases "dec b") (auto simp: dec_iff)

end

interpretation manifests: canonical_codec EncodeCanonical ParseCanonical
  by unfold_locales (rule ParseCanonical_Ok_iff)

section \<open>Lines of base64\<close>

definition eols :: "string set" where
  "eols = {[], [CHR 0x0A], [CHR 0x0D, CHR 0x0A]}"

lemma strip_eol_cases: "\<exists>e \<in> eols. s = strip_eol s @ e"
proof -
  have split: "has_suffix s e \<Longrightarrow> s = take (length s - length e) s @ e" for e
    unfolding has_suffix_def by (metis append_take_drop_id)
  show ?thesis
    using split [of "[CHR 0x0D, CHR 0x0A]"] split [of "[CHR 0x0A]"]
    by (cases "has_suffix s [CHR 0x0D, CHR 0x0A]"; cases "has_suffix s [CHR 0x0A]")
       (simp_all add: strip_eol_def eols_def numeral_2_eq_2)
qed

lemma strip_eol_clean:
  assumes "\<not> contains_any t [CHR 0x0D, CHR 0x0A]" and "e \<in> eols"
  shows "strip_eol (t @ e) = t"
proof -
  have last: "t \<noteq> [] \<Longrightarrow> last t \<noteq> CHR 0x0D \<and> last t \<noteq> CHR 0x0A"
    using assms(1) last_in_set [of t] by (auto simp: contains_any_def list_ex_iff)
  then show ?thesis
    using assms(2) by (cases t rule: rev_cases) (auto simp: strip_eol_def has_suffix_def eols_def)
qed

lemma base64url_encode_chars: "c \<in> set (base64url_encode bs) \<Longrightarrow> b64_val c \<noteq> None"
proof -
  have "list_all (\<lambda>d. d < 64) (b64_digits (map unat bs))"
    by (rule b64_digits_less) (simp add: list_all_iff unat_byte_less)
  then show "c \<in> set (base64url_encode bs) \<Longrightarrow> b64_val c \<noteq> None"
    by (auto simp: base64url_encode_def list_all_iff b64_val_char)
qed

lemma base64url_encode_clean:
  "list_all (\<lambda>c. b64_val c = None) cs \<Longrightarrow> \<not> contains_any (base64url_encode bs) cs"
  unfolding contains_any_def list_ex_iff list_all_iff by (blast dest: base64url_encode_chars)

lemma length_b64_digits: "length (b64_digits bs) = (4 * length bs + 2) div 3"
  by (induction bs rule: b64_digits.induct) auto

lemma length_base64url_encode [simp]: "length (base64url_encode bs) = (4 * length bs + 2) div 3"
  by (simp add: base64url_encode_def length_b64_digits)

lemma strict_line_iff:
  assumes "list_all (\<lambda>c. b64_val c = None) cs" and "{CHR 0x0D, CHR 0x0A} \<subseteq> set cs"
  shows "\<not> contains_any (strip_eol s) cs \<and> base64url_strict_decode (strip_eol s) = Some bs \<longleftrightarrow>
     (\<exists>e \<in> eols. s = base64url_encode bs @ e)"
proof
  assume l: "\<not> contains_any (strip_eol s) cs \<and> base64url_strict_decode (strip_eol s) = Some bs"
  then have "\<not> contains_any (strip_eol s) [CHR 0x0D, CHR 0x0A]"
    using assms(2) by (auto simp: contains_any_def list_ex_iff)
  with l have "base64url_encode bs = strip_eol s" using base64url_encode_strict_decode by blast
  with strip_eol_cases [of s] show "\<exists>e \<in> eols. s = base64url_encode bs @ e" by auto
next
  assume "\<exists>e \<in> eols. s = base64url_encode bs @ e"
  moreover have "\<not> contains_any (base64url_encode bs) [CHR 0x0D, CHR 0x0A]"
    by (rule base64url_encode_clean) (simp add: b64_val_def)
  ultimately have "strip_eol s = base64url_encode bs" using strip_eol_clean by blast
  then show "\<not> contains_any (strip_eol s) cs \<and> base64url_strict_decode (strip_eol s) = Some bs"
    using base64url_encode_clean [OF assms(1)] by simp
qed

lemma DecodeSignature_Ok_iff:
  "DecodeSignature data = Ok s \<longleftrightarrow>
     length s = 64 \<and> (\<exists>e \<in> eols. data = bytes_of (base64url_encode s @ e))"
proof -
  let ?ws = "[CHR '' '', CHR 0x09, CHR 0x0D, CHR 0x0A]"
  let ?l = "strip_eol (string_of data)"
  have iff: "\<not> contains_any ?l ?ws \<and> base64url_strict_decode ?l = Some s \<longleftrightarrow>
      (\<exists>e \<in> eols. string_of data = base64url_encode s @ e)"
    by (rule strict_line_iff) (simp_all add: b64_val_def)
  have short: "data \<noteq> [] \<and> length data \<le> 128 \<and> ?l \<noteq> []"
    if len: "length s = 64" and e: "\<exists>e \<in> eols. string_of data = base64url_encode s @ e"
  proof -
    have "length ?l = 86" using iff e len length_base64url_encode [of s] strip_eol_clean
      base64url_encode_clean [of "[CHR 0x0D, CHR 0x0A]" s] by (auto simp: b64_val_def)
    moreover have "length (string_of data) \<le> 88" using e len by (auto simp: eols_def)
    ultimately show ?thesis by (auto simp: string_of_def strip_eol_def has_suffix_def)
  qed
  have "DecodeSignature data = Ok s \<longleftrightarrow> data \<noteq> [] \<and> length data \<le> 128 \<and> ?l \<noteq> [] \<and> length s = 64 \<and>
      (\<not> contains_any ?l ?ws \<and> base64url_strict_decode ?l = Some s)"
    by (auto simp: DecodeSignature_def Let_def ed_SignatureSize_def split: option.splits)
  then show ?thesis using iff short by (auto simp: string_of_eq_iff)
qed

lemma DecodePublicKey_Ok_iff:
  "DecodePublicKey data = Ok k \<longleftrightarrow>
     length k = 32 \<and> (\<exists>e \<in> eols. data = bytes_of (base64url_encode k @ e))"
proof -
  let ?ws = "[CHR '' '', CHR 0x09, CHR 0x0D, CHR 0x0A, CHR ''='']"
  let ?l = "strip_eol (string_of data)"
  have iff: "\<not> contains_any ?l ?ws \<and> base64url_strict_decode ?l = Some k \<longleftrightarrow>
      (\<exists>e \<in> eols. string_of data = base64url_encode k @ e)"
    by (rule strict_line_iff) (simp_all add: b64_val_def)
  have short: "data \<noteq> [] \<and> length data \<le> 96 \<and> ?l \<noteq> []"
    if len: "length k = 32" and e: "\<exists>e \<in> eols. string_of data = base64url_encode k @ e"
  proof -
    have "length ?l = 43" using iff e len length_base64url_encode [of k] strip_eol_clean
      base64url_encode_clean [of "[CHR 0x0D, CHR 0x0A]" k] by (auto simp: b64_val_def)
    moreover have "length (string_of data) \<le> 45" using e len by (auto simp: eols_def)
    ultimately show ?thesis by (auto simp: string_of_def strip_eol_def has_suffix_def)
  qed
  have "DecodePublicKey data = Ok k \<longleftrightarrow> data \<noteq> [] \<and> length data \<le> 96 \<and> ?l \<noteq> [] \<and> length k = 32 \<and>
      (\<not> contains_any ?l ?ws \<and> base64url_strict_decode ?l = Some k)"
    by (auto simp: DecodePublicKey_def Let_def ed_PublicKeySize_def contains_any_def list_ex_iff
        split: option.splits)
  then show ?thesis using iff short by (auto simp: string_of_eq_iff)
qed

section \<open>Verified manifests\<close>

lemma Verify_Ok_iff:
  "Verify ed_verify publicKey manifestBytes signatureBytes = Ok m \<longleftrightarrow>
     length publicKey = 32 \<and> EncodeCanonical m = Ok manifestBytes \<and>
     (\<exists>s. DecodeSignature signatureBytes = Ok s \<and> ed_verify publicKey manifestBytes s)"
proof -
  have "manifestBytes \<noteq> [] \<and> length manifestBytes \<le> MaxManifestBytes"
    if "EncodeCanonical m = Ok manifestBytes"
    using that by (auto simp: EncodeCanonical_Ok_iff bytes_of_def)
  then show ?thesis
    by (auto simp: Verify_def ed_PublicKeySize_def bind_res_Ok_iff ParseCanonical_Ok_iff if_Err_Ok_iff
        split: if_splits)
qed

lemma CompareStableVersions_newer_iff:
  "(\<exists>k. CompareStableVersions left right = Ok k \<and> 0 < k) \<longleftrightarrow>
     (\<exists>v w. left = stable_version v \<and> right = stable_version w \<and> w < v)"
proof
  assume "\<exists>k. CompareStableVersions left right = Ok k \<and> 0 < k"
  then obtain v w where "left = stable_version v" "right = stable_version w"
    and "0 < (if v < w then -1 else if v = w then 0 else (1 :: int))"
    unfolding CompareStableVersions_Ok_iff by blast
  moreover from this(3) have "w < v" by (cases v w rule: linorder_cases) (simp_all split: if_splits)
  ultimately show "\<exists>v w. left = stable_version v \<and> right = stable_version w \<and> w < v" by blast
next
  assume "\<exists>v w. left = stable_version v \<and> right = stable_version w \<and> w < v"
  then obtain v w where vw: "left = stable_version v" "right = stable_version w" "w < v" by blast
  then have "\<not> v < w" "v \<noteq> w" by (meson less_asym, blast)
  then have "CompareStableVersions left right = Ok 1"
    using vw(1,2) unfolding CompareStableVersions_Ok_iff by (metis (full_types))
  then show "\<exists>k. CompareStableVersions left right = Ok k \<and> 0 < k" by auto
qed

lemma CheckAdvance_Ok_iff:
  "CheckAdvance currentVersion currentSequence m = Ok () \<longleftrightarrow>
     manifest_Validate m = Ok () \<and> currentSequence < mf_sequence m \<and>
     (\<exists>new old. mf_version m = stable_version new \<and> currentVersion = stable_version old \<and> old < new)"
  unfolding CompareStableVersions_newer_iff [symmetric]
  by (auto simp: CheckAdvance_def bind_res_Ok_iff if_Err_Ok_iff not_le)

lemma discovery_fetch_bounded:
  "discovery_fetch http c url limit = Ok body \<Longrightarrow> body \<noteq> [] \<and> length body \<le> limit"
  by (auto simp: discovery_fetch_def Let_def split: option.splits if_splits)

lemma discovery_fetch_body:
  assumes "discovery_fetch http c url limit = Ok body"
  shows "\<exists>t resp. http t url = Some resp \<and> hr_status resp = 200 \<and> hr_body resp = body \<and> hr_length resp \<le> int limit"
  using assms discovery_fetch_bounded [OF assms]
  by (fastforce simp: discovery_fetch_def read_limited_def Let_def not_less split: option.splits if_splits)
section \<open>Properties\<close>

text \<open>
  Claim C9.  Manifests and the bytes that may be signed correspond one to one: parsing accepts a
  byte sequence with a manifest as its result exactly when it is what encoding that manifest
  produces.  So no second spelling of a manifest is accepted, every encoded manifest is read
  back unchanged, and what is parsed is valid and within the size limit.
\<close>

theorem canonical_bytes_unique:
  "ParseCanonical data = Ok m \<longleftrightarrow> EncodeCanonical m = Ok data"
  by (rule manifests.dec_iff)

text \<open>
  Claim C17.  Comparing two version strings gives a result exactly when both are the decimal
  spelling of a triple of numbers of any size, and then the result is the sign of the
  lexicographic comparison of the triples; so versions that compare equal are the same string.
\<close>

theorem version_order_lexicographic:
  "(CompareStableVersions left right = Ok k \<longleftrightarrow>
     (\<exists>v w. left = stable_version v \<and> right = stable_version w \<and>
        k = (if v < w then -1 else if v = w then 0 else 1))) \<and>
   (CompareStableVersions left right = Ok 0 \<longleftrightarrow> left = right \<and> (\<exists>v. left = stable_version v))"
  unfolding CompareStableVersions_Ok_iff by (auto simp del: less_prod_simp split: if_splits)

text \<open>
  Claim C7.  A manifest that discovery offers was served, byte for byte in its canonical
  encoding, at the fixed manifest address, with a signature of exactly these bytes under the
  pinned key at the fixed signature address; its sequence number is above the highest one
  accepted and its version above the installed one.
\<close>

theorem discovered_update_authentic:
  assumes "DiscoverStable ed_verify http c currentVersion highestSequence = Ok m"
  shows "(\<exists>t resp t' resp' s.
       http t StableManifestURL = Some resp \<and> EncodeCanonical m = Ok (hr_body resp) \<and>
       http t' StableSignatureURL = Some resp' \<and> DecodeSignature (hr_body resp') = Ok s \<and>
       length (dc_publicKey c) = 32 \<and> ed_verify (dc_publicKey c) (hr_body resp) s) \<and>
     highestSequence < mf_sequence m \<and>
     (\<exists>new old. mf_version m = stable_version new \<and> currentVersion = stable_version old \<and> old < new)"
proof -
  obtain mb sb where mb: "discovery_fetch http c StableManifestURL MaxManifestBytes = Ok mb"
    and sb: "discovery_fetch http c StableSignatureURL MaxSignatureFileBytes = Ok sb"
    and v: "Verify ed_verify (dc_publicKey c) mb sb = Ok m"
    and a: "CheckAdvance currentVersion highestSequence m = Ok ()"
    using assms by (auto simp: DiscoverStable_def bind_res_Ok_iff split: if_splits)
  from discovery_fetch_body [OF mb] discovery_fetch_body [OF sb] v a show ?thesis
    unfolding Verify_Ok_iff CheckAdvance_Ok_iff by metis
qed

text \<open>A release that advances an installed version 1.2.9 from sequence 6.\<close>

definition sample_manifest :: manifest where
  "sample_manifest = \<lparr>mf_schema = 1, mf_channel = ''stable'', mf_sequence = 7, mf_version = ''v1.10.0'',
     mf_published = ''2024-02-29T23:59:59Z'',
     mf_releaseURL = ''https://downloads.wedecent.com/windows/v1.10.0/wedecent-v1.10.0-windows-amd64.zip'',
     mf_releaseSHA = replicate 64 CHR ''a'',
     mf_installerURL = ''https://downloads.wedecent.com/windows/v1.10.0/wedecent-v1.10.0-windows-installer.zip'',
     mf_installerSHA = replicate 64 CHR ''7''\<rparr>"

definition sample_manifest_bytes :: "byte list" where
  "sample_manifest_bytes = bytes_of (manifest_json sample_manifest @ [CHR 0x0A])"

definition sample_http :: http_client where
  "sample_http t url =
     (if url = StableManifestURL
      then Some \<lparr>hr_status = 200, hr_length = -1, hr_body = sample_manifest_bytes, hr_read = None\<rparr>
      else if url = StableSignatureURL
      then Some \<lparr>hr_status = 200, hr_length = -1,
        hr_body = bytes_of (base64url_encode (replicate 64 1) @ [CHR 0x0A]), hr_read = None\<rparr>
      else None)"

definition sample_discovery :: discovery_client where
  "sample_discovery = \<lparr>dc_publicKey = replicate 32 5, dc_timeout = 0\<rparr>"

lemma sample_version: "''v1.10.0'' = stable_version (1, 10, 0)" "''v1.2.9'' = stable_version (1, 2, 9)"
  by code_simp+

lemma validateSHA256_replicate:
  assumes "hex_digit c = Some d" and "ascii_lower c = c"
  shows "validateSHA256 (replicate 64 c) = Ok ()"
proof -
  have "hex_decode (replicate (2 * n) c) \<noteq> None" for n
    using assms(1) by (induction n) (auto split: option.splits)
  from this [of 32] show ?thesis using assms(2) by (simp add: validateSHA256_iff)
qed

lemma sample_manifest_valid: "manifest_Validate sample_manifest = Ok ()"
proof -
  have "validateSHA256 (replicate 64 CHR ''a'') = Ok ()" "validateSHA256 (replicate 64 CHR ''7'') = Ok ()"
    by (rule validateSHA256_replicate, simp_all add: hex_digit_def ascii_lower_def)+
  moreover have "rfc3339_utc ''2024-02-29T23:59:59Z''" by code_simp
  ultimately show ?thesis using sample_version by (auto simp: manifest_Validate_iff sample_manifest_def)
qed

lemma length_escape_rune: "bs \<noteq> [] \<Longrightarrow> length (escape_rune r bs) \<le> 6 * length bs"
  by (cases bs) (auto simp: escape_rune_def unicode_escape_def hex4_def)

lemma length_escape_bytes: "length (escape_bytes bs) \<le> 6 * length bs"
proof (induction bs rule: escape_bytes.induct)
  case (2 b bs)
  define w where "w = snd (decode_rune (b # bs)) - 1"
  have "length (escape_rune r (b # take w bs)) \<le> 6 * length (b # take w bs)" for r
    by (rule length_escape_rune) simp
  moreover have "length (escape_bytes (drop w bs)) \<le> 6 * length (drop w bs)"
    using 2 by (simp add: w_def)
  moreover have "length (b # take w bs) + length (drop w bs) = length (b # bs)" by simp
  ultimately show ?case
    unfolding escape_bytes.simps Let_def w_def [symmetric] length_append
    by (smt (verit) add_mono distrib_left order_trans)
qed simp

lemma length_json_quote: "length (json_quote s) \<le> 6 * length s + 2"
  using length_escape_bytes [of "map of_char s"] by (simp add: json_quote_def)

lemma sample_manifest_length: "length sample_manifest_bytes \<le> 16384"
proof -
  have "length (json_quote s) \<le> 1000" if "length s < 160" for s
    using length_json_quote [of s] that by simp
  note q = this
  have "length (decimal 7) = 1" "length (decimal 1) = 1" by (simp_all add: decimal.simps)
  then show ?thesis
    using q [of "''stable''"] q [of "''v1.10.0''"] q [of "''2024-02-29T23:59:59Z''"]
      q [of "mf_releaseURL sample_manifest"] q [of "mf_releaseSHA sample_manifest"]
      q [of "mf_installerURL sample_manifest"] q [of "mf_installerSHA sample_manifest"]
      q [of "''schema''"] q [of "''channel''"] q [of "''sequence''"] q [of "''version''"] q [of "''published_at''"]
      q [of "''release_url''"] q [of "''release_sha256''"] q [of "''installer_url''"] q [of "''installer_sha256''"]
    by (simp add: sample_manifest_bytes_def manifest_json_def json_object_def sample_manifest_def
        del: bytes_of_append)
qed

lemma sample_manifest_encoded: "EncodeCanonical sample_manifest = Ok sample_manifest_bytes"
  using sample_manifest_valid sample_manifest_length
  by (simp add: EncodeCanonical_Ok_iff sample_manifest_bytes_def MaxManifestBytes_def)

lemma sample_manifest_discovered:
  "DiscoverStable (\<lambda>k d s. s = replicate 64 1) sample_http sample_discovery ''v1.2.9'' 6 = Ok sample_manifest"
proof -
  have nonempty: "sample_manifest_bytes \<noteq> []" by (simp add: sample_manifest_bytes_def bytes_of_def)
  have mb: "discovery_fetch sample_http sample_discovery StableManifestURL MaxManifestBytes
      = Ok sample_manifest_bytes"
    using sample_manifest_length nonempty
    by (simp add: discovery_fetch_def sample_http_def sample_discovery_def read_limited_def MaxManifestBytes_def)
  have sb: "discovery_fetch sample_http sample_discovery StableSignatureURL MaxSignatureFileBytes
      = Ok (bytes_of (base64url_encode (replicate 64 1) @ [CHR 0x0A]))"
    by (simp add: discovery_fetch_def sample_http_def sample_discovery_def read_limited_def
        MaxSignatureFileBytes_def StableManifestURL_def StableSignatureURL_def del: bytes_of_append)
       (simp add: bytes_of_def)
  have sig: "DecodeSignature (bytes_of (base64url_encode (replicate 64 1) @ [CHR 0x0A])) = Ok (replicate 64 1)"
    unfolding DecodeSignature_Ok_iff by (auto simp: eols_def)
  have "Verify (\<lambda>k d s. s = replicate 64 1) (dc_publicKey sample_discovery) sample_manifest_bytes
      (bytes_of (base64url_encode (replicate 64 1) @ [CHR 0x0A])) = Ok sample_manifest"
    unfolding Verify_Ok_iff using sample_manifest_encoded sig by (simp add: sample_discovery_def)
  moreover have "CheckAdvance ''v1.2.9'' 6 sample_manifest = Ok ()"
  proof -
    have "mf_version sample_manifest = stable_version (1, 10, 0)" "mf_sequence sample_manifest = 7"
      unfolding sample_version [symmetric] by (simp_all add: sample_manifest_def)
    then show ?thesis
      unfolding CheckAdvance_Ok_iff sample_version using sample_manifest_valid by auto
  qed
  ultimately show ?thesis
    by (simp add: DiscoverStable_def mb sb ed_PublicKeySize_def del: bytes_of_append)
       (simp add: sample_discovery_def)
qed
theorem discovered_update_authentic_witness:
  "DiscoverStable (\<lambda>k d s. s = replicate 64 1) sample_http sample_discovery ''v1.2.9'' 6 = Ok sample_manifest \<and>
   (6 :: u64) < mf_sequence sample_manifest"
  using sample_manifest_discovered discovered_update_authentic [OF sample_manifest_discovered] by blast

end
