(* ===== verification/Update_State.thy ===== *)
theory Update_State
  imports Update_Manifest
begin

text \<open>
  The anti-rollback state of the updater (\<open>internal/updateinfo/state.go\<close> and, for systems other
  than Windows, \<open>state_storage_unix.go\<close> and \<open>update_lock_unix.go\<close>): one small canonical JSON
  file in a private directory, replaced atomically, and the lock file that serializes updater
  processes.  The file system is the directory, the state file and the temporary file; each
  system call may fail.
\<close>

section \<open>State and its encoding\<close>

definition UpdateStateVersion :: int where "UpdateStateVersion = 1"
definition MaxUpdateStateBytes :: nat where "MaxUpdateStateBytes = 4096"

record upd_state =
  us_version :: int
  us_sequence :: u64

definition validatePersisted :: "upd_state \<Rightarrow> (update_error, unit) result" where
  "validatePersisted s =
     (if us_version s \<noteq> UpdateStateVersion then Err ErrInvalidState
      else if us_sequence s = 0 then Err ErrInvalidState
      else Ok ())"

definition state_json :: "upd_state \<Rightarrow> string" where
  "state_json s = json_object
     [(''version'', (if us_version s < 0 then CHR ''-'' # decimal (nat (- us_version s)) else decimal (nat (us_version s)))),
      (''stable_sequence'', decimal (unat (us_sequence s)))]"

definition encodeState :: "upd_state \<Rightarrow> (update_error, byte list) result" where
  "encodeState s =
     (let data = bytes_of (state_json s @ [CHR 0x0A]) in
      if MaxUpdateStateBytes < length data then Err ErrInvalidState else Ok data)"

definition state_fields :: "upd_state json_field list" where
  "state_fields =
     [(''version'', put_int (\<lambda>v s. s\<lparr>us_version := v\<rparr>)),
      (''stable_sequence'', put_uint64_field (\<lambda>v s. s\<lparr>us_sequence := v\<rparr>))]"

section \<open>The disk\<close>

text \<open>\<open>0o600\<close> and \<open>0o700\<close> are 384 and 448; \<open>perm & 0o077\<close> is the remainder by 64.\<close>

datatype fnode =
    FRegular (fn_perm: nat) (fn_owner: nat) (fn_data: "byte list")
  | FSymlink
  | FOther

datatype dnode =
    DDirectory (dn_perm: nat) (dn_owner: nat)
  | DOther

record update_disk =
  ud_dir :: "dnode option"
  ud_state :: "fnode option"
  ud_temp :: "fnode option"

datatype fs_call =
    FsLstat | FsRead | FsMkdirAll | FsLstatDir | FsChmodDir | FsCreateTemp | FsChmod | FsWrite
  | FsSync | FsClose | FsRemove | FsRename | FsOpenDir | FsSyncDir

type_synonym faults = "fs_call \<Rightarrow> bool"

definition validateEffectiveOwner :: "nat \<Rightarrow> nat \<Rightarrow> (update_error, unit) result" where
  "validateEffectiveOwner euid owner = (if owner \<noteq> euid then Err ErrInvalidState else Ok ())"

definition validateStateFileInfo :: "nat \<Rightarrow> nat \<Rightarrow> nat \<Rightarrow> (update_error, unit) result" where
  "validateStateFileInfo euid perm owner =
     (if perm mod 64 \<noteq> 0 then Err ErrInvalidState else validateEffectiveOwner euid owner)"

definition validateStateDirInfo :: "nat \<Rightarrow> nat \<Rightarrow> nat \<Rightarrow> (update_error, unit) result" where
  "validateStateDirInfo euid perm owner =
     (if perm mod 64 \<noteq> 0 then Err ErrInvalidState else validateEffectiveOwner euid owner)"

text \<open>\<open>os.MkdirAll\<close> creates a missing directory and leaves an existing entry alone.\<close>

definition mkdir_all :: "nat \<Rightarrow> update_disk \<Rightarrow> update_disk" where
  "mkdir_all euid d = (if ud_dir d = None then d\<lparr>ud_dir := Some (DDirectory 448 euid)\<rparr> else d)"

definition ensurePrivateStateDir ::
  "nat \<Rightarrow> faults \<Rightarrow> update_disk \<Rightarrow> (update_error, unit) result \<times> update_disk" where
  "ensurePrivateStateDir euid fails d =
     (if fails FsMkdirAll then (Err ErrInvalidState, d)
      else (let d1 = mkdir_all euid d in
        if fails FsLstatDir then (Err ErrInvalidState, d1)
        else (case ud_dir d1 of
            Some (DDirectory perm owner) \<Rightarrow>
              (case validateStateDirInfo euid perm owner of
                 Err e \<Rightarrow> (Err e, d1)
               | Ok _ \<Rightarrow>
                   if fails FsChmodDir then (Err ErrInvalidState, d1)
                   else (Ok (), d1\<lparr>ud_dir := Some (DDirectory 448 owner)\<rparr>))
          | _ \<Rightarrow> (Err ErrInvalidState, d1))))"

section \<open>Loading and saving\<close>

definition zero_state :: upd_state where
  "zero_state = \<lparr>us_version = 0, us_sequence = 0\<rparr>"

text \<open>The content of a state file, after the checks on the directory entry.\<close>

definition decodeState :: "byte list \<Rightarrow> (update_error, upd_state) result" where
  "decodeState data =
     (if data = [] \<or> MaxUpdateStateBytes < length data then Err ErrInvalidState
      else (case json_decode (string_of data) of
          None \<Rightarrow> Err ErrInvalidState
        | Some (j, rest) \<Rightarrow>
            (case decode_struct True state_fields j zero_state of
               None \<Rightarrow> Err ErrInvalidState
             | Some s \<Rightarrow>
                 if \<not> json_eof rest then Err ErrInvalidState
                 else bind_res (validatePersisted s) (\<lambda>_.
                  bind_res (encodeState s) (\<lambda>canonical.
                   if data \<noteq> canonical then Err ErrInvalidState else Ok s)))))"

definition loadState :: "nat \<Rightarrow> faults \<Rightarrow> update_disk \<Rightarrow> (update_error, upd_state) result" where
  "loadState euid fails d =
     (if fails FsLstat then Err ErrInvalidState
      else (case ud_state d of
          None \<Rightarrow> Ok \<lparr>us_version = UpdateStateVersion, us_sequence = 0\<rparr>
        | Some FSymlink \<Rightarrow> Err ErrInvalidState
        | Some FOther \<Rightarrow> Err ErrInvalidState
        | Some (FRegular perm owner data) \<Rightarrow>
            bind_res (validateStateFileInfo euid perm owner) (\<lambda>_.
              if fails FsRead then Err ErrInvalidState else decodeState data)))"

definition replaceStateFile :: "faults \<Rightarrow> update_disk \<Rightarrow> (update_error, unit) result \<times> update_disk" where
  "replaceStateFile fails d =
     (if fails FsRename then (Err ErrInvalidState, d)
      else (let d1 = d\<lparr>ud_state := ud_temp d, ud_temp := None\<rparr> in
        if fails FsOpenDir then (Err ErrInvalidState, d1)
        else if fails FsSyncDir then (Err ErrInvalidState, d1)
        else (Ok (), d1)))"

definition remove_temp :: "faults \<Rightarrow> update_disk \<Rightarrow> update_disk" where
  "remove_temp fails d = (if fails FsRemove then d else d\<lparr>ud_temp := None\<rparr>)"

text \<open>
  \<open>ud_temp\<close> is the temporary file of this call.  A failed write may have stored a part of the
  data, given by \<open>part\<close>.
\<close>

definition saveState ::
  "nat \<Rightarrow> faults \<Rightarrow> nat \<Rightarrow> upd_state \<Rightarrow> update_disk \<Rightarrow> (update_error, unit) result \<times> update_disk" where
  "saveState euid fails part s d =
     (case validatePersisted s of Err e \<Rightarrow> (Err e, d) | Ok _ \<Rightarrow>
      (case encodeState s of Err e \<Rightarrow> (Err e, d) | Ok data \<Rightarrow>
       (case ensurePrivateStateDir euid fails d of
          (Err e, d1) \<Rightarrow> (Err e, d1)
        | (Ok _, d1) \<Rightarrow>
            if fails FsCreateTemp then (Err ErrInvalidState, d1)
            else (let tmp = (\<lambda>b. d1\<lparr>ud_temp := Some (FRegular 384 euid b)\<rparr>) in
              if fails FsChmod then (Err ErrInvalidState, remove_temp fails (tmp []))
              else if fails FsWrite then (Err ErrInvalidState, remove_temp fails (tmp (take part data)))
              else if fails FsSync then (Err ErrInvalidState, remove_temp fails (tmp data))
              else if fails FsClose then (Err ErrInvalidState, remove_temp fails (tmp data))
              else (case replaceStateFile fails (tmp data) of
                  (Err e, d2) \<Rightarrow> (Err e, remove_temp fails d2)
                | (Ok _, d2) \<Rightarrow> (Ok (), d2))))))"

text \<open>A store that has a path; the mutex makes each operation one step.\<close>

definition StateStore_Load :: "nat \<Rightarrow> faults \<Rightarrow> string \<Rightarrow> update_disk \<Rightarrow> (update_error, upd_state) result" where
  "StateStore_Load euid fails path d =
     (if path = [] then Err ErrInvalidState else loadState euid fails d)"

definition StateStore_Advance ::
  "nat \<Rightarrow> faults \<Rightarrow> nat \<Rightarrow> string \<Rightarrow> u64 \<Rightarrow> update_disk \<Rightarrow> (update_error, unit) result \<times> update_disk" where
  "StateStore_Advance euid fails part path sequence d =
     (if path = [] then (Err ErrInvalidState, d)
      else if sequence = 0 then (Err ErrInvalidState, d)
      else (case loadState euid fails d of
          Err e \<Rightarrow> (Err e, d)
        | Ok current \<Rightarrow>
            if sequence \<le> us_sequence current then (Err ErrRollback, d)
            else saveState euid fails part \<lparr>us_version = UpdateStateVersion, us_sequence = sequence\<rparr> d))"

section \<open>The lock between processes\<close>

datatype flock_answer = FlockAcquired | FlockWouldBlock | FlockFailed

text \<open>
  The wait for the lock: \<open>answers i\<close> is what the non-blocking lock request of round \<open>i\<close> gets
  (\<open>EWOULDBLOCK\<close> and \<open>EAGAIN\<close> are the same answer), \<open>ctx i\<close> the error of the context when the
  select of that round takes the context's case.  The loop has no bound of its own.
\<close>

partial_function (option) flock_loop ::
  "(nat \<Rightarrow> flock_answer) \<Rightarrow> (nat \<Rightarrow> nat option) \<Rightarrow> nat \<Rightarrow> (update_error, unit) result option" where
  "flock_loop answers ctx i =
     (case answers i of
        FlockAcquired \<Rightarrow> Some (Ok ())
      | FlockFailed \<Rightarrow> Some (Err ErrInvalidState)
      | FlockWouldBlock \<Rightarrow>
          (case ctx i of
             Some e \<Rightarrow> Some (Err (ErrContext e))
           | None \<Rightarrow> flock_loop answers ctx (Suc i)))"

record lock_env =
  le_dir :: faults
  le_open :: bool
  le_chmod :: bool
  le_regular :: bool
  le_stable :: bool
  le_answers :: "nat \<Rightarrow> flock_answer"
  le_ctx :: "nat \<Rightarrow> nat option"

text \<open>
  \<open>le_open\<close> and \<open>le_chmod\<close> say that the call fails, \<open>le_regular\<close> that the opened file is regular
  and \<open>le_stable\<close> that the path still names it and is no symbolic link.
\<close>

definition acquireUpdateLock ::
  "nat \<Rightarrow> lock_env \<Rightarrow> update_disk \<Rightarrow> (update_error, unit) result option \<times> update_disk" where
  "acquireUpdateLock euid env d =
     (case ensurePrivateStateDir euid (le_dir env) d of
        (Err e, d1) \<Rightarrow> (Some (Err e), d1)
      | (Ok _, d1) \<Rightarrow>
          if le_open env then (Some (Err ErrInvalidState), d1)
          else if le_chmod env then (Some (Err ErrInvalidState), d1)
          else if \<not> le_regular env then (Some (Err ErrInvalidState), d1)
          else if \<not> le_stable env then (Some (Err ErrInvalidState), d1)
          else (flock_loop (le_answers env) (le_ctx env) 0, d1))"

section \<open>The state file is read back\<close>

lemma state_json_decodes:
  assumes "validatePersisted s = Ok ()"
  shows "json_decode (state_json s @ r) =
     Some (JObj [(''version'', JNum (decimal 1)), (''stable_sequence'', JNum (decimal (unat (us_sequence s))))], r)"
proof -
  have "us_version s = 1"
    using assms by (auto simp: validatePersisted_def UpdateStateVersion_def split: if_splits)
  then show ?thesis unfolding state_json_def by (intro json_decode_object) (simp_all add: reads_decimal)
qed

lemma decodeState_Ok_iff:
  "decodeState data = Ok s \<longleftrightarrow> validatePersisted s = Ok () \<and> encodeState s = Ok data"
proof
  assume "decodeState data = Ok s"
  then show "validatePersisted s = Ok () \<and> encodeState s = Ok data"
    by (auto simp: decodeState_def bind_res_Ok_iff split: if_splits option.splits)
next
  assume s: "validatePersisted s = Ok () \<and> encodeState s = Ok data"
  then have d: "data = bytes_of (state_json s @ [CHR 0x0A])" "length data \<le> MaxUpdateStateBytes"
    by (auto simp: encodeState_def Let_def split: if_splits)
  have "json_eof [CHR 0x0A]" by (simp add: json_eof_def skip_ws_def json_ws_def)
  moreover have "data \<noteq> []" using d(1) by (auto simp: bytes_of_def)
  moreover have "us_version s = 1"
    using s by (auto simp: validatePersisted_def UpdateStateVersion_def split: if_splits)
  ultimately show "decodeState data = Ok s"
    using s d state_json_decodes [of s "[CHR 0x0A]"]
    by (cases s) (simp add: decodeState_def decode_struct_def state_fields_def find_field_def zero_state_def
        store_int store_uint64 string_of_bytes_of del: bytes_of_append)
qed

definition state_bytes :: "upd_state \<Rightarrow> (update_error, byte list) result" where
  "state_bytes s = bind_res (validatePersisted s) (\<lambda>_. encodeState s)"

interpretation states: canonical_codec state_bytes decodeState
  by unfold_locales (auto simp: decodeState_Ok_iff state_bytes_def bind_res_Ok_iff)

section \<open>Saving\<close>

text \<open>
  Whatever fails, the state file afterwards is the one before or the new one complete; success
  means the new one, and no temporary file stays behind unless removing it fails.
\<close>

definition state_file :: "nat \<Rightarrow> upd_state \<Rightarrow> fnode" where
  "state_file euid s = FRegular 384 euid (bytes_of (state_json s @ [CHR 0x0A]))"

lemma ensurePrivateStateDir_keeps:
  "ensurePrivateStateDir euid fails d = (r, d') \<Longrightarrow> ud_state d' = ud_state d \<and> ud_temp d' = ud_temp d"
  by (auto simp: ensurePrivateStateDir_def mkdir_all_def Let_def
      split: if_splits option.splits dnode.splits sum.splits)

lemma encodeState_Ok: "encodeState s = Ok data \<Longrightarrow> data = bytes_of (state_json s @ [CHR 0x0A])"
  by (auto simp: encodeState_def Let_def split: if_splits)

lemma saveState_cases:
  assumes "saveState euid fails part s d = (r, d')"
  shows "(ud_state d' = ud_state d \<and> r \<noteq> Ok ()) \<or>
     (ud_state d' = Some (state_file euid s) \<and> validatePersisted s = Ok () \<and> is_ok (encodeState s))"
proof (cases "validatePersisted s")
  case (Inr u)
  show ?thesis
  proof (cases "encodeState s")
    case (Inr data)
    obtain r1 d1 where e: "ensurePrivateStateDir euid fails d = (r1, d1)" by fastforce
    have "ud_state d1 = ud_state d" using ensurePrivateStateDir_keeps [OF e] by simp
    with assms \<open>validatePersisted s = Ok u\<close> Inr e encodeState_Ok [OF Inr] show ?thesis
      by (auto simp: saveState_def state_file_def remove_temp_def replaceStateFile_def Let_def
          simp del: bytes_of_append split: if_splits sum.splits)
  qed (use assms Inr in \<open>auto simp: saveState_def\<close>)
qed (use assms in \<open>auto simp: saveState_def\<close>)

lemma saveState_Ok:
  "saveState euid fails part s d = (Ok (), d') \<Longrightarrow>
   ud_state d' = Some (state_file euid s) \<and> validatePersisted s = Ok () \<and> is_ok (encodeState s)"
  using saveState_cases by fastforce

lemma loadState_saved:
  assumes "ud_state d = Some (state_file euid s)" and "validatePersisted s = Ok ()" and "is_ok (encodeState s)"
    and "\<not> fails FsLstat" and "\<not> fails FsRead"
  shows "loadState euid fails d = Ok s"
proof -
  obtain data where d: "encodeState s = Ok data" using assms(3) by (auto simp: is_ok_iff)
  then have "decodeState (bytes_of (state_json s @ [CHR 0x0A])) = Ok s"
    using assms(2) encodeState_Ok [OF d] by (simp add: decodeState_Ok_iff del: bytes_of_append)
  then show ?thesis
    using assms(1,4,5) by (simp add: loadState_def state_file_def validateStateFileInfo_def
        validateEffectiveOwner_def del: bytes_of_append)
qed

lemma loadState_faults:
  "loadState euid fails d = Ok s \<Longrightarrow> loadState euid (\<lambda>_. False) d = Ok s"
  by (auto simp: loadState_def bind_res_Ok_iff split: option.splits fnode.splits if_splits)

text \<open>The sequence number the disk holds; nothing is read back from a damaged file.\<close>

definition disk_sequence :: "nat \<Rightarrow> update_disk \<Rightarrow> u64 option" where
  "disk_sequence euid d =
     (case loadState euid (\<lambda>_. False) d of Ok s \<Rightarrow> Some (us_sequence s) | Err _ \<Rightarrow> None)"

lemma disk_sequence_load:
  "loadState euid fails d = Ok s \<Longrightarrow> disk_sequence euid d = Some (us_sequence s)"
  by (drule loadState_faults) (simp add: disk_sequence_def)

lemma disk_sequence_cong: "ud_state d' = ud_state d \<Longrightarrow> disk_sequence euid d' = disk_sequence euid d"
  by (simp add: disk_sequence_def loadState_def)

lemma disk_sequence_saved:
  "saveState euid fails part s d = (r, d') \<Longrightarrow>
   disk_sequence euid d' = (if ud_state d' = ud_state d \<and> r \<noteq> Ok () then disk_sequence euid d else Some (us_sequence s))"
  using saveState_cases [of euid fails part s d r d'] disk_sequence_cong [of d' d euid]
    loadState_saved [of d' euid s "\<lambda>_. False"]
  by (auto simp: disk_sequence_def)

section \<open>Waiting for the lock\<close>

lemma flock_loop_waits:
  "(\<forall>j<n. answers (i + j) = FlockWouldBlock \<and> ctx (i + j) = None) \<Longrightarrow>
   flock_loop answers ctx i = flock_loop answers ctx (i + n)"
proof (induction n arbitrary: i)
  case (Suc n)
  have "flock_loop answers ctx i = flock_loop answers ctx (Suc i)"
    using Suc.prems by (subst flock_loop.simps) (auto dest: spec [of _ 0])
  also have "\<dots> = flock_loop answers ctx (Suc i + n)"
    using Suc.prems by (intro Suc.IH) (auto dest: spec [of _ "Suc _"])
  finally show ?case by simp
qed simp

definition still_waiting :: "(nat \<Rightarrow> flock_answer) \<Rightarrow> (nat \<Rightarrow> nat option) \<Rightarrow> nat \<Rightarrow> bool" where
  "still_waiting answers ctx n \<longleftrightarrow> answers n = FlockWouldBlock \<and> ctx n = None"

lemma flock_loop_returns:
  assumes "flock_loop answers ctx i = Some r"
  shows "\<exists>n \<ge> i. \<not> still_waiting answers ctx n"
proof (rule flock_loop.raw_induct [where P = "\<lambda>a c i r. \<exists>n \<ge> i. \<not> still_waiting a c n", OF _ assms])
  fix f :: "(nat \<Rightarrow> flock_answer) \<Rightarrow> (nat \<Rightarrow> nat option) \<Rightarrow> nat \<Rightarrow> (update_error, unit) result option"
  fix answers :: "nat \<Rightarrow> flock_answer" and ctx :: "nat \<Rightarrow> nat option" and i r
  assume rec: "\<And>answers ctx i r. f answers ctx i = Some r \<Longrightarrow> \<exists>n \<ge> i. \<not> still_waiting answers ctx n"
    and body: "(case answers i of
        FlockAcquired \<Rightarrow> Some (Ok ())
      | FlockWouldBlock \<Rightarrow>
          (case ctx i of Some e \<Rightarrow> Some (Err (ErrContext e)) | None \<Rightarrow> f answers ctx (Suc i))
      | FlockFailed \<Rightarrow> Some (Err ErrInvalidState)) = Some r"
  show "\<exists>n \<ge> i. \<not> still_waiting answers ctx n"
  proof (cases "still_waiting answers ctx i")
    case True
    with body have "f answers ctx (Suc i) = Some r" by (simp add: still_waiting_def)
    from rec [OF this] show ?thesis using Suc_leD by blast
  qed blast
qed

lemma flock_loop_result:
  assumes "\<not> still_waiting answers ctx n" and "\<forall>m<n. still_waiting answers ctx m"
  shows "flock_loop answers ctx 0 =
     Some (case answers n of
         FlockAcquired \<Rightarrow> Ok ()
       | FlockFailed \<Rightarrow> Err ErrInvalidState
       | FlockWouldBlock \<Rightarrow> Err (ErrContext (the (ctx n))))"
proof -
  have "flock_loop answers ctx 0 = flock_loop answers ctx n"
    using flock_loop_waits [of n answers 0 ctx] assms(2) by (simp add: still_waiting_def)
  then show ?thesis using assms(1)
    by (subst (asm) (2) flock_loop.simps) (auto simp: still_waiting_def split: flock_answer.splits option.splits)
qed

lemma flock_loop_None_iff: "flock_loop answers ctx 0 = None \<longleftrightarrow> (\<forall>n. still_waiting answers ctx n)"
proof
  assume none: "flock_loop answers ctx 0 = None"
  show "\<forall>n. still_waiting answers ctx n"
  proof (rule ccontr)
    assume "\<not> (\<forall>n. still_waiting answers ctx n)"
    then obtain n where "\<not> still_waiting answers ctx n" "\<forall>m<n. still_waiting answers ctx m"
      using exists_least_iff [of "\<lambda>n. \<not> still_waiting answers ctx n"] by blast
    from flock_loop_result [OF this] none show False by simp
  qed
next
  assume "\<forall>n. still_waiting answers ctx n"
  then show "flock_loop answers ctx 0 = None" using flock_loop_returns by fastforce
qed

definition lock_ready :: "nat \<Rightarrow> lock_env \<Rightarrow> update_disk \<Rightarrow> bool" where
  "lock_ready euid env d \<longleftrightarrow>
     fst (ensurePrivateStateDir euid (le_dir env) d) = Ok () \<and>
     \<not> le_open env \<and> \<not> le_chmod env \<and> le_regular env \<and> le_stable env"

lemma acquireUpdateLock_fst:
  "fst (acquireUpdateLock euid env d) =
     (if lock_ready euid env d then flock_loop (le_answers env) (le_ctx env) 0
      else Some (Err (case fst (ensurePrivateStateDir euid (le_dir env) d) of Err e \<Rightarrow> e | Ok _ \<Rightarrow> ErrInvalidState)))"
  by (auto simp: acquireUpdateLock_def lock_ready_def split: prod.splits sum.splits)

lemma acquireUpdateLock_disk:
  "ud_state (snd (acquireUpdateLock euid env d)) = ud_state d"
proof -
  obtain r d1 where e: "ensurePrivateStateDir euid (le_dir env) d = (r, d1)" by fastforce
  from ensurePrivateStateDir_keeps [OF e] e show ?thesis
    by (cases r) (simp_all add: acquireUpdateLock_def)
qed


definition sample_lock :: lock_env where
  "sample_lock = \<lparr>le_dir = \<lambda>_. False, le_open = False, le_chmod = False, le_regular = True, le_stable = True,
     le_answers = \<lambda>n. FlockWouldBlock, le_ctx = \<lambda>n. if n < 2 then None else Some 3\<rparr>"


end
