(* ===== verification/Update_Package.thy ===== *)
theory Update_Package
  imports Update_State
begin

text \<open>
  Staging and verification of an installer archive (\<open>internal/updateinfo/installer.go\<close> and
  \<open>package_verify.go\<close>): the download of the archive a manifest names, its revalidation, the
  bounded extraction into a private directory, and the checks that open the package to its
  consumer.  SHA-256 is the parameter \<open>sha256\<close>, the Authenticode policy the parameter
  \<open>authenticode\<close> (member name and content), the members of a ZIP file are what
  \<open>archive/zip\<close> reports of them; system calls may fail.
\<close>

section \<open>Staging\<close>

definition DefaultInstallerFetchTimeout :: int where "DefaultInstallerFetchTimeout = 2 * minute"
definition MaxInstallerArchiveBytes :: int where "MaxInstallerArchiveBytes = 536870912"

record staged_installer =
  si_path :: string
  si_size :: int
  si_sha :: string

record installer_client =
  ic_timeout :: int
  ic_maxBytes :: int

definition installerSizeLimit :: "int \<Rightarrow> (update_error, int) result" where
  "installerSizeLimit limit =
     (if limit < 0 then Err ErrInstallerStage
      else if limit = 0 then Ok MaxInstallerArchiveBytes
      else if MaxInstallerArchiveBytes < limit then Err ErrInstallerStage
      else Ok limit)"

text \<open>The bytes copied; \<open>fault\<close> is an error of the source after its data, \<open>wfails\<close> one of the writer.\<close>

definition copyInstaller :: "bool \<Rightarrow> byte list \<Rightarrow> nat option \<Rightarrow> int \<Rightarrow> (update_error, byte list) result" where
  "copyInstaller wfails data fault limit =
     (case (if wfails then None else read_limited (nat (limit + 1)) data fault) of
        None \<Rightarrow> Err ErrInstallerStage
      | Some written \<Rightarrow>
          if limit < int (length written) then Err ErrInstallerStage else Ok written)"

text \<open>
  \<open>sg_abs\<close> is the absolute staging directory, \<open>sg_disk\<close> and \<open>sg_dir\<close> its entry and the faults
  of preparing it, \<open>sg_temp\<close> the name of the created file, \<open>sg_left\<close> what it holds when it cannot
  be removed; the flags say that a call fails.
\<close>

record stage_env =
  sg_abs :: "string option"
  sg_euid :: nat
  sg_disk :: update_disk
  sg_dir :: faults
  sg_http :: http_client
  sg_temp :: "string option"
  sg_chmod :: bool
  sg_write :: bool
  sg_sync :: bool
  sg_close :: bool
  sg_remove :: bool
  sg_left :: "byte list"

text \<open>The file was created: what is done with it, and whether it stays.\<close>

definition stage_file ::
  "(byte list \<Rightarrow> byte list) \<Rightarrow> stage_env \<Rightarrow> manifest \<Rightarrow> http_response \<Rightarrow> int \<Rightarrow> string
     \<Rightarrow> (update_error, staged_installer) result" where
  "stage_file sha256 env m resp limit path =
     (if sg_chmod env then Err ErrInstallerStage
      else bind_res (copyInstaller (sg_write env) (hr_body resp) (hr_read resp) limit) (\<lambda>data.
        if 0 \<le> hr_length resp \<and> int (length data) \<noteq> hr_length resp then Err ErrInstallerStage
        else if data = [] then Err ErrInstallerStage
        else if hex_encode (sha256 data) \<noteq> mf_installerSHA m then Err ErrInstallerStage
        else if sg_sync env then Err ErrInstallerStage
        else if sg_close env then Err ErrInstallerStage
        else Ok \<lparr>si_path = path, si_size = int (length data), si_sha = hex_encode (sha256 data)\<rparr>))"

text \<open>The result and the file the call leaves in the staging directory.\<close>

definition Stage ::
  "(byte list \<Rightarrow> byte list) \<Rightarrow> stage_env \<Rightarrow> installer_client \<Rightarrow> manifest \<Rightarrow> string
     \<Rightarrow> (update_error, staged_installer) result \<times> byte list option" where
  "Stage sha256 env c m stagingDir =
     (case manifest_Validate m of Err e \<Rightarrow> (Err e, None) | Ok _ \<Rightarrow>
      if stagingDir = [] then (Err ErrInstallerStage, None)
      else if ic_timeout c < 0 then (Err ErrInstallerStage, None)
      else (case installerSizeLimit (ic_maxBytes c) of Err e \<Rightarrow> (Err e, None) | Ok limit \<Rightarrow>
       (case sg_abs env of None \<Rightarrow> (Err ErrInstallerStage, None) | Some _ \<Rightarrow>
        (case fst (ensurePrivateStateDir (sg_euid env) (sg_dir env) (sg_disk env)) of
           Err _ \<Rightarrow> (Err ErrInstallerStage, None)
         | Ok _ \<Rightarrow>
             (case sg_http env (if ic_timeout c = 0 then DefaultInstallerFetchTimeout else ic_timeout c)
                 (mf_installerURL m) of
                None \<Rightarrow> (Err ErrInstallerStage, None)
              | Some resp \<Rightarrow>
                  if hr_status resp \<noteq> 200 then (Err ErrInstallerStage, None)
                  else if limit < hr_length resp then (Err ErrInstallerStage, None)
                  else (case sg_temp env of
                      None \<Rightarrow> (Err ErrInstallerStage, None)
                    | Some path \<Rightarrow>
                        (case stage_file sha256 env m resp limit path of
                           Err e \<Rightarrow> (Err e, if sg_remove env then Some (sg_left env) else None)
                         | Ok si \<Rightarrow> (Ok si, Some (take (nat (limit + 1)) (hr_body resp))))))))))"

text \<open>
  The staged file as it is found later: \<open>sv_lstat\<close> says whether the entry is a regular file and
  gives its size, \<open>sv_regular\<close> and \<open>sv_same\<close> describe the opened file, \<open>sv_data\<close> and \<open>sv_fault\<close>
  what reading it yields.
\<close>

record staged_env =
  sv_abs :: "string option"
  sv_lstat :: "(bool \<times> int) option"
  sv_open :: bool
  sv_stat :: bool
  sv_regular :: bool
  sv_same :: bool
  sv_data :: "byte list"
  sv_fault :: "nat option"

definition VerifyStagedInstaller ::
  "(byte list \<Rightarrow> byte list) \<Rightarrow> staged_env \<Rightarrow> manifest \<Rightarrow> string \<Rightarrow> int
     \<Rightarrow> (update_error, staged_installer) result" where
  "VerifyStagedInstaller sha256 env m path maxBytes =
     bind_res (manifest_Validate m) (\<lambda>_.
      if path = [] then Err ErrInstallerStage
      else bind_res (installerSizeLimit maxBytes) (\<lambda>limit.
       (case sv_abs env of None \<Rightarrow> Err ErrInstallerStage | Some apath \<Rightarrow>
        (case sv_lstat env of None \<Rightarrow> Err ErrInstallerStage | Some (regular, size0) \<Rightarrow>
         if \<not> regular then Err ErrInstallerStage
         else if size0 \<le> 0 \<or> limit < size0 then Err ErrInstallerStage
         else if sv_open env then Err ErrInstallerStage
         else if sv_stat env then Err ErrInstallerStage
         else if \<not> sv_regular env \<or> \<not> sv_same env then Err ErrInstallerStage
         else bind_res (copyInstaller False (sv_data env) (sv_fault env) limit) (\<lambda>data.
           if int (length data) \<noteq> size0 then Err ErrInstallerStage
           else if hex_encode (sha256 data) \<noteq> mf_installerSHA m then Err ErrInstallerStage
           else Ok \<lparr>si_path = apath, si_size = int (length data), si_sha = hex_encode (sha256 data)\<rparr>)))))"

section \<open>Extraction\<close>

definition MaxInstallerExpandedBytes :: int where "MaxInstallerExpandedBytes = 1073741824"

definition installerBinaries :: "string list" where
  "installerBinaries = [''wd.exe'', ''wd-agent.exe'', ''wd-routerctl.exe'', ''wd-core.exe'', ''wd-ui.exe'']"

definition installerScripts :: "string list" where
  "installerScripts = [''Install-WeDecent.ps1'', ''Uninstall-WeDecent.ps1'', ''Test-WeDecentInstall.ps1'']"

definition installerFiles :: "string list" where
  "installerFiles =
     [''wd.exe'', ''wd-agent.exe'', ''wd-routerctl.exe'', ''wd-core.exe'', ''wd-ui.exe'',
      ''VERSION.txt'', ''SHA256SUMS.txt'',
      ''Install-WeDecent.ps1'', ''Uninstall-WeDecent.ps1'', ''Test-WeDecentInstall.ps1'',
      ''README.md'', ''PACKAGE_SHA256SUMS.txt'']"

definition installerPayloadFiles :: "string list" where
  "installerPayloadFiles =
     [''wd.exe'', ''wd-agent.exe'', ''wd-routerctl.exe'', ''wd-core.exe'', ''wd-ui.exe'',
      ''VERSION.txt'', ''SHA256SUMS.txt'',
      ''Install-WeDecent.ps1'', ''Uninstall-WeDecent.ps1'', ''Test-WeDecentInstall.ps1'',
      ''README.md'']"

text \<open>\<open>filepath.Base\<close> where the separator is a slash.\<close>

definition path_base :: "string \<Rightarrow> string" where
  "path_base p =
     (if p = [] then ''.''
      else (let q = rev (dropWhile (\<lambda>c. c = CHR ''/'') (rev p)) in
        if q = [] then ''/'' else last (split_on CHR ''/'' q)))"

text \<open>
  A member: the name, whether its header marks a directory, the declared size, what reading it
  yields, and which of opening, creating, writing, syncing and closing fails.
\<close>

record zip_member =
  zm_name :: string
  zm_isDir :: bool
  zm_size :: u64
  zm_data :: "byte list"
  zm_fault :: "nat option"
  zm_open :: bool
  zm_create :: bool
  zm_write :: bool
  zm_sync :: bool
  zm_close :: bool

type_synonym package_dir = "string \<rightharpoonup> byte list"

definition extractInstallerMember ::
  "package_dir \<Rightarrow> zip_member \<Rightarrow> (update_error, package_dir) result" where
  "extractInstallerMember dst m =
     (if zm_open m then Err ErrInstallerPackage
      else if zm_create m \<or> dst (zm_name m) \<noteq> None then Err ErrInstallerPackage
      else (case (if zm_write m then None else read_limited (unat (zm_size m) + 1) (zm_data m) (zm_fault m)) of
          None \<Rightarrow> Err ErrInstallerPackage
        | Some written \<Rightarrow>
            if length written \<noteq> unat (zm_size m) then Err ErrInstallerPackage
            else if zm_sync m then Err ErrInstallerPackage
            else if zm_close m then Err ErrInstallerPackage
            else Ok (dst(zm_name m \<mapsto> written))))"

text \<open>Where a context is asked whether it is done.\<close>

datatype ctx_point =
    CpStart | CpVerified | CpMember nat | CpFile string | CpPackage | CpConsumer

type_synonym context_errors = "ctx_point \<Rightarrow> nat option"

fun extract_members ::
  "context_errors \<Rightarrow> nat \<Rightarrow> int \<Rightarrow> string list \<Rightarrow> package_dir \<Rightarrow> zip_member list
     \<Rightarrow> (update_error, string list \<times> package_dir) result" where
  "extract_members ctx i expanded seen dst [] = Ok (seen, dst)"
| "extract_members ctx i expanded seen dst (m # ms) =
     (case ctx (CpMember i) of Some e \<Rightarrow> Err (ErrContext e) | None \<Rightarrow>
      if zm_name m = [] \<or> path_base (zm_name m) \<noteq> zm_name m \<or>
         contains_any (zm_name m) [CHR ''/'', CHR 0x5C] \<or> zm_isDir m
      then Err ErrInstallerPackage
      else if zm_name m \<notin> set installerFiles then Err ErrInstallerPackage
      else if zm_name m \<in> set seen then Err ErrInstallerPackage
      else if zm_size m = 0 \<or> word_of_int MaxInstallerExpandedBytes < zm_size m then Err ErrInstallerPackage
      else if word_of_int (MaxInstallerExpandedBytes - expanded) < zm_size m then Err ErrInstallerPackage
      else bind_res (extractInstallerMember dst m) (\<lambda>dst'.
        extract_members ctx (Suc i) (expanded + int (unat (zm_size m))) (zm_name m # seen) dst' ms))"

definition extractInstallerPackage ::
  "context_errors \<Rightarrow> zip_member list option \<Rightarrow> (update_error, package_dir) result" where
  "extractInstallerPackage ctx archive =
     (case archive of None \<Rightarrow> Err ErrInstallerPackage | Some members \<Rightarrow>
      if length members \<noteq> length installerFiles then Err ErrInstallerPackage
      else bind_res (extract_members ctx 0 0 [] Map.empty members) (\<lambda>(seen, dst).
        if length seen \<noteq> length installerFiles then Err ErrInstallerPackage else Ok dst))"

section \<open>Checks on the extracted files\<close>

text \<open>
  \<open>bufio.Scanner\<close> with its default buffer and \<open>ScanLines\<close>: the lines without their end, a final
  carriage return dropped, and an error once a line has 64 KiB without an end.  A final empty
  line is not reported.
\<close>

definition drop_cr :: "string \<Rightarrow> string" where
  "drop_cr s = (if s \<noteq> [] \<and> last s = CHR 0x0D then butlast s else s)"

fun scan_lines :: "string list \<Rightarrow> string list \<times> bool" where
  "scan_lines [] = ([], True)"
| "scan_lines (l # ls) =
     (if 65536 \<le> length l then ([], False)
      else if ls = [] \<and> l = [] then ([], True)
      else (let (rest, ok) = scan_lines ls in (drop_cr l # rest, ok)))"

fun count_version :: "string \<Rightarrow> string list \<Rightarrow> nat \<Rightarrow> nat option" where
  "count_version want [] n = Some n"
| "count_version want (l # ls) n =
     (if has_prefix l ''version='' then
        (if l \<noteq> ''version='' @ want then None else count_version want ls (Suc n))
      else count_version want ls n)"

definition trim_prefix :: "string \<Rightarrow> string \<Rightarrow> string" where
  "trim_prefix s p = (if has_prefix s p then drop (length p) s else s)"

definition trim_suffix :: "string \<Rightarrow> string \<Rightarrow> string" where
  "trim_suffix s p = (if has_suffix s p then take (length s - length p) s else s)"

text \<open>\<open>unreadable\<close> names the files that cannot be inspected, opened or read.\<close>

definition read_member :: "(string \<Rightarrow> bool) \<Rightarrow> package_dir \<Rightarrow> string \<Rightarrow> byte list option" where
  "read_member unreadable dir name = (if unreadable name then None else dir name)"

definition verifyInstallerVersion ::
  "(string \<Rightarrow> bool) \<Rightarrow> package_dir \<Rightarrow> string \<Rightarrow> (update_error, unit) result" where
  "verifyInstallerVersion unreadable dir version =
     (case read_member unreadable dir ''VERSION.txt'' of
        None \<Rightarrow> Err ErrInstallerPackage
      | Some data \<Rightarrow>
          (let (ls, ok) = scan_lines (split_on CHR 0x0A (string_of data)) in
           case count_version (trim_prefix version ''v'') ls 0 of
             None \<Rightarrow> Err ErrInstallerPackage
           | Some n \<Rightarrow> if \<not> ok \<or> n \<noteq> 1 then Err ErrInstallerPackage else Ok ()))"

definition hashRegularFile ::
  "(byte list \<Rightarrow> byte list) \<Rightarrow> (string \<Rightarrow> bool) \<Rightarrow> package_dir \<Rightarrow> string \<Rightarrow> (update_error, string) result" where
  "hashRegularFile sha256 unreadable dir name =
     (case read_member unreadable dir name of
        None \<Rightarrow> Err ErrInstallerPackage
      | Some data \<Rightarrow> Ok (hex_encode (sha256 data)))"

fun check_sums ::
  "(byte list \<Rightarrow> byte list) \<Rightarrow> (string \<Rightarrow> bool) \<Rightarrow> package_dir \<Rightarrow> string list \<Rightarrow> string list \<Rightarrow> string list
     \<Rightarrow> (update_error, string list) result" where
  "check_sums sha256 unreadable dir expected seen [] = Ok seen"
| "check_sums sha256 unreadable dir expected seen (line # ls) =
     (if length line < 67 \<or> take 2 (drop 64 line) \<noteq> ''  '' then Err ErrInstallerPackage
      else (let digestText = take 64 line; name = drop 66 line in
        if map ascii_lower digestText \<noteq> digestText \<or> name = [] \<or> path_base name \<noteq> name
        then Err ErrInstallerPackage
        else if hex_decode digestText = None \<or> length (the (hex_decode digestText)) \<noteq> 32
        then Err ErrInstallerPackage
        else if name \<notin> set expected then Err ErrInstallerPackage
        else if name \<in> set seen then Err ErrInstallerPackage
        else bind_res (hashRegularFile sha256 unreadable dir name) (\<lambda>actual.
          if actual \<noteq> digestText then Err ErrInstallerPackage
          else check_sums sha256 unreadable dir expected (name # seen) ls)))"

definition verifyChecksumManifest ::
  "(byte list \<Rightarrow> byte list) \<Rightarrow> (string \<Rightarrow> bool) \<Rightarrow> package_dir \<Rightarrow> string \<Rightarrow> string list
     \<Rightarrow> (update_error, unit) result" where
  "verifyChecksumManifest sha256 unreadable dir file_name expectedNames =
     (case read_member unreadable dir file_name of
        None \<Rightarrow> Err ErrInstallerPackage
      | Some data \<Rightarrow>
          (let ls = split_on CHR 0x0A (trim_suffix (string_of data) [CHR 0x0A]) in
           if length ls \<noteq> length expectedNames then Err ErrInstallerPackage
           else bind_res (check_sums sha256 unreadable dir expectedNames [] ls) (\<lambda>seen.
             if length seen \<noteq> length expectedNames then Err ErrInstallerPackage else Ok ())))"

section \<open>The package boundary\<close>

record verified_package =
  vp_files :: package_dir
  vp_version :: string

type_synonym authenticode_verifier = "string \<Rightarrow> byte list \<Rightarrow> bool"

record package_env =
  pe_ctx :: context_errors
  pe_staged :: staged_env
  pe_abs :: bool
  pe_euid :: nat
  pe_root :: update_disk
  pe_dir :: faults
  pe_mkdirTemp :: bool
  pe_chmod :: bool
  pe_zip :: "zip_member list option"
  pe_unreadable :: "string \<Rightarrow> bool"

text \<open>The verifier reads the member's path, so it fails on a file that cannot be read.\<close>

fun check_authenticode ::
  "context_errors \<Rightarrow> authenticode_verifier \<Rightarrow> (string \<Rightarrow> bool) \<Rightarrow> package_dir \<Rightarrow> string list
     \<Rightarrow> (update_error, unit) result" where
  "check_authenticode ctx authenticode unreadable dir [] = Ok ()"
| "check_authenticode ctx authenticode unreadable dir (name # names) =
     (case ctx (CpFile name) of Some e \<Rightarrow> Err (ErrContext e) | None \<Rightarrow>
      (case read_member unreadable dir name of
         None \<Rightarrow> Err ErrInstallerPackage
       | Some data \<Rightarrow>
           if \<not> authenticode name data then Err ErrInstallerPackage
           else check_authenticode ctx authenticode unreadable dir names))"

text \<open>Everything before the consumer is called.  The directory is removed again in every case.\<close>

definition open_package ::
  "(byte list \<Rightarrow> byte list) \<Rightarrow> package_env \<Rightarrow> manifest \<Rightarrow> string \<Rightarrow> int \<Rightarrow> authenticode_verifier option
     \<Rightarrow> bool \<Rightarrow> (update_error, verified_package) result" where
  "open_package sha256 env m stagedPath maxArchiveBytes verifyAuthenticode has_consumer =
     bind_res (manifest_Validate m) (\<lambda>_.
      (case verifyAuthenticode of None \<Rightarrow> Err ErrInstallerPackage | Some authenticode \<Rightarrow>
       if \<not> has_consumer then Err ErrInstallerPackage
       else bind_res (VerifyStagedInstaller sha256 (pe_staged env) m stagedPath maxArchiveBytes) (\<lambda>_.
        (case pe_ctx env CpVerified of Some e \<Rightarrow> Err (ErrContext e) | None \<Rightarrow>
         if pe_abs env then Err ErrInstallerPackage
         else if \<not> is_ok (fst (ensurePrivateStateDir (pe_euid env) (pe_dir env) (pe_root env)))
         then Err ErrInstallerPackage
         else if pe_mkdirTemp env then Err ErrInstallerPackage
         else if pe_chmod env then Err ErrInstallerPackage
         else bind_res (extractInstallerPackage (pe_ctx env) (pe_zip env)) (\<lambda>dir.
          bind_res (verifyInstallerVersion (pe_unreadable env) dir (mf_version m)) (\<lambda>_.
           bind_res (verifyChecksumManifest sha256 (pe_unreadable env) dir ''SHA256SUMS.txt'' installerBinaries) (\<lambda>_.
            bind_res (verifyChecksumManifest sha256 (pe_unreadable env) dir ''PACKAGE_SHA256SUMS.txt''
                installerPayloadFiles) (\<lambda>_.
             bind_res (check_authenticode (pe_ctx env) authenticode (pe_unreadable env) dir
                 (installerBinaries @ installerScripts)) (\<lambda>_.
              (case pe_ctx env CpPackage of Some e \<Rightarrow> Err (ErrContext e) | None \<Rightarrow>
               Ok \<lparr>vp_files = dir, vp_version = mf_version m\<rparr>))))))))))"

text \<open>
  The consumer's effects are the packages it has applied; without a call there are none.
\<close>

definition WithVerifiedInstallerPackage ::
  "(byte list \<Rightarrow> byte list) \<Rightarrow> package_env \<Rightarrow> manifest \<Rightarrow> string \<Rightarrow> int \<Rightarrow> authenticode_verifier option
     \<Rightarrow> (verified_package \<Rightarrow> (update_error, unit) result \<times> verified_package list) option
     \<Rightarrow> (update_error, unit) result \<times> verified_package list" where
  "WithVerifiedInstallerPackage sha256 env m stagedPath maxArchiveBytes verifyAuthenticode consumer =
     (case open_package sha256 env m stagedPath maxArchiveBytes verifyAuthenticode (consumer \<noteq> None) of
        Err e \<Rightarrow> (Err e, [])
      | Ok pkg \<Rightarrow> the consumer pkg)"

section \<open>What extraction leaves\<close>

definition dir_size :: "package_dir \<Rightarrow> int" where
  "dir_size dir = (\<Sum>n \<in> dom dir. int (length (the (dir n))))"

lemma dir_size_upd:
  assumes "finite (dom dir)" and "dir n = None"
  shows "dir_size (dir(n \<mapsto> data)) = dir_size dir + int (length data)"
proof -
  have "n \<notin> dom dir" using assms(2) by auto
  then have "(\<Sum>k \<in> dom dir. int (length (the ((dir(n \<mapsto> data)) k)))) = dir_size dir"
    unfolding dir_size_def by (intro sum.cong) auto
  with \<open>n \<notin> dom dir\<close> assms(1) show ?thesis by (simp add: dir_size_def)
qed

lemma extractInstallerMember_Ok:
  "extractInstallerMember dst m = Ok dst' \<Longrightarrow>
   \<exists>data. dst (zm_name m) = None \<and> dst' = dst(zm_name m \<mapsto> data) \<and> length data = unat (zm_size m)"
  by (auto simp: extractInstallerMember_def split: if_splits option.splits)

lemma expanded_bound:
  fixes w :: u64
  assumes "\<not> word_of_int (MaxInstallerExpandedBytes - expanded) < w" and "0 \<le> expanded"
    and "expanded \<le> MaxInstallerExpandedBytes"
  shows "expanded + int (unat w) \<le> MaxInstallerExpandedBytes"
proof -
  have "uint (word_of_int (MaxInstallerExpandedBytes - expanded) :: u64) = MaxInstallerExpandedBytes - expanded"
    using assms(2,3) by (subst uint_word_of_int) (simp add: MaxInstallerExpandedBytes_def)
  then have "uint w \<le> MaxInstallerExpandedBytes - expanded" using assms(1) by (simp add: word_less_alt)
  then show ?thesis by simp
qed

lemma extract_members_Ok:
  assumes "extract_members ctx i expanded seen dst ms = Ok (seen', dst')"
    and "dom dst = set seen" and "distinct seen" and "set seen \<subseteq> set installerFiles"
    and "dir_size dst = expanded" and "expanded \<le> MaxInstallerExpandedBytes"
  shows "dom dst' = set seen' \<and> distinct seen' \<and> set seen' \<subseteq> set installerFiles \<and>
     length seen' = length ms + length seen \<and> dir_size dst' \<le> MaxInstallerExpandedBytes"
  using assms
proof (induction ctx i expanded seen dst ms arbitrary: seen' dst' rule: extract_members.induct)
  case (2 ctx i expanded seen dst m ms)
  from "2.prems"(1) obtain dst1 where step:
      "extractInstallerMember dst m = Ok dst1"
      "extract_members ctx (Suc i) (expanded + int (unat (zm_size m))) (zm_name m # seen) dst1 ms = Ok (seen', dst')"
      "ctx (CpMember i) = None" "zm_name m \<in> set installerFiles" "zm_name m \<notin> set seen"
      "\<not> word_of_int (MaxInstallerExpandedBytes - expanded) < zm_size m"
    by (auto simp: bind_res_Ok_iff split: option.splits if_splits)
  from extractInstallerMember_Ok [OF step(1)] obtain data where
      d: "dst (zm_name m) = None" "dst1 = dst(zm_name m \<mapsto> data)" "length data = unat (zm_size m)" by blast
  have "finite (dom dst)" by (simp add: "2.prems"(2))
  then have size: "dir_size dst1 = expanded + int (unat (zm_size m))"
    using dir_size_upd d "2.prems"(5) by simp
  have "0 \<le> expanded" using "2.prems"(5) by (auto simp: dir_size_def intro: sum_nonneg)
  then have "expanded + int (unat (zm_size m)) \<le> MaxInstallerExpandedBytes"
    using expanded_bound step(6) "2.prems"(6) by blast
  moreover have "dom dst1 = set (zm_name m # seen)" using d(2) "2.prems"(2) by simp
  ultimately have "dom dst' = set seen' \<and> distinct seen' \<and> set seen' \<subseteq> set installerFiles \<and>
     length seen' = length ms + length (zm_name m # seen) \<and> dir_size dst' \<le> MaxInstallerExpandedBytes"
    using "2.prems" step size
    by (intro "2.IH" [OF step(3) _ _ _ _ _ step(2)]) (auto split: if_splits)
  then show ?case by simp
qed simp

lemma covers_all:
  assumes "distinct xs" and "set xs \<subseteq> set ys" and "length xs = length ys"
  shows "set xs = set ys"
proof -
  have "card (set ys) \<le> card (set xs)"
    using assms(1,3) card_length [of ys] by (simp add: distinct_card)
  then show ?thesis using assms(2) by (intro card_seteq) auto
qed

lemma extractInstallerPackage_Ok:
  assumes "extractInstallerPackage ctx archive = Ok dir"
  shows "dom dir = set installerFiles \<and> dir_size dir \<le> MaxInstallerExpandedBytes"
proof -
  obtain members seen where
      e: "extract_members ctx 0 0 [] Map.empty members = Ok (seen, dir)" "length seen = length installerFiles"
    using assms by (auto simp: extractInstallerPackage_def bind_res_Ok_iff split: option.splits if_splits)
  have "dom dir = set seen \<and> distinct seen \<and> set seen \<subseteq> set installerFiles \<and>
     length seen = length members + length ([] :: string list) \<and> dir_size dir \<le> MaxInstallerExpandedBytes"
    by (rule extract_members_Ok [OF e(1)]) (simp_all add: dir_size_def MaxInstallerExpandedBytes_def)
  with covers_all [of seen installerFiles] e(2) show ?thesis by auto
qed

section \<open>What the sums and the version line say\<close>

definition sum_line :: "(byte list \<Rightarrow> byte list) \<Rightarrow> package_dir \<Rightarrow> string \<Rightarrow> string" where
  "sum_line sha256 dir name = hex_encode (sha256 (the (dir name))) @ ''  '' @ name"

lemma line_parts:
  assumes "\<not> length line < 67" and "take 2 (drop 64 line) = t"
  shows "line = take 64 line @ t @ drop 66 line"
proof -
  have "drop 64 line = take 2 (drop 64 line) @ drop 66 line"
    using append_take_drop_id [of 2 "drop 64 line"] by simp
  then show ?thesis using assms(2) append_take_drop_id [of 64 line] by metis
qed

lemma check_sums_Ok:
  assumes "check_sums sha256 unreadable dir expected seen ls = Ok seen'"
    and "distinct seen" and "set seen \<subseteq> set expected"
  shows "distinct seen' \<and> set seen' \<subseteq> set expected \<and> set seen \<subseteq> set seen' \<and>
     (\<forall>n \<in> set seen' - set seen. n \<in> dom dir \<and> sum_line sha256 dir n \<in> set ls)"
  using assms
proof (induction ls arbitrary: seen seen')
  case (Cons line ls)
  define name where "name = drop 66 line"
  from Cons.prems(1) obtain actual where l:
      "\<not> (length line < 67 \<or> take 2 (drop 64 line) \<noteq> ''  '')"
      "\<not> (map ascii_lower (take 64 line) \<noteq> take 64 line \<or> name = [] \<or> path_base name \<noteq> name)"
      "\<not> (hex_decode (take 64 line) = None \<or> length (the (hex_decode (take 64 line))) \<noteq> 32)"
      "\<not> name \<notin> set expected" "\<not> name \<in> set seen"
      "hashRegularFile sha256 unreadable dir name = Ok actual" "\<not> actual \<noteq> take 64 line"
      "check_sums sha256 unreadable dir expected (name # seen) ls = Ok seen'"
    by (auto simp: bind_res_Ok_iff Let_def name_def split: if_splits)
  from l(6) obtain data where data: "dir name = Some data" "actual = hex_encode (sha256 data)"
    by (auto simp: hashRegularFile_def read_member_def split: option.splits if_splits)
  have "line = sum_line sha256 dir name"
    using line_parts [of line "''  ''"] l(1,7) data by (auto simp: sum_line_def name_def)
  moreover have "distinct seen' \<and> set seen' \<subseteq> set expected \<and> set (name # seen) \<subseteq> set seen' \<and>
     (\<forall>n \<in> set seen' - set (name # seen). n \<in> dom dir \<and> sum_line sha256 dir n \<in> set ls)"
    using l Cons.prems(2,3) by (intro Cons.IH [OF l(8)]) auto
  ultimately show ?case using data(1) by auto
qed simp

definition sum_lines :: "package_dir \<Rightarrow> string \<Rightarrow> string list" where
  "sum_lines dir f = split_on CHR 0x0A (trim_suffix (string_of (the (dir f))) [CHR 0x0A])"

lemma verifyChecksumManifest_Ok:
  assumes "verifyChecksumManifest sha256 unreadable dir f expected = Ok ()" and "n \<in> set expected"
  shows "n \<in> dom dir \<and> sum_line sha256 dir n \<in> set (sum_lines dir f)"
proof -
  obtain seen where s: "check_sums sha256 unreadable dir expected [] (sum_lines dir f) = Ok seen"
      "length seen = length expected"
    using assms(1) by (auto simp: verifyChecksumManifest_def sum_lines_def read_member_def Let_def bind_res_Ok_iff
        split: option.splits if_splits)
  from check_sums_Ok [OF s(1)] have c: "distinct seen" "set seen \<subseteq> set expected"
    "\<forall>n \<in> set seen. n \<in> dom dir \<and> sum_line sha256 dir n \<in> set (sum_lines dir f)" by auto
  with covers_all [OF c(1,2) s(2)] assms(2) show ?thesis by auto
qed

lemma count_version_Some:
  "count_version want ls n = Some k \<Longrightarrow>
   k = n + length (filter (\<lambda>l. has_prefix l ''version='') ls) \<and>
   (\<forall>l \<in> set ls. has_prefix l ''version='' \<longrightarrow> l = ''version='' @ want)"
  by (induction want ls n rule: count_version.induct) (auto split: if_splits)

definition version_lines :: "package_dir \<Rightarrow> string list" where
  "version_lines dir =
     filter (\<lambda>l. has_prefix l ''version='')
       (fst (scan_lines (split_on CHR 0x0A (string_of (the (dir ''VERSION.txt''))))))"

lemma verifyInstallerVersion_Ok:
  assumes "verifyInstallerVersion unreadable dir version = Ok ()"
  shows "version_lines dir = [''version='' @ trim_prefix version ''v'']"
proof -
  obtain data where data: "dir ''VERSION.txt'' = Some data"
      "count_version (trim_prefix version ''v'') (fst (scan_lines (split_on CHR 0x0A (string_of data)))) 0 = Some 1"
    using assms by (auto simp: verifyInstallerVersion_def read_member_def split: option.splits if_splits prod.splits)
  from count_version_Some [OF data(2)] have "length (version_lines dir) = 1"
    "\<forall>l \<in> set (version_lines dir). l = ''version='' @ trim_prefix version ''v''"
    by (auto simp: version_lines_def data(1))
  then show ?thesis by (auto simp: length_Suc_conv)
qed

lemma check_authenticode_Ok:
  "check_authenticode ctx authenticode unreadable dir names = Ok () \<Longrightarrow> n \<in> set names \<Longrightarrow>
   authenticode n (the (dir n))"
  by (induction ctx authenticode unreadable dir names rule: check_authenticode.induct)
     (auto simp: read_member_def split: option.splits if_splits)

lemma VerifyStagedInstaller_Ok:
  assumes "VerifyStagedInstaller sha256 env m path maxBytes = Ok si"
  shows "hex_encode (sha256 (sv_data env)) = mf_installerSHA m \<and> 0 < length (sv_data env) \<and>
     int (length (sv_data env)) \<le> MaxInstallerArchiveBytes \<and> si_size si = int (length (sv_data env))"
proof -
  obtain apath where a: "sv_abs env = Some apath"
    using assms by (cases "sv_abs env") (auto simp: VerifyStagedInstaller_def bind_res_Ok_iff split: if_splits)
  obtain regular size0 where s: "sv_lstat env = Some (regular, size0)"
    using assms a
    by (cases "sv_lstat env") (auto simp: VerifyStagedInstaller_def bind_res_Ok_iff split: if_splits)
  obtain limit data where
      l: "installerSizeLimit maxBytes = Ok limit" "copyInstaller False (sv_data env) (sv_fault env) limit = Ok data"
      "int (length data) = size0" "0 < size0" "hex_encode (sha256 data) = mf_installerSHA m"
      "si_size si = int (length data)"
    using assms by (auto simp: VerifyStagedInstaller_def bind_res_Ok_iff a s split: if_splits)
  have "0 \<le> limit" "limit \<le> MaxInstallerArchiveBytes"
    using l(1) by (auto simp: installerSizeLimit_def MaxInstallerArchiveBytes_def split: if_splits)
  moreover have "data = sv_data env" "int (length data) \<le> limit"
    using l(2) \<open>0 \<le> limit\<close>
    by (auto simp: copyInstaller_def read_limited_def min_def split: if_splits option.splits)
  ultimately show ?thesis using l by auto
qed

text \<open>What the consumer may rely on in a package it is given.\<close>

definition sound_package ::
  "(byte list \<Rightarrow> byte list) \<Rightarrow> authenticode_verifier \<Rightarrow> manifest \<Rightarrow> verified_package \<Rightarrow> bool" where
  "sound_package sha256 authenticode m pkg \<longleftrightarrow>
     (let dir = vp_files pkg in
        dom dir = set installerFiles \<and> dir_size dir \<le> MaxInstallerExpandedBytes \<and>
        version_lines dir = [''version='' @ trim_prefix (mf_version m) ''v''] \<and>
        list_all (\<lambda>n. sum_line sha256 dir n \<in> set (sum_lines dir ''SHA256SUMS.txt'')) installerBinaries \<and>
        list_all (\<lambda>n. sum_line sha256 dir n \<in> set (sum_lines dir ''PACKAGE_SHA256SUMS.txt'')) installerPayloadFiles \<and>
        list_all (\<lambda>n. authenticode n (the (dir n))) (installerBinaries @ installerScripts))"

lemma open_package_Ok:
  assumes "open_package sha256 env m stagedPath maxArchiveBytes (Some authenticode) c = Ok pkg"
  shows "sound_package sha256 authenticode m pkg \<and> vp_version pkg = mf_version m \<and>
     manifest_Validate m = Ok () \<and> hex_encode (sha256 (sv_data (pe_staged env))) = mf_installerSHA m"
proof -
  obtain si dir where
      v: "manifest_Validate m = Ok ()"
         "VerifyStagedInstaller sha256 (pe_staged env) m stagedPath maxArchiveBytes = Ok si"
         "extractInstallerPackage (pe_ctx env) (pe_zip env) = Ok dir"
         "verifyInstallerVersion (pe_unreadable env) dir (mf_version m) = Ok ()"
         "verifyChecksumManifest sha256 (pe_unreadable env) dir ''SHA256SUMS.txt'' installerBinaries = Ok ()"
         "verifyChecksumManifest sha256 (pe_unreadable env) dir ''PACKAGE_SHA256SUMS.txt'' installerPayloadFiles = Ok ()"
         "check_authenticode (pe_ctx env) authenticode (pe_unreadable env) dir (installerBinaries @ installerScripts) = Ok ()"
         "pkg = \<lparr>vp_files = dir, vp_version = mf_version m\<rparr>"
    using assms by (auto simp: open_package_def bind_res_Ok_iff simp del: is_ok_unit_iff split: if_splits option.splits)
  then show ?thesis
    using extractInstallerPackage_Ok [OF v(3)] verifyInstallerVersion_Ok [OF v(4)] VerifyStagedInstaller_Ok [OF v(2)]
    by (auto simp: sound_package_def list_all_iff dest: verifyChecksumManifest_Ok check_authenticode_Ok)
qed

lemma open_package_needs_verifier:
  "open_package sha256 env m stagedPath maxArchiveBytes verifyAuthenticode c = Ok pkg \<Longrightarrow>
   \<exists>authenticode. verifyAuthenticode = Some authenticode"
  by (auto simp: open_package_def bind_res_Ok_iff split: option.splits)

text \<open>A download that is kept is the archive the manifest names; a failed one leaves no file.\<close>

lemma Stage_Ok:
  assumes "Stage sha256 env c m stagingDir = (Ok si, left)"
  shows "\<exists>data. left = Some data \<and> hex_encode (sha256 data) = mf_installerSHA m \<and>
     si_size si = int (length data) \<and> si_sha si = mf_installerSHA m \<and>
     0 < length data \<and> int (length data) \<le> MaxInstallerArchiveBytes"
proof -
  obtain limit resp path where l: "installerSizeLimit (ic_maxBytes c) = Ok limit"
      "stage_file sha256 env m resp limit path = Ok si" "left = Some (take (nat (limit + 1)) (hr_body resp))"
    using assms by (auto simp: Stage_def split: sum.splits if_splits option.splits)
  have "limit \<le> MaxInstallerArchiveBytes"
    using l(1) by (auto simp: installerSizeLimit_def MaxInstallerArchiveBytes_def split: if_splits)
  moreover obtain data where data: "copyInstaller (sg_write env) (hr_body resp) (hr_read resp) limit = Ok data"
      "data \<noteq> []" "hex_encode (sha256 data) = mf_installerSHA m"
      "si = \<lparr>si_path = path, si_size = int (length data), si_sha = hex_encode (sha256 data)\<rparr>"
    using l(2) by (auto simp: stage_file_def bind_res_Ok_iff split: if_splits)
  moreover have "data = take (nat (limit + 1)) (hr_body resp)" "int (length data) \<le> limit"
    using data(1) by (auto simp: copyInstaller_def read_limited_def split: if_splits option.splits)
  ultimately show ?thesis using l(3) by auto
qed

lemma Stage_Err:
  "Stage sha256 env c m stagingDir = (Err e, left) \<Longrightarrow> \<not> sg_remove env \<Longrightarrow> left = None"
  by (auto simp: Stage_def split: sum.splits if_splits option.splits)


text \<open>A package with one byte of content per plain file and one sum for all of them.\<close>

definition sample_sha256 :: "byte list \<Rightarrow> byte list" where
  "sample_sha256 data = replicate 32 0x77"

definition sample_sums :: "string list \<Rightarrow> string" where
  "sample_sums names = concat (map (\<lambda>n. replicate 64 CHR ''7'' @ ''  '' @ n @ [CHR 0x0A]) names)"

definition sample_content :: "string \<Rightarrow> string" where
  "sample_content n =
     (if n = ''VERSION.txt'' then ''name=wd'' @ [CHR 0x0D, CHR 0x0A] @ ''version=1.10.0''
      else if n = ''SHA256SUMS.txt'' then sample_sums installerBinaries
      else if n = ''PACKAGE_SHA256SUMS.txt'' then sample_sums installerPayloadFiles
      else ''x'')"

definition sample_member :: "string \<Rightarrow> zip_member" where
  "sample_member n =
     \<lparr>zm_name = n, zm_isDir = False, zm_size = of_nat (length (sample_content n)),
      zm_data = bytes_of (sample_content n), zm_fault = None, zm_open = False, zm_create = False,
      zm_write = False, zm_sync = False, zm_close = False\<rparr>"

definition sample_staged :: staged_env where
  "sample_staged = \<lparr>sv_abs = Some ''/s/a.zip'', sv_lstat = Some (True, 3), sv_open = False, sv_stat = False,
     sv_regular = True, sv_same = True, sv_data = [80, 75, 3], sv_fault = None\<rparr>"

definition sample_package_env :: package_env where
  "sample_package_env = \<lparr>pe_ctx = \<lambda>_. None, pe_staged = sample_staged, pe_abs = False, pe_euid = 7,
     pe_root = \<lparr>ud_dir = None, ud_state = None, ud_temp = None\<rparr>, pe_dir = \<lambda>_. False,
     pe_mkdirTemp = False, pe_chmod = False, pe_zip = Some (map sample_member installerFiles),
     pe_unreadable = \<lambda>_. False\<rparr>"

definition sample_line :: "string \<Rightarrow> string" where
  "sample_line n = replicate 64 CHR ''7'' @ ''  '' @ n"

definition sample_dir :: package_dir where
  "sample_dir n = (if n \<in> set installerFiles then Some (bytes_of (sample_content n)) else None)"

lemma path_base_plain: "n \<noteq> [] \<Longrightarrow> CHR ''/'' \<notin> set n \<Longrightarrow> path_base n = n"
proof -
  assume n: "n \<noteq> []" "CHR ''/'' \<notin> set n"
  then have "last n \<noteq> CHR ''/''" using last_in_set by metis
  then have "dropWhile (\<lambda>c. c = CHR ''/'') (rev n) = rev n"
    by (simp add: dropWhile_eq_self_iff hd_rev)
  with n show ?thesis by (simp add: path_base_def split_on_single)
qed

lemma installerFiles_plain:
  assumes "n \<in> set installerFiles"
  shows "n \<noteq> [] \<and> path_base n = n \<and> \<not> contains_any n [CHR ''/'', CHR 0x5C] \<and> CHR 0x0A \<notin> set n"
proof -
  have "list_all (\<lambda>n. n \<noteq> [] \<and> \<not> contains_any n [CHR ''/'', CHR 0x5C] \<and> CHR 0x0A \<notin> set n) installerFiles"
    by code_simp
  then have "n \<noteq> []" "\<not> contains_any n [CHR ''/'', CHR 0x5C]" "CHR 0x0A \<notin> set n"
    using assms by (auto simp: list_all_iff)
  then show ?thesis using path_base_plain [of n] by (auto simp: contains_any_def list_ex_iff)
qed

lemma sample_content_size: "0 < length (sample_content n) \<and> length (sample_content n) \<le> 1000"
proof -
  have "length (sample_sums installerBinaries) \<in> {1..1000}" "length (sample_sums installerPayloadFiles) \<in> {1..1000}"
    by (simp_all add: sample_sums_def installerBinaries_def installerPayloadFiles_def)
  then show ?thesis by (auto simp: sample_content_def)
qed

lemma extract_sample:
  "dst n = None \<Longrightarrow> extractInstallerMember dst (sample_member n) = Ok (dst(n \<mapsto> bytes_of (sample_content n)))"
  using sample_content_size [of n]
  by (simp add: extractInstallerMember_def sample_member_def read_limited_def unat_of_nat)

lemma extract_samples:
  assumes "distinct ns" and "set ns \<subseteq> set installerFiles" and "\<forall>n \<in> set ns. n \<notin> set seen \<and> dst n = None"
    and "0 \<le> expanded" and "expanded + 1000 * int (length ns) \<le> MaxInstallerExpandedBytes"
  shows "extract_members (\<lambda>_. None) i expanded seen dst (map sample_member ns) =
     Ok (rev ns @ seen, \<lambda>n. if n \<in> set ns then Some (bytes_of (sample_content n)) else dst n)"
  using assms
proof (induction ns arbitrary: i expanded seen dst)
  case (Cons n ns)
  have size: "0 < length (sample_content n)" "length (sample_content n) \<le> 1000"
    using sample_content_size by simp_all
  have w: "unat (zm_size (sample_member n)) = length (sample_content n)"
    using size by (simp add: sample_member_def unat_of_nat)
  then have z: "zm_size (sample_member n) \<noteq> 0" using size(1) by (metis less_irrefl unsigned_0)
  have "uint (word_of_int (MaxInstallerExpandedBytes - expanded) :: u64) = MaxInstallerExpandedBytes - expanded"
    using Cons.prems(4,5) by (subst uint_word_of_int) (simp add: MaxInstallerExpandedBytes_def)
  moreover have "uint (word_of_int MaxInstallerExpandedBytes :: u64) = MaxInstallerExpandedBytes"
    by (subst uint_word_of_int) (simp add: MaxInstallerExpandedBytes_def)
  moreover have "uint (zm_size (sample_member n)) = int (length (sample_content n))"
    using w by (simp add: uint_nat)
  moreover have "int (length (sample_content n)) \<le> MaxInstallerExpandedBytes - expanded"
    "int (length (sample_content n)) \<le> MaxInstallerExpandedBytes"
    using Cons.prems(4,5) size(2) by auto
  ultimately have fits: "\<not> word_of_int (MaxInstallerExpandedBytes - expanded) < zm_size (sample_member n)"
    "\<not> word_of_int MaxInstallerExpandedBytes < zm_size (sample_member n)"
    unfolding word_less_alt by simp_all
  have "extract_members (\<lambda>_. None) (Suc i) (expanded + int (length (sample_content n))) (n # seen)
      (dst(n \<mapsto> bytes_of (sample_content n))) (map sample_member ns) =
     Ok (rev ns @ n # seen, \<lambda>k. if k \<in> set ns then Some (bytes_of (sample_content k))
       else (dst(n \<mapsto> bytes_of (sample_content n))) k)"
    using Cons.prems size by (intro Cons.IH) auto
  moreover have "(\<lambda>k. if k \<in> set ns then Some (bytes_of (sample_content k))
       else (dst(n \<mapsto> bytes_of (sample_content n))) k)
     = (\<lambda>k. if k \<in> set (n # ns) then Some (bytes_of (sample_content k)) else dst k)"
    by (auto simp: fun_eq_iff)
  ultimately show ?case
    using w z fits extract_sample [of dst n] Cons.prems(2,3) installerFiles_plain [of n]
    by (simp add: sample_member_def [of n])
qed simp

lemma text_lines:
  assumes "ls \<noteq> []" and "\<forall>l \<in> set ls. CHR 0x0A \<notin> set l"
  shows "split_on CHR 0x0A (trim_suffix (concat (map (\<lambda>l. l @ [CHR 0x0A]) ls)) [CHR 0x0A]) = ls"
proof -
  have join: "split_on CHR 0x0A (concat (map (\<lambda>l. l @ [CHR 0x0A]) ks) @ k) = ks @ [k]"
    if "\<forall>l \<in> set (ks @ [k]). CHR 0x0A \<notin> set l" for ks k
    using that by (induction ks) (simp_all add: split_on_append split_on_single)
  obtain ks k where ls: "ls = ks @ [k]" using assms(1) by (cases ls rule: rev_cases) auto
  have "trim_suffix (concat (map (\<lambda>l. l @ [CHR 0x0A]) ls)) [CHR 0x0A] =
      concat (map (\<lambda>l. l @ [CHR 0x0A]) ks) @ k"
    by (simp add: ls trim_suffix_def has_suffix_def)
  then show ?thesis using join [of ks k] assms(2) by (simp add: ls)
qed

lemma sample_sum: "hex_encode (sample_sha256 d) = replicate 64 CHR ''7''"
proof -
  have "concat (map (\<lambda>b. [c, c]) (replicate n x)) = replicate (2 * n) c" for c :: char and n and x :: byte
    by (induction n) simp_all
  moreover have "hex_char 7 = CHR ''7''" by (simp add: hex_char_def char_of_iff)
  ultimately show ?thesis by (simp add: sample_sha256_def hex_encode_def)
qed

lemma check_samples:
  assumes "distinct ns" and "set ns \<subseteq> set expected" and "set ns \<subseteq> set installerFiles"
    and "\<forall>n \<in> set ns. n \<notin> set seen"
  shows "check_sums sample_sha256 (\<lambda>_. False) sample_dir expected seen (map sample_line ns) = Ok (rev ns @ seen)"
  using assms
proof (induction ns arbitrary: seen)
  case (Cons n ns)
  have n: "n \<noteq> []" "path_base n = n" "sample_dir n = Some (bytes_of (sample_content n))"
    using installerFiles_plain [of n] Cons.prems(3) by (auto simp: sample_dir_def)
  have hex: "hex_decode (replicate 64 CHR ''7'') = Some (replicate 32 0x77)" by code_simp
  have lower: "map ascii_lower (replicate 64 CHR ''7'') = replicate 64 CHR ''7''" by code_simp
  have parts: "length (sample_line n) = 66 + length n" "take 64 (sample_line n) = replicate 64 CHR ''7''"
      "take 2 (drop 64 (sample_line n)) = ''  ''" "drop 66 (sample_line n) = n"
    by (simp_all add: sample_line_def)
  have "0 < length n" using n(1) by simp
  then have "\<not> length (sample_line n) < 67" unfolding parts by linarith
  moreover have "check_sums sample_sha256 (\<lambda>_. False) sample_dir expected (n # seen) (map sample_line ns)
      = Ok (rev ns @ n # seen)"
    using Cons.prems by (intro Cons.IH) auto
  ultimately show ?case
    using Cons.prems n hex lower parts
    by (simp add: Let_def hashRegularFile_def read_member_def sample_sum)
qed simp

lemma sample_sums_ok:
  assumes "distinct ns" and "set ns \<subseteq> set installerFiles" and "ns \<noteq> []"
    and "f \<in> set installerFiles" and "sample_content f = sample_sums ns"
  shows "verifyChecksumManifest sample_sha256 (\<lambda>_. False) sample_dir f ns = Ok ()"
proof -
  have "sample_sums ns = concat (map (\<lambda>l. l @ [CHR 0x0A]) (map sample_line ns))"
    by (simp add: sample_sums_def sample_line_def comp_def)
  moreover have "\<forall>l \<in> set (map sample_line ns). CHR 0x0A \<notin> set l"
    using assms(2) installerFiles_plain by (auto simp: sample_line_def)
  ultimately have "split_on CHR 0x0A (trim_suffix (sample_sums ns) [CHR 0x0A]) = map sample_line ns"
    using text_lines [of "map sample_line ns"] assms(3) by simp
  then show ?thesis
    using assms check_samples [of ns ns "[]"]
    by (simp add: verifyChecksumManifest_def read_member_def sample_dir_def)
qed

lemma sample_package_opens:
  "open_package sample_sha256 sample_package_env sample_manifest ''a.zip'' 0 (Some (\<lambda>n d. True)) True =
     Ok \<lparr>vp_files = sample_dir, vp_version = ''v1.10.0''\<rparr>"
proof -
  have names: "distinct installerFiles" "distinct installerBinaries" "distinct installerPayloadFiles"
      "set installerBinaries \<subseteq> set installerFiles" "set installerScripts \<subseteq> set installerFiles"
      "set installerPayloadFiles \<subseteq> set installerFiles"
      "''SHA256SUMS.txt'' \<in> set installerFiles" "''PACKAGE_SHA256SUMS.txt'' \<in> set installerFiles"
      "''VERSION.txt'' \<in> set installerFiles"
    by code_simp+
  have extracted: "extractInstallerPackage (\<lambda>_. None) (Some (map sample_member installerFiles)) = Ok sample_dir"
  proof -
    have "extract_members (\<lambda>_. None) 0 0 [] Map.empty (map sample_member installerFiles) =
       Ok (rev installerFiles @ [], \<lambda>n. if n \<in> set installerFiles then Some (bytes_of (sample_content n)) else None)"
      using names(1) by (intro extract_samples) (simp_all add: MaxInstallerExpandedBytes_def installerFiles_def)
    moreover have "(\<lambda>n. if n \<in> set installerFiles then Some (bytes_of (sample_content n)) else None) = sample_dir"
      by (simp add: sample_dir_def fun_eq_iff)
    ultimately show ?thesis by (simp add: extractInstallerPackage_def)
  qed
  have binaries: "verifyChecksumManifest sample_sha256 (\<lambda>_. False) sample_dir ''SHA256SUMS.txt'' installerBinaries = Ok ()"
    using names by (intro sample_sums_ok) (simp_all add: sample_content_def installerBinaries_def)
  have payload: "verifyChecksumManifest sample_sha256 (\<lambda>_. False) sample_dir ''PACKAGE_SHA256SUMS.txt'' installerPayloadFiles = Ok ()"
    using names by (intro sample_sums_ok) (simp_all add: sample_content_def installerPayloadFiles_def)
  have "scan_lines (split_on CHR 0x0A (sample_content ''VERSION.txt'')) = ([''name=wd'', ''version=1.10.0''], True)"
    by (simp add: sample_content_def drop_cr_def)
  moreover have "count_version (trim_prefix ''v1.10.0'' ''v'') [''name=wd'', ''version=1.10.0''] 0 = Some 1" by code_simp
  ultimately have version: "verifyInstallerVersion (\<lambda>_. False) sample_dir ''v1.10.0'' = Ok ()"
    using names(9) by (simp add: verifyInstallerVersion_def read_member_def sample_dir_def)
  have sigs: "check_authenticode (\<lambda>_. None) (\<lambda>n d. True) (\<lambda>_. False) sample_dir ns = Ok ()"
    if "set ns \<subseteq> set installerFiles" for ns
    using that by (induction ns) (simp_all add: read_member_def sample_dir_def)
  have staged: "is_ok (VerifyStagedInstaller sample_sha256 sample_staged sample_manifest ''a.zip'' 0)"
    by (simp add: VerifyStagedInstaller_def sample_manifest_valid sample_staged_def installerSizeLimit_def
        MaxInstallerArchiveBytes_def copyInstaller_def read_limited_def sample_sum)
       (simp add: sample_manifest_def)
  have dir: "fst (ensurePrivateStateDir 7 (\<lambda>_. False) \<lparr>ud_dir = None, ud_state = None, ud_temp = None\<rparr>) = Ok ()"
    by code_simp
  have "mf_version sample_manifest = ''v1.10.0''" by (simp add: sample_manifest_def)
  with staged dir extracted binaries payload version sigs [of "installerBinaries @ installerScripts"] names(4,5)
  show ?thesis
    by (auto simp: open_package_def sample_package_env_def sample_manifest_valid is_ok_iff)
qed


end
