(* ===== verification/Update_Apply.thy ===== *)
theory Update_Apply
  imports Update_Package
begin

text \<open>
  Applying an update (\<open>internal/updateinfo/application.go\<close>) and the executor that runs the
  installer scripts (\<open>powershell_executor.go\<close>).  The application is the composition of its
  phases: checks, the lock between processes, admission against the persisted sequence, the
  verified package handed to the executor, and the commit of the sequence.  The second part
  interleaves the phases of any number of updater processes on one disk.
\<close>

section \<open>The script executor\<close>

text \<open>\<open>filepath.Clean\<close> where the separator is a slash; the stack holds the last element first.\<close>

fun clean_parts :: "bool \<Rightarrow> string list \<Rightarrow> string list \<Rightarrow> string list" where
  "clean_parts rooted stack [] = rev stack"
| "clean_parts rooted stack (p # ps) =
     (if p = [] \<or> p = ''.'' then clean_parts rooted stack ps
      else if p = ''..'' then
        (case stack of
           t # st \<Rightarrow> if t \<noteq> ''..'' then clean_parts rooted st ps else clean_parts rooted (p # stack) ps
         | [] \<Rightarrow> if rooted then clean_parts rooted [] ps else clean_parts rooted [p] ps)
      else clean_parts rooted (p # stack) ps)"

fun join_slash :: "string list \<Rightarrow> string" where
  "join_slash [] = []"
| "join_slash [p] = p"
| "join_slash (p # ps) = p @ CHR ''/'' # join_slash ps"

definition is_abs :: "string \<Rightarrow> bool" where
  "is_abs p \<longleftrightarrow> (case p of [] \<Rightarrow> False | c # _ \<Rightarrow> c = CHR ''/'')"

definition path_clean :: "string \<Rightarrow> string" where
  "path_clean p =
     (let body = join_slash (clean_parts (is_abs p) [] (split_on CHR ''/'' p)) in
      if is_abs p then CHR ''/'' # body else if body = [] then ''.'' else body)"

record powershell_executor =
  px_powershell :: string
  px_installDir :: string
  px_stateDir :: string
  px_serviceName :: string
  px_webRelay :: string

text \<open>
  The answers of the system: which paths are regular files that are no symbolic links, the
  absolute package directory and whether it is a directory, and whether the command with a
  given number succeeds.
\<close>

record powershell_env =
  py_regular :: "string \<Rightarrow> bool"
  py_abs :: "string option"
  py_isDir :: bool
  py_run :: "nat \<Rightarrow> bool"

definition strictExecutablePath :: "powershell_env \<Rightarrow> string \<Rightarrow> string option" where
  "strictExecutablePath env path =
     (if path = [] \<or> \<not> is_abs path then None
      else if \<not> py_regular env (path_clean path) then None
      else Some (path_clean path))"

definition commonArgs :: "powershell_executor \<Rightarrow> string list" where
  "commonArgs e =
     (if px_installDir e \<noteq> [] then [''-InstallDir'', px_installDir e] else []) @
     (if px_stateDir e \<noteq> [] then [''-StateDir'', px_stateDir e] else []) @
     (if px_serviceName e \<noteq> [] then [''-ServiceName'', px_serviceName e] else []) @
     (if px_webRelay e \<noteq> [] then [''-WebRelay'', px_webRelay e] else [])"

definition validationArgs :: "powershell_executor \<Rightarrow> string list" where
  "validationArgs e = commonArgs e"

text \<open>A command is the program with its arguments; a script that is no regular file is not run.\<close>

definition runScript ::
  "powershell_env \<Rightarrow> string \<Rightarrow> string \<Rightarrow> string list \<Rightarrow> (string \<times> string list) list
     \<Rightarrow> bool \<times> (string \<times> string list) list" where
  "runScript env powershell script args cmds =
     (if \<not> py_regular env script then (False, cmds)
      else (py_run env (length cmds),
        cmds @ [(powershell, [''-NoLogo'', ''-NoProfile'', ''-NonInteractive'', ''-ExecutionPolicy'', ''AllSigned'',
          ''-File'', script] @ args)]))"

definition powershell_Execute ::
  "powershell_executor \<Rightarrow> powershell_env \<Rightarrow> string \<Rightarrow> bool \<times> (string \<times> string list) list" where
  "powershell_Execute e env pkgDir0 =
     (case strictExecutablePath env (px_powershell e) of None \<Rightarrow> (False, []) | Some powershell \<Rightarrow>
      if pkgDir0 = [] then (False, [])
      else (case py_abs env of None \<Rightarrow> (False, []) | Some pkgDir \<Rightarrow>
        if \<not> py_isDir env then (False, [])
        else (let validate = path_clean (pkgDir @ ''/Test-WeDecentInstall.ps1'');
                  install = path_clean (pkgDir @ ''/Install-WeDecent.ps1'') in
          case runScript env powershell validate (validationArgs e) [] of
            (False, cmds) \<Rightarrow> (False, cmds)
          | (True, cmds) \<Rightarrow>
              (case runScript env powershell install ([''-BundlePath'', pkgDir] @ commonArgs e) cmds of
                 (False, cmds') \<Rightarrow> (False, cmds')
               | (True, cmds') \<Rightarrow> runScript env powershell validate (validationArgs e) cmds'))))"

section \<open>Applying an update\<close>

type_synonym installer_executor = "verified_package \<Rightarrow> bool"

record apply_env =
  ap_euid :: nat
  ap_ctx :: "nat option"
  ap_lock :: lock_env
  ap_load :: faults
  ap_package :: package_env
  ap_save :: faults
  ap_part :: nat

text \<open>The checks before the locks are taken.\<close>

definition apply_checks ::
  "nat option \<Rightarrow> string \<Rightarrow> installer_executor option \<Rightarrow> manifest \<Rightarrow> (update_error, unit) result" where
  "apply_checks ctx path executor m =
     (if path = [] then Err ErrInvalidState
      else if executor = None then Err ErrInstallerUnavailable
      else bind_res (manifest_Validate m) (\<lambda>_.
        (case ctx of Some e \<Rightarrow> Err (ErrContext e) | None \<Rightarrow> Ok ())))"

definition apply_admit ::
  "nat \<Rightarrow> faults \<Rightarrow> manifest \<Rightarrow> update_disk \<Rightarrow> (update_error, unit) result" where
  "apply_admit euid fails m d =
     bind_res (loadState euid fails d) (\<lambda>current.
       if mf_sequence m \<le> us_sequence current then Err ErrRollback else Ok ())"

text \<open>The callback: once the executor is called its context can no longer be cancelled.\<close>

definition apply_consumer ::
  "context_errors \<Rightarrow> installer_executor \<Rightarrow> verified_package
     \<Rightarrow> (update_error, unit) result \<times> verified_package list" where
  "apply_consumer ctx execute pkg =
     (case ctx CpConsumer of
        Some e \<Rightarrow> (Err (ErrContext e), [])
      | None \<Rightarrow> (if execute pkg then Ok () else Err ErrInstallerApply, [pkg]))"

definition apply_install ::
  "(byte list \<Rightarrow> byte list) \<Rightarrow> package_env \<Rightarrow> manifest \<Rightarrow> string \<Rightarrow> int \<Rightarrow> authenticode_verifier option
     \<Rightarrow> installer_executor \<Rightarrow> (update_error, unit) result \<times> verified_package list" where
  "apply_install sha256 env m stagedPath maxArchiveBytes verifyAuthenticode execute =
     (case WithVerifiedInstallerPackage sha256 env m stagedPath maxArchiveBytes verifyAuthenticode
         (Some (apply_consumer (pe_ctx env) execute)) of
        (Err e, applied) \<Rightarrow> (Err e, applied)
      | (Ok _, applied) \<Rightarrow> (if applied = [] then Err ErrInstallerApply else Ok (), applied))"

definition apply_commit ::
  "nat \<Rightarrow> faults \<Rightarrow> nat \<Rightarrow> manifest \<Rightarrow> update_disk \<Rightarrow> (update_error, unit) result \<times> update_disk" where
  "apply_commit euid fails part m d =
     (case saveState euid fails part \<lparr>us_version = UpdateStateVersion, us_sequence = mf_sequence m\<rparr> d of
        (Err _, d') \<Rightarrow> (Err ErrSequenceCommit, d')
      | (Ok _, d') \<Rightarrow> (Ok (), d'))"

text \<open>The result (none while the lock is awaited), the disk and the packages applied.\<close>

definition ApplyVerifiedInstaller ::
  "(byte list \<Rightarrow> byte list) \<Rightarrow> apply_env \<Rightarrow> string \<Rightarrow> manifest \<Rightarrow> string \<Rightarrow> int \<Rightarrow> authenticode_verifier option
     \<Rightarrow> installer_executor option \<Rightarrow> update_disk
     \<Rightarrow> (update_error, unit) result option \<times> update_disk \<times> verified_package list" where
  "ApplyVerifiedInstaller sha256 env path m stagedPath maxArchiveBytes verifyAuthenticode executor d =
     (case apply_checks (ap_ctx env) path executor m of Err e \<Rightarrow> (Some (Err e), d, []) | Ok _ \<Rightarrow>
      (case acquireUpdateLock (ap_euid env) (ap_lock env) d of
         (None, d1) \<Rightarrow> (None, d1, [])
       | (Some (Err e), d1) \<Rightarrow> (Some (Err e), d1, [])
       | (Some (Ok _), d1) \<Rightarrow>
           (case apply_admit (ap_euid env) (ap_load env) m d1 of Err e \<Rightarrow> (Some (Err e), d1, []) | Ok _ \<Rightarrow>
            (case apply_install sha256 (ap_package env) m stagedPath maxArchiveBytes verifyAuthenticode (the executor) of
               (Err e, applied) \<Rightarrow> (Some (Err e), d1, applied)
             | (Ok _, applied) \<Rightarrow>
                 (case apply_commit (ap_euid env) (ap_save env) (ap_part env) m d1 of
                    (r, d2) \<Rightarrow> (Some r, d2, applied))))))"

section \<open>Several updater processes\<close>

datatype update_phase =
    PhIdle
  | PhWaiting manifest
  | PhLocked manifest
  | PhAdmitted manifest
  | PhInstalled manifest

datatype update_event =
    EvInstall (ev_process: nat) (ev_sequence: u64)
  | EvCommit (ev_process: nat) (ev_sequence: u64)

text \<open>The log has the latest event first; the lock is the process that holds it.\<close>

record update_world =
  uw_disk :: update_disk
  uw_lock :: "nat option"
  uw_phase :: "nat \<Rightarrow> update_phase"
  uw_log :: "update_event list"

definition release :: "nat \<Rightarrow> update_world \<Rightarrow> update_world" where
  "release p w = w\<lparr>uw_lock := None, uw_phase := (uw_phase w)(p := PhIdle)\<rparr>"

text \<open>
  One step of one process: a phase of \<open>ApplyVerifiedInstaller\<close> with any answers of the system
  and any package, or the end of a waiting or crashed process, whose lock the system frees.
\<close>

inductive update_step :: "nat \<Rightarrow> update_world \<Rightarrow> update_world \<Rightarrow> bool" for euid :: nat where
  us_start:
    "uw_phase w p = PhIdle \<Longrightarrow> apply_checks ctx path executor m = Ok () \<Longrightarrow>
     update_step euid w (w\<lparr>uw_phase := (uw_phase w)(p := PhWaiting m)\<rparr>)"
| us_acquire:
    "uw_phase w p = PhWaiting m \<Longrightarrow> uw_lock w = None \<Longrightarrow>
     acquireUpdateLock euid env (uw_disk w) = (Some (Ok ()), d) \<Longrightarrow>
     update_step euid w (w\<lparr>uw_disk := d, uw_lock := Some p, uw_phase := (uw_phase w)(p := PhLocked m)\<rparr>)"
| us_give_up:
    "uw_phase w p = PhWaiting m \<Longrightarrow> acquireUpdateLock euid env (uw_disk w) = (Some (Err e), d) \<Longrightarrow>
     update_step euid w (w\<lparr>uw_disk := d, uw_phase := (uw_phase w)(p := PhIdle)\<rparr>)"
| us_admit:
    "uw_phase w p = PhLocked m \<Longrightarrow> apply_admit euid fails m (uw_disk w) = Ok () \<Longrightarrow>
     update_step euid w (w\<lparr>uw_phase := (uw_phase w)(p := PhAdmitted m)\<rparr>)"
| us_refuse:
    "uw_phase w p = PhLocked m \<Longrightarrow> apply_admit euid fails m (uw_disk w) = Err e \<Longrightarrow>
     update_step euid w (release p w)"
| us_install:
    "uw_phase w p = PhAdmitted m \<Longrightarrow>
     apply_install sha256 env m stagedPath maxArchiveBytes verifier execute = (Ok (), applied) \<Longrightarrow>
     update_step euid w (w\<lparr>uw_phase := (uw_phase w)(p := PhInstalled m), uw_log := EvInstall p (mf_sequence m) # uw_log w\<rparr>)"
| us_install_fails:
    "uw_phase w p = PhAdmitted m \<Longrightarrow>
     apply_install sha256 env m stagedPath maxArchiveBytes verifier execute = (Err e, applied) \<Longrightarrow>
     update_step euid w
       (release p (w\<lparr>uw_log := (if applied = [] then [] else [EvInstall p (mf_sequence m)]) @ uw_log w\<rparr>))"
| us_commit:
    "uw_phase w p = PhInstalled m \<Longrightarrow> apply_commit euid fails part m (uw_disk w) = (Ok (), d) \<Longrightarrow>
     update_step euid w (release p (w\<lparr>uw_disk := d, uw_log := EvCommit p (mf_sequence m) # uw_log w\<rparr>))"
| us_commit_fails:
    "uw_phase w p = PhInstalled m \<Longrightarrow> apply_commit euid fails part m (uw_disk w) = (Err e, d) \<Longrightarrow>
     update_step euid w (release p (w\<lparr>uw_disk := d\<rparr>))"
| us_crash:
    "update_step euid w
       (if uw_lock w = Some p then release p w else w\<lparr>uw_phase := (uw_phase w)(p := PhIdle)\<rparr>)"

inductive update_reach :: "nat \<Rightarrow> update_disk \<Rightarrow> update_world \<Rightarrow> bool" for euid :: nat and d0 :: update_disk where
  ur_init: "update_reach euid d0 \<lparr>uw_disk = d0, uw_lock = None, uw_phase = \<lambda>_. PhIdle, uw_log = []\<rparr>"
| ur_step: "update_reach euid d0 w \<Longrightarrow> update_step euid w w' \<Longrightarrow> update_reach euid d0 w'"

section \<open>The invariant of the processes\<close>

definition holds_lock :: "update_phase \<Rightarrow> bool" where
  "holds_lock ph \<longleftrightarrow> (case ph of PhIdle \<Rightarrow> False | PhWaiting _ \<Rightarrow> False | _ \<Rightarrow> True)"

fun admitted :: "update_phase \<Rightarrow> manifest option" where
  "admitted (PhAdmitted m) = Some m"
| "admitted (PhInstalled m) = Some m"
| "admitted _ = None"

text \<open>Every event is above all commits before it.\<close>

fun log_advances :: "update_event list \<Rightarrow> bool" where
  "log_advances [] = True"
| "log_advances (e # es) = (list_all (\<lambda>c. (case c of EvCommit _ s \<Rightarrow> s < ev_sequence e | _ \<Rightarrow> True)) es \<and> log_advances es)"

definition committed_upto :: "u64 option \<Rightarrow> update_event list \<Rightarrow> bool" where
  "committed_upto hi es \<longleftrightarrow>
     list_all (\<lambda>c. (case c of EvCommit _ s \<Rightarrow> (case hi of Some t \<Rightarrow> s \<le> t | None \<Rightarrow> False) | _ \<Rightarrow> True)) es"

definition update_inv :: "nat \<Rightarrow> update_world \<Rightarrow> bool" where
  "update_inv euid w \<longleftrightarrow>
     (\<forall>p. holds_lock (uw_phase w p) \<longleftrightarrow> uw_lock w = Some p) \<and>
     (\<forall>p m. admitted (uw_phase w p) = Some m \<longrightarrow>
        (\<exists>s. disk_sequence euid (uw_disk w) = Some s \<and> s < mf_sequence m)) \<and>
     log_advances (uw_log w) \<and> committed_upto (disk_sequence euid (uw_disk w)) (uw_log w)"

lemma apply_admit_Ok:
  "apply_admit euid fails m d = Ok () \<Longrightarrow> \<exists>s. disk_sequence euid d = Some s \<and> s < mf_sequence m"
  by (auto simp: apply_admit_def bind_res_Ok_iff not_le dest: disk_sequence_load split: if_splits)

lemma apply_commit_disk:
  assumes "apply_commit euid fails part m d = (r, d')"
  shows "disk_sequence euid d' = Some (mf_sequence m) \<or> r \<noteq> Ok () \<and> disk_sequence euid d' = disk_sequence euid d"
proof -
  obtain r1 d1 where s: "saveState euid fails part \<lparr>us_version = UpdateStateVersion, us_sequence = mf_sequence m\<rparr> d = (r1, d1)"
    by fastforce
  with assms have "d' = d1" "r \<noteq> Ok () \<longleftrightarrow> r1 \<noteq> Ok ()"
    by (auto simp: apply_commit_def split: sum.splits)
  with disk_sequence_saved [OF s] show ?thesis by (auto split: if_splits)
qed

lemma acquireUpdateLock_sequence:
  "acquireUpdateLock euid env d = (r, d') \<Longrightarrow> disk_sequence euid d' = disk_sequence euid d"
  using acquireUpdateLock_disk [of euid env d] disk_sequence_cong [of d' d euid] by simp

lemma log_advances_cons:
  "log_advances es \<Longrightarrow> committed_upto (Some t) es \<Longrightarrow> t < ev_sequence e \<Longrightarrow> log_advances (e # es)"
  by (auto simp: committed_upto_def list_all_iff split: update_event.splits)

lemma committed_upto_install: "committed_upto t (EvInstall p s # es) \<longleftrightarrow> committed_upto t es"
  by (simp add: committed_upto_def)

lemma committed_upto_mono: "committed_upto (Some t) es \<Longrightarrow> t \<le> u \<Longrightarrow> committed_upto (Some u) es"
  by (auto simp: committed_upto_def list_all_iff split: update_event.splits)

text \<open>A step that changes neither disk nor log keeps the invariant when the lock fits the phases.\<close>

lemma update_inv_phase:
  assumes "update_inv euid w" and "disk_sequence euid (uw_disk w') = disk_sequence euid (uw_disk w)"
    and "uw_log w' = uw_log w" and "\<forall>p. holds_lock (uw_phase w' p) \<longleftrightarrow> uw_lock w' = Some p"
    and "\<forall>p m. admitted (uw_phase w' p) = Some m \<longrightarrow>
      admitted (uw_phase w p) = Some m \<or> (\<exists>s. disk_sequence euid (uw_disk w) = Some s \<and> s < mf_sequence m)"
  shows "update_inv euid w'"
  using assms unfolding update_inv_def by metis

lemma holds_lock_simps [simp]:
  "\<not> holds_lock PhIdle" "\<not> holds_lock (PhWaiting m)" "holds_lock (PhLocked m)"
  "holds_lock (PhAdmitted m)" "holds_lock (PhInstalled m)"
  by (simp_all add: holds_lock_def)

lemma update_inv_lock: "update_inv euid w \<Longrightarrow> holds_lock (uw_phase w p) \<longleftrightarrow> uw_lock w = Some p"
  by (simp add: update_inv_def)

lemma update_inv_admitted:
  "update_inv euid w \<Longrightarrow> admitted (uw_phase w p) = Some m \<Longrightarrow>
   \<exists>s. disk_sequence euid (uw_disk w) = Some s \<and> s < mf_sequence m"
  by (simp add: update_inv_def)

lemma admitted_holds: "admitted ph = Some m \<Longrightarrow> holds_lock ph"
  by (cases ph) auto

text \<open>The holder of the lock releases it after changing disk and log.\<close>

lemma update_inv_release:
  assumes "update_inv euid w" and "holds_lock (uw_phase w p)"
    and "uw_phase w' = uw_phase w"
    and "log_advances (uw_log w')" and "committed_upto (disk_sequence euid (uw_disk w')) (uw_log w')"
  shows "update_inv euid (release p w')"
proof -
  have lock: "\<forall>q. holds_lock (uw_phase w q) \<longleftrightarrow> q = p"
    using assms(1,2) by (auto simp: update_inv_def)
  then have "\<forall>q. \<not> holds_lock (((uw_phase w')(p := PhIdle)) q)"
    using assms(3) by (auto simp: holds_lock_def)
  note none = this
  then have "\<forall>q m. admitted (((uw_phase w')(p := PhIdle)) q) \<noteq> Some m" by (metis admitted_holds)
  with none show ?thesis
    using assms(4,5) by (simp add: update_inv_def release_def)
qed

lemma update_inv_step:
  assumes "update_step euid w w'" and "update_inv euid w"
  shows "update_inv euid w'"
proof -
  have L: "log_advances (uw_log w)" and C: "committed_upto (disk_sequence euid (uw_disk w)) (uw_log w)"
    using assms(2) by (auto simp: update_inv_def)
  show ?thesis
    using assms(1)
  proof cases
  case (us_start p ctx path executor m)
  then show ?thesis using assms(2) update_inv_lock [OF assms(2), of p]
    by (intro update_inv_phase [OF assms(2)]) (auto simp: update_inv_def split: if_splits)
next
  case (us_acquire p m env d)
  then show ?thesis using assms(2) update_inv_lock [OF assms(2), of p]
    by (intro update_inv_phase [OF assms(2)])
       (auto simp: update_inv_def acquireUpdateLock_sequence split: if_splits)
next
  case (us_give_up p m env e d)
  then show ?thesis using assms(2) update_inv_lock [OF assms(2), of p]
    by (intro update_inv_phase [OF assms(2)])
       (auto simp: update_inv_def acquireUpdateLock_sequence split: if_splits)
next
  case (us_admit p m fails)
  then show ?thesis using assms(2) update_inv_lock [OF assms(2), of p] apply_admit_Ok
    by (intro update_inv_phase [OF assms(2)])
       (auto simp: update_inv_def split: if_splits)
next
  case (us_refuse p m fails e)
  then show ?thesis using update_inv_release [OF assms(2), of p w] L C by simp
next
  case (us_install p m sha256 env stagedPath maxArchiveBytes verifier execute applied)
  then obtain s where s: "disk_sequence euid (uw_disk w) = Some s" "s < mf_sequence m"
    using update_inv_admitted [OF assms(2), of p m] by auto
  then have "log_advances (uw_log w')" "committed_upto (disk_sequence euid (uw_disk w')) (uw_log w')"
    using us_install assms(2) log_advances_cons [of "uw_log w" s]
    by (simp_all add: update_inv_def committed_upto_install del: log_advances.simps)
  then show ?thesis using us_install assms(2) s update_inv_lock [OF assms(2), of p]
    by (auto simp: update_inv_def split: if_splits)
next
  case (us_install_fails p m sha256 env stagedPath maxArchiveBytes verifier execute e applied)
  then obtain s where s: "disk_sequence euid (uw_disk w) = Some s" "s < mf_sequence m"
    using update_inv_admitted [OF assms(2), of p m] by auto
  have "update_inv euid
      (release p (w\<lparr>uw_log := (if applied = [] then [] else [EvInstall p (mf_sequence m)]) @ uw_log w\<rparr>))"
    using us_install_fails(2) s L C log_advances_cons [of "uw_log w" s "EvInstall p (mf_sequence m)"]
    by (intro update_inv_release [OF assms(2)]) (simp_all add: committed_upto_install del: log_advances.simps)
  then show ?thesis using us_install_fails(1) by simp
next
  case (us_commit p m fails part d)
  then obtain s where s: "disk_sequence euid (uw_disk w) = Some s" "s < mf_sequence m"
    using update_inv_admitted [OF assms(2), of p m] by auto
  have d: "disk_sequence euid d = Some (mf_sequence m)" using apply_commit_disk [OF us_commit(3)] by simp
  have "log_advances (EvCommit p (mf_sequence m) # uw_log w)"
    using assms(2) s log_advances_cons [of "uw_log w" s] by (simp add: update_inv_def del: log_advances.simps)
  moreover have "committed_upto (Some (mf_sequence m)) (EvCommit p (mf_sequence m) # uw_log w)"
    using assms(2) s committed_upto_mono [of s "uw_log w" "mf_sequence m"]
    by (simp add: update_inv_def) (simp add: committed_upto_def)
  ultimately have "update_inv euid (release p (w\<lparr>uw_disk := d, uw_log := EvCommit p (mf_sequence m) # uw_log w\<rparr>))"
    using us_commit(2) d by (intro update_inv_release [OF assms(2)]) (simp_all del: log_advances.simps)
  then show ?thesis using us_commit(1) by simp
next
  case (us_commit_fails p m fails part e d)
  then obtain s where s: "disk_sequence euid (uw_disk w) = Some s" "s < mf_sequence m"
    using update_inv_admitted [OF assms(2), of p m] by auto
  have "committed_upto (disk_sequence euid d) (uw_log w)"
    using apply_commit_disk [OF us_commit_fails(3)] assms(2) s committed_upto_mono [of s "uw_log w" "mf_sequence m"]
    by (auto simp: update_inv_def)
  then have "update_inv euid (release p (w\<lparr>uw_disk := d\<rparr>))"
    using us_commit_fails(2) L by (intro update_inv_release [OF assms(2)]) simp_all
  then show ?thesis using us_commit_fails(1) by simp
next
  case (us_crash p)
  show ?thesis
  proof (cases "uw_lock w = Some p")
    case True
    then show ?thesis
      using us_crash update_inv_release [OF assms(2), of p w] update_inv_lock [OF assms(2), of p] L C by simp
  next
    case False
    then show ?thesis using us_crash assms(2) update_inv_lock [OF assms(2), of p]
      by (intro update_inv_phase [OF assms(2)]) (auto simp: update_inv_def split: if_splits)
  qed
qed
qed

lemma update_reach_inv: "update_reach euid d0 w \<Longrightarrow> update_inv euid w"
proof (induction rule: update_reach.induct)
  case ur_init
  show ?case by (simp add: update_inv_def holds_lock_def committed_upto_def)
next
  case (ur_step w w')
  then show ?case using update_inv_step by blast
qed

lemma log_advances_split:
  "log_advances (newer @ EvCommit p s # older) \<Longrightarrow> e \<in> set newer \<Longrightarrow> s < ev_sequence e"
  by (induction newer) auto

text \<open>A call of \<open>ApplyVerifiedInstaller\<close> is a run of one process.\<close>

definition apply_log :: "u64 \<Rightarrow> (update_error, unit) result \<Rightarrow> verified_package list \<Rightarrow> update_event list" where
  "apply_log s r applied =
     (if r = Ok () then [EvCommit 0 s] else []) @ (if applied = [] then [] else [EvInstall 0 s])"

definition at_phase :: "update_disk \<Rightarrow> nat option \<Rightarrow> update_phase \<Rightarrow> update_event list \<Rightarrow> update_world" where
  "at_phase d l ph es = \<lparr>uw_disk = d, uw_lock = l, uw_phase = (\<lambda>_. PhIdle)(0 := ph), uw_log = es\<rparr>"

lemma at_phase_simps [simp]:
  "uw_disk (at_phase d l ph es) = d" "uw_lock (at_phase d l ph es) = l" "uw_phase (at_phase d l ph es) = (\<lambda>_. PhIdle)(0 := ph)"
  "uw_log (at_phase d l ph es) = es" "release 0 (at_phase d l ph es) = at_phase d None PhIdle es"
  "(at_phase d l ph es)\<lparr>uw_phase := (\<lambda>_. PhIdle)(0 := ph')\<rparr> = at_phase d l ph' es"
  "(at_phase d l ph es)\<lparr>uw_log := es'\<rparr> = at_phase d l ph es'"
  "(at_phase d l ph es)\<lparr>uw_disk := d'\<rparr> = at_phase d' l ph es"
  "(at_phase d l ph es)\<lparr>uw_lock := l'\<rparr> = at_phase d l' ph es"
  by (simp_all add: at_phase_def release_def)

lemma apply_install_applied:
  "apply_install sha256 env m stagedPath maxArchiveBytes verifier execute = (Ok (), applied) \<Longrightarrow> applied \<noteq> []"
  by (auto simp: apply_install_def split: prod.splits sum.splits if_splits)

lemma apply_is_run:
  assumes "ApplyVerifiedInstaller sha256 env path m stagedPath maxArchiveBytes verifier executor d = (Some r, d', applied)"
  shows "\<exists>w. update_reach (ap_euid env) d w \<and> uw_disk w = d' \<and> uw_log w = apply_log (mf_sequence m) r applied \<and>
     uw_lock w = None"
proof -
  let ?e = "ap_euid env"
  have init: "update_reach ?e d (at_phase d None PhIdle [])"
    using ur_init [of ?e d] by (simp add: at_phase_def fun_upd_idem)
  show ?thesis
  proof (cases "apply_checks (ap_ctx env) path executor m")
    case (Inl e)
    then show ?thesis using assms init
      by (intro exI [of _ "at_phase d None PhIdle []"]) (auto simp: ApplyVerifiedInstaller_def apply_log_def)
  next
    case (Inr u)
    then have wait: "update_reach ?e d (at_phase d None (PhWaiting m) [])"
      using ur_step [OF init us_start [of _ 0 "ap_ctx env" path executor m]] by simp
    obtain l d1 where l: "acquireUpdateLock ?e (ap_lock env) d = (l, d1)" by fastforce
    show ?thesis
    proof (cases "l = Some (Ok ())")
      case False
      with assms Inr l obtain e where e: "l = Some (Err e)" "r = Err e" "d' = d1" "applied = []"
        by (auto simp: ApplyVerifiedInstaller_def split: option.splits sum.splits)
      then show ?thesis
        using ur_step [OF wait us_give_up [of _ 0 m ?e "ap_lock env" e d1]] l
        by (intro exI [of _ "at_phase d1 None PhIdle []"]) (simp add: apply_log_def)
    next
      case True
      then have locked: "update_reach ?e d (at_phase d1 (Some 0) (PhLocked m) [])"
        using ur_step [OF wait us_acquire [of _ 0 m ?e "ap_lock env" d1]] l by simp
      show ?thesis
      proof (cases "apply_admit ?e (ap_load env) m d1")
        case (Inl e)
        with assms \<open>apply_checks _ _ _ _ = _\<close> l True have "r = Err e" "d' = d1" "applied = []"
          by (auto simp: ApplyVerifiedInstaller_def)
        then show ?thesis
          using ur_step [OF locked us_refuse [of _ 0 m ?e "ap_load env" e]] Inl
          by (intro exI [of _ "at_phase d1 None PhIdle []"]) (simp add: apply_log_def)
      next
        case admit: (Inr v)
        then have adm: "update_reach ?e d (at_phase d1 (Some 0) (PhAdmitted m) [])"
          using ur_step [OF locked us_admit [of _ 0 m ?e "ap_load env"]] by simp
        obtain ri ai where i: "apply_install sha256 (ap_package env) m stagedPath maxArchiveBytes verifier
            (the executor) = (ri, ai)" by fastforce
        show ?thesis
        proof (cases ri)
          case (Inl e)
          with assms \<open>apply_checks _ _ _ _ = _\<close> l True admit i have "r = Err e" "d' = d1" "applied = ai"
            by (auto simp: ApplyVerifiedInstaller_def)
          then show ?thesis
            using ur_step [OF adm us_install_fails [of _ 0 m sha256 "ap_package env" stagedPath maxArchiveBytes
                  verifier "the executor" e ai]] i Inl
            by (intro exI [of _ "at_phase d1 None PhIdle (if ai = [] then [] else [EvInstall 0 (mf_sequence m)])"])
               (auto simp: apply_log_def)
        next
          case (Inr x)
          then have inst: "update_reach ?e d (at_phase d1 (Some 0) (PhInstalled m) [EvInstall 0 (mf_sequence m)])"
            using ur_step [OF adm us_install [of _ 0 m sha256 "ap_package env" stagedPath maxArchiveBytes
                  verifier "the executor" ai]] i by simp
          obtain rc dc where c: "apply_commit ?e (ap_save env) (ap_part env) m d1 = (rc, dc)" by fastforce
          have res: "r = rc" "d' = dc" "applied = ai" "ai \<noteq> []"
            using assms \<open>apply_checks _ _ _ _ = _\<close> l True admit i Inr c apply_install_applied
            by (auto simp: ApplyVerifiedInstaller_def)
          show ?thesis
          proof (cases rc)
            case (Inl e)
            then show ?thesis
              using ur_step [OF inst us_commit_fails [of _ 0 m ?e "ap_save env" "ap_part env" e dc]] c res
              by (intro exI [of _ "at_phase dc None PhIdle [EvInstall 0 (mf_sequence m)]"]) (simp add: apply_log_def)
          next
            case (Inr y)
            then show ?thesis
              using ur_step [OF inst us_commit [of _ 0 m ?e "ap_save env" "ap_part env" dc]] c res
              by (intro exI [of _ "at_phase dc None PhIdle [EvCommit 0 (mf_sequence m), EvInstall 0 (mf_sequence m)]"])
                 (simp add: apply_log_def)
          qed
        qed
      qed
    qed
  qed
qed

text \<open>
  The executor succeeds only after three successful commands of the same interpreter on scripts
  of the package: the validation, the installation and the validation again.
\<close>

lemma powershell_Execute_success:
  assumes "powershell_Execute e env pkgDir0 = (True, cmds)"
  shows "\<exists>prog pkgDir. strictExecutablePath env (px_powershell e) = Some prog \<and> py_abs env = Some pkgDir \<and>
     py_run env 0 \<and> py_run env 1 \<and> py_run env 2 \<and>
     map (\<lambda>c. (fst c, snd c ! 6)) cmds =
       [(prog, path_clean (pkgDir @ ''/Test-WeDecentInstall.ps1'')), (prog, path_clean (pkgDir @ ''/Install-WeDecent.ps1'')),
        (prog, path_clean (pkgDir @ ''/Test-WeDecentInstall.ps1''))]"
proof -
  obtain prog where prog: "strictExecutablePath env (px_powershell e) = Some prog"
    using assms by (cases "strictExecutablePath env (px_powershell e)") (auto simp: powershell_Execute_def)
  moreover obtain pkgDir where "py_abs env = Some pkgDir"
    using assms prog by (cases "py_abs env") (auto simp: powershell_Execute_def split: if_splits)
  ultimately show ?thesis
    using assms by (auto simp: powershell_Execute_def runScript_def Let_def numeral_2_eq_2
        split: if_splits bool.splits prod.splits)
qed

text \<open>
  Claim C3.  In every interleaving of updater processes that apply updates, with failing system
  calls, failing installers and crashes, at most one process is between admission and commit,
  no installer runs and no sequence is committed at or below a sequence committed earlier, and
  the disk holds a sequence at least as high as every committed one.
\<close>

theorem committed_sequence_never_rolls_back:
  assumes "update_reach euid d0 w"
  shows "(uw_log w = newer @ EvCommit p s # older \<longrightarrow>
       list_all (\<lambda>e. s < ev_sequence e) newer \<and> (\<exists>t. disk_sequence euid (uw_disk w) = Some t \<and> s \<le> t)) \<and>
     (holds_lock (uw_phase w q) \<and> holds_lock (uw_phase w r) \<longrightarrow> q = r)"
proof -
  have i: "update_inv euid w" using assms by (rule update_reach_inv)
  have "list_all (\<lambda>e. s < ev_sequence e) newer" "\<exists>t. disk_sequence euid (uw_disk w) = Some t \<and> s \<le> t"
    if l: "uw_log w = newer @ EvCommit p s # older"
  proof -
    show "list_all (\<lambda>e. s < ev_sequence e) newer"
      using i l log_advances_split [of newer p s older] by (auto simp: update_inv_def list_all_iff)
    show "\<exists>t. disk_sequence euid (uw_disk w) = Some t \<and> s \<le> t"
      using i l by (auto simp: update_inv_def committed_upto_def split: option.splits)
  qed
  moreover have "holds_lock (uw_phase w q) \<and> holds_lock (uw_phase w r) \<longrightarrow> q = r"
    using update_inv_lock [OF i, of q] update_inv_lock [OF i, of r] by auto
  ultimately show ?thesis by blast
qed

definition sample_apply :: apply_env where
  "sample_apply = \<lparr>ap_euid = 7, ap_ctx = None,
     ap_lock = sample_lock\<lparr>le_answers := \<lambda>n. if n < 2 then FlockWouldBlock else FlockAcquired\<rparr>,
     ap_load = \<lambda>_. False, ap_package = sample_package_env, ap_save = \<lambda>_. False, ap_part = 0\<rparr>"

definition empty_disk :: update_disk where
  "empty_disk = \<lparr>ud_dir = None, ud_state = None, ud_temp = None\<rparr>"

lemma sample_apply_commits:
  "\<exists>d. ApplyVerifiedInstaller sample_sha256 sample_apply ''/s/update-state.json'' sample_manifest ''a.zip'' 0
     (Some (\<lambda>n d. True)) (Some (\<lambda>p. True)) empty_disk
     = (Some (Ok ()), d, [\<lparr>vp_files = sample_dir, vp_version = ''v1.10.0''\<rparr>])"
proof -
  let ?d1 = "\<lparr>ud_dir = Some (DDirectory 448 7), ud_state = None, ud_temp = None\<rparr>"
  have wait: "flock_loop (le_answers (ap_lock sample_apply)) (le_ctx (ap_lock sample_apply)) 0 = Some (Ok ())"
    using flock_loop_result [of "le_answers (ap_lock sample_apply)" "le_ctx (ap_lock sample_apply)" 2]
    by (simp add: sample_apply_def sample_lock_def still_waiting_def)
  have dir: "ensurePrivateStateDir 7 (\<lambda>_. False) empty_disk = (Ok (), ?d1)"
    "ensurePrivateStateDir 7 (\<lambda>_. False) ?d1 = (Ok (), ?d1)"
    by (simp_all add: ensurePrivateStateDir_def mkdir_all_def empty_disk_def validateStateDirInfo_def
        validateEffectiveOwner_def)
  have lock: "acquireUpdateLock 7 (ap_lock sample_apply) empty_disk = (Some (Ok ()), ?d1)"
    using wait dir(1) by (simp add: acquireUpdateLock_def sample_apply_def sample_lock_def)
  have admit: "apply_admit 7 (\<lambda>_. False) sample_manifest ?d1 = Ok ()"
    by (simp add: apply_admit_def loadState_def) (simp add: sample_manifest_def)
  have install: "apply_install sample_sha256 sample_package_env sample_manifest ''a.zip'' 0 (Some (\<lambda>n d. True)) (\<lambda>p. True)
      = (Ok (), [\<lparr>vp_files = sample_dir, vp_version = ''v1.10.0''\<rparr>])"
    using sample_package_opens
    by (simp add: apply_install_def WithVerifiedInstallerPackage_def apply_consumer_def)
       (simp add: sample_package_env_def)
  have enc: "encodeState \<lparr>us_version = 1, us_sequence = 7\<rparr> = Ok (bytes_of (state_json \<lparr>us_version = 1, us_sequence = 7\<rparr> @ [CHR 0x0A]))"
    using length_json_quote [of "''version''"] length_json_quote [of "''stable_sequence''"]
    by (simp add: encodeState_def state_json_def json_object_def MaxUpdateStateBytes_def decimal.simps
        del: bytes_of_append)
  have "\<exists>d. apply_commit 7 (\<lambda>_. False) 0 sample_manifest ?d1 = (Ok (), d)"
    using dir(2) enc
    by (simp add: apply_commit_def saveState_def validatePersisted_def UpdateStateVersion_def replaceStateFile_def
        sample_manifest_def)
  then obtain d where commit: "apply_commit 7 (\<lambda>_. False) 0 sample_manifest ?d1 = (Ok (), d)" by blast
  have "apply_checks None ''/s/update-state.json'' (Some (\<lambda>p. True)) sample_manifest = Ok ()"
    by (simp add: apply_checks_def sample_manifest_valid)
  with lock admit install commit show ?thesis
    by (simp add: ApplyVerifiedInstaller_def) (simp add: sample_apply_def)
qed

theorem committed_sequence_never_rolls_back_witness:
  "\<exists>w t. update_reach 7 empty_disk w \<and> uw_log w = [EvCommit 0 7, EvInstall 0 7] \<and>
     disk_sequence 7 (uw_disk w) = Some t \<and> 7 \<le> t"
proof -
  have "ap_euid sample_apply = 7" "mf_sequence sample_manifest = 7"
    by (simp_all add: sample_apply_def sample_manifest_def)
  with sample_apply_commits apply_is_run obtain w where
    w: "update_reach 7 empty_disk w" "uw_log w = [EvCommit 0 7, EvInstall 0 7]"
    by (fastforce simp: apply_log_def)
  from committed_sequence_never_rolls_back [OF w(1), of "[]" 0 7 "[EvInstall 0 7]"] w show ?thesis by auto
qed

text \<open>
  \<open>Advance\<close> takes only the mutex of its own store, so it may run between the admission and the
  commit of another process; the commit then replaces a higher sequence.
\<close>

lemma advance_overwritten:
  assumes "StateStore_Advance euid fails part path s d = (Ok (), d1)"
    and "apply_commit euid fails' part' m d1 = (Ok (), d2)"
  shows "disk_sequence euid d1 = Some s \<and> disk_sequence euid d2 = Some (mf_sequence m)"
proof -
  have "saveState euid fails part \<lparr>us_version = UpdateStateVersion, us_sequence = s\<rparr> d = (Ok (), d1)"
    using assms(1) by (auto simp: StateStore_Advance_def split: if_splits sum.splits)
  from disk_sequence_saved [OF this] apply_commit_disk [OF assms(2)] show ?thesis by simp
qed

end
