(* ===== verification/Spec2Isabelle.thy ===== *)
theory Spec2Isabelle
  imports Forwarder Session_Runs Update_Apply
begin

text \<open>
  \<^bold>\<open>Verification of wedecent.\<close>  Wedecent gives a client a terminal and file transfer on a machine
  it has been paired with, over a direct connection, a relay, or a mesh of routers.  An agent
  serves authenticated connections; routers forward tunnels along routes that a control plane
  authorizes; a separate updater installs signed releases.  The Go sources are under \<open>src/\<close>.

  \<^bold>\<open>Parts and theories.\<close>

  \<^item> \<open>Prelude\<close>, \<open>Go_Lib\<close>, \<open>Go_Bytes\<close>, \<open>Go_JSON\<close>, \<open>Go_IO\<close>: the result type, and the part of Go and its
    standard library the program uses: byte strings, UTF-8, time, big-endian integers, hexadecimal,
    base64 (lenient and strict), JSON, readers and writers with short and failing operations.
    The locales \<open>io_writer\<close> and \<open>framed_codec\<close> are the interfaces of a writer and of a framing.
  \<^item> \<open>Frame\<close>, \<open>Typed_Stream\<close> (\<open>internal/protocol\<close>): the wire frame and its reading and writing, the
    messages of typed streams and file transfers and their validation.
  \<^item> \<open>Stream_Registry\<close> (\<open>internal/session/typed_stream_state.go\<close>, \<open>typed_stream_flow.go\<close>): the
    identifiers of one connection and credit windows; locales \<open>stream_registry\<close> and \<open>credit_window\<close>.
  \<^item> \<open>Terminal_Server\<close> (\<open>typed_stream_server.go\<close>), \<open>File_Store\<close> (\<open>file_transfer_store.go\<close>, over one
    directory tree that others may change), \<open>File_Server\<close> and \<open>File_Runs\<close> (\<open>typed_file_server.go\<close>):
    the two stream engines of the agent, every frame handler and every goroutine pass as a function
    on the engine's state and its effects.
  \<^item> \<open>Engine_Registry\<close>, \<open>Typed_Session\<close>, \<open>Session_Runs\<close> (\<open>typed_stream_session.go\<close>, \<open>typed_stream_dispatch.go\<close>,
    \<open>typed_stream_audit.go\<close>, \<open>policy.go\<close>): the session that owns both engines, their shared registry,
    the timers and the audit trail; locales \<open>stream_engine\<close> and \<open>engine_pair\<close>.
  \<^item> \<open>Audit_Log\<close> (\<open>internal/audit/log.go\<close>): appending and rotation with failing system calls.
  \<^item> \<open>Route\<close>, \<open>Route_Control\<close>, \<open>Route_Auth\<close>, \<open>Replay\<close>, \<open>Forwarder\<close> (\<open>internal/mesh\<close>, \<open>internal/meshstate/replay.go\<close>):
    routes and the planner, the control messages, signed single-use authorizations, the two
    replay guards (locale \<open>replay_guard\<close>) and the router's forwarding runtime.
  \<^item> \<open>Update_Manifest\<close>, \<open>Update_State\<close>, \<open>Update_Package\<close>, \<open>Update_Apply\<close> (\<open>internal/updateinfo\<close>): signed
    manifests and discovery, the anti-rollback state and its lock, staging and verification of
    installer packages, and their application by any number of processes; locale \<open>canonical_codec\<close>.

  \<^bold>\<open>How the model corresponds to the code.\<close>  A definition carries the name of the Go function, with
  a prefix where the name is a method or already taken.  A struct is a record, an error is a
  constructor of the component's error type (its message is not kept), a Go map is a partial map
  or an association list, integers keep their width where it matters.  State is passed
  explicitly; what a call to the operating system answers is a field of an environment record, so the
  theorems range over every combination of failures.  Critical sections are single steps;
  goroutines and processes are interleaved by inductive step relations.  Ed25519, SHA-256,
  Authenticode, the ZIP reader, HTTP exchanges and, in the stream and route protocols, the JSON coder
  of a message are parameters; a theorem that needs a law of a parameter states it as a
  hypothesis and has a witness with a concrete parameter.

  \<^bold>\<open>What the lemmas show.\<close>  A stateful component has an invariant that its operations keep, and lemmas
  that characterize when an operation succeeds and what it leaves behind when it fails.  On top of these: frames and messages are read
  back as written and nothing else is accepted; stream identifiers are never reused and credit is
  never exceeded in either direction; the number of terminals and file streams is bounded and
  everything is released when a session ends; an acknowledged upload is published completely
  or not at all and stays below the root; a route authorization is accepted exactly when it is valid and
  at most once; a router accepts a tunnel only after all checks and never loses a session slot; the audit
  trail of a session is complete; a discovered update is authentic and newer, an installer sees only a verified
  package, and no interleaving of applications goes back behind a committed sequence.  Some lemmas
  record limits of the code: an authorization that expires between the verifier's and the replay guard's
  reading of the clock is accepted again, and \<open>Advance\<close>, which does not take the update lock, can be
  overwritten by the commit of another process (\<open>advance_overwritten\<close>).

  \<^bold>\<open>Fuel and loops.\<close>  Loops over data are structural or have a termination proof by the length of the
  input.  \<open>json_value\<close> recurses on fuel; \<open>json_decode\<close> starts it with one more than the length of its input, and every
  call consumes a character before the next.  The wait for the update lock has no bound in the code
  and is a \<open>partial_function\<close>; a theorem says exactly when it returns.

  \<^bold>\<open>Not modelled.\<close>  Sockets, TLS and the session handshake (\<open>session/server.go\<close>, \<open>client.go\<close>, \<open>transport\<close>,
  \<open>identity\<close>, \<open>meshnet\<close>), the client side of the stream protocol (\<open>managed*.go\<close>), the relay and its tickets, the
  local core API and its programs, the trust store, accounts, discovery, pseudo-terminals, the
  Windows service and user interface, and the worker, database and scripts outside Go.  These are
  mostly calls of the operating system or of remote services; the parts with logic of
  their own are left for further work.  In the modelled parts, crashes inside one system call, the
  content of error messages and the timing of the Go scheduler beyond the order of critical
  sections are not represented.
\<close>

end
